(* ===== verification/Prelude.thy ===== *)
theory Prelude
  imports Main "HOL-Library.Word" "HOL-Library.List_Lexorder" "HOL-Library.Signed_Division"
begin

text \<open>
  Shared vocabulary of the development.

  \<^item> Types: a Go \<open>byte\<close> is an 8-bit word, a \<open>[]byte\<close> or a \<open>string\<close> is a list of bytes, and
    the order of Go strings is the lexicographic order of such lists. A Go \<open>int\<close> or \<open>int64\<close> is an
    \<open>int\<close> whose additions and multiplications are wrapped with \<open>i64\<close> wherever they can overflow;
    an unsigned integer is a word of its width.
  \<^item> Results: a Go function that returns \<open>(T, error)\<close> returns \<open>'e + 'a\<close>, with \<open>Inl\<close> for the
    error. \<open>andThen\<close> is the \<open>if err != nil \<open>{ return err }\<close>\<close> idiom, \<open>wrapErr\<close> is
    \<open>fmt.Errorf("...: %w", err)\<close>.
  \<^item> Slices, big-endian integers of \<open>encoding/binary\<close>, and the collections of hints that the
    component theories use.
\<close>

unbundle bit_operations_syntax

section \<open>Bytes and strings\<close>

type_synonym byte = "8 word"
type_synonym bytes = "byte list"

definition str :: "string \<Rightarrow> bytes" where
  "str s = map of_char s"

lemma str_Nil [simp]: "str [] = []"
  by (simp add: str_def)

lemma str_Cons [simp]: "str (c # cs) = of_char c # str cs"
  by (simp add: str_def)

lemma str_append: "str (xs @ ys) = str xs @ str ys"
  by (simp add: str_def)

lemma length_str [simp]: "length (str s) = length s"
  by (simp add: str_def)

definition isDigit :: "byte \<Rightarrow> bool" where
  "isDigit b \<longleftrightarrow> 48 \<le> b \<and> b \<le> 57"

definition digitVal :: "byte \<Rightarrow> nat" where
  "digitVal b = unat b - 48"

definition digitByte :: "nat \<Rightarrow> byte" where
  "digitByte d = of_nat (48 + d)"

lemma unat_digitByte: "d < 10 \<Longrightarrow> unat (digitByte d) = 48 + d"
  unfolding digitByte_def
  by (simp add: unat_of_nat take_bit_nat_eq_self del: of_nat_add)

lemma isDigit_iff: "isDigit b \<longleftrightarrow> 48 \<le> unat b \<and> unat b \<le> 57"
  by (simp add: isDigit_def word_le_nat_alt)

lemma isDigit_digitByte [simp]: "d < 10 \<Longrightarrow> isDigit (digitByte d)"
  by (simp add: isDigit_iff unat_digitByte)

lemma digitVal_digitByte [simp]: "d < 10 \<Longrightarrow> digitVal (digitByte d) = d"
  by (simp add: digitVal_def unat_digitByte)

lemma digitVal_less [simp]: "isDigit b \<Longrightarrow> digitVal b < 10"
  by (auto simp: isDigit_iff digitVal_def)

lemma digitByte_digitVal [simp]: "isDigit b \<Longrightarrow> digitByte (digitVal b) = b"
  by (auto simp: isDigit_iff digitVal_def digitByte_def)

lemma digitByte_eq_48_iff: "d < 10 \<Longrightarrow> digitByte d = 48 \<longleftrightarrow> d = 0"
  using unat_digitByte[of d] by (auto simp: digitByte_def)

section \<open>Results\<close>

text \<open>\<open>andThen m f\<close>: return the error of \<open>m\<close>, or go on with its value.\<close>

definition andThen :: "'e + 'a \<Rightarrow> ('a \<Rightarrow> 'e + 'b) \<Rightarrow> 'e + 'b" where
  "andThen m f = (case m of Inl e \<Rightarrow> Inl e | Inr x \<Rightarrow> f x)"

definition wrapErr :: "('e \<Rightarrow> 'f) \<Rightarrow> 'e + 'a \<Rightarrow> 'f + 'a" where
  "wrapErr w m = (case m of Inl e \<Rightarrow> Inl (w e) | Inr x \<Rightarrow> Inr x)"

text \<open>\<open>guardR c e\<close>: return the error \<open>e\<close> unless \<open>c\<close> holds.\<close>

definition guardR :: "bool \<Rightarrow> 'e \<Rightarrow> 'e + unit" where
  "guardR c e = (if c then Inr () else Inl e)"

lemma andThen_simps [simp]:
  "andThen (Inl e) f = Inl e"
  "andThen (Inr x) f = f x"
  by (simp_all add: andThen_def)

lemma wrapErr_simps [simp]:
  "wrapErr w (Inl e) = Inl (w e)"
  "wrapErr w (Inr x) = Inr x"
  by (simp_all add: wrapErr_def)

lemma andThen_Inr_iff [simp]: "andThen m f = Inr y \<longleftrightarrow> (\<exists>x. m = Inr x \<and> f x = Inr y)"
  by (cases m) auto

lemma wrapErr_Inr_iff [simp]: "wrapErr w m = Inr y \<longleftrightarrow> m = Inr y"
  by (cases m) auto

lemma guardR_Inr_iff [simp]: "guardR c e = Inr u \<longleftrightarrow> c"
  by (simp add: guardR_def)

lemma guardR_Inl_iff [simp]: "guardR c e = Inl e' \<longleftrightarrow> \<not> c \<and> e' = e"
  by (auto simp: guardR_def)

lemma andThen_guardR_True [simp]: "c \<Longrightarrow> andThen (guardR c e) f = f ()"
  by (simp add: guardR_def)

lemma andThen_guardR_False [simp]: "\<not> c \<Longrightarrow> andThen (guardR c e) f = Inl e"
  by (simp add: guardR_def)

text \<open>
  For evaluation by the simplifier: compute the result first, the continuation only once its argument is
  known.
\<close>

lemma andThen_weak_cong: "m = m' \<Longrightarrow> andThen m f = andThen m' f"
  by simp

lemma andThen_cong [fundef_cong]:
  "m = m' \<Longrightarrow> (\<And>x. m' = Inr x \<Longrightarrow> f x = f' x) \<Longrightarrow> andThen m f = andThen m' f'"
  by (cases m') auto

section \<open>Machine integers\<close>

definition MaxInt64 :: int where "MaxInt64 = 2 ^ 63 - 1"
definition MinInt64 :: int where "MinInt64 = - (2 ^ 63)"

text \<open>The two's complement wrap-around of a 64-bit Go integer.\<close>

definition i64 :: "int \<Rightarrow> int" where
  "i64 n = (n + 2 ^ 63) mod 2 ^ 64 - 2 ^ 63"

definition isInt64 :: "int \<Rightarrow> bool" where
  "isInt64 n \<longleftrightarrow> MinInt64 \<le> n \<and> n \<le> MaxInt64"

lemma i64_id: "isInt64 n \<Longrightarrow> i64 n = n"
  by (simp add: i64_def isInt64_def MinInt64_def MaxInt64_def)

lemma isInt64_i64: "isInt64 (i64 n)"
proof -
  have "0 \<le> (n + 2 ^ 63) mod 2 ^ 64" "(n + 2 ^ 63) mod 2 ^ 64 < (2 ^ 64 :: int)"
    by simp_all
  then show ?thesis by (simp add: i64_def isInt64_def MinInt64_def MaxInt64_def)
qed

lemma i64_nonneg_id: "0 \<le> n \<Longrightarrow> n \<le> MaxInt64 \<Longrightarrow> i64 n = n"
  by (rule i64_id) (simp add: isInt64_def MinInt64_def MaxInt64_def)

section \<open>Slices\<close>

text \<open>\<open>xs[i:j]\<close> of the source, where \<open>i \<le> j \<le> len(xs)\<close>.\<close>

definition sliceOf :: "'a list \<Rightarrow> nat \<Rightarrow> nat \<Rightarrow> 'a list" where
  "sliceOf xs i j = take (j - i) (drop i xs)"

lemma length_sliceOf: "j \<le> length xs \<Longrightarrow> length (sliceOf xs i j) = j - i"
  by (simp add: sliceOf_def)

lemma sliceOf_full [simp]: "sliceOf xs 0 (length xs) = xs"
  by (simp add: sliceOf_def)

lemma sliceOf_append3: "sliceOf (xs @ ys @ zs) (length xs) (length xs + length ys) = ys"
  by (simp add: sliceOf_def)

lemma sliceOf_prefix: "drop i xs = ys @ zs \<Longrightarrow> sliceOf xs i (i + length ys) = ys"
  by (simp add: sliceOf_def)

lemma drop_append_drop: "drop i xs = ys @ zs \<Longrightarrow> drop (i + length ys) xs = zs"
proof -
  assume h: "drop i xs = ys @ zs"
  have "drop (i + length ys) xs = drop (length ys) (drop i xs)"
    by (simp add: add.commute)
  with h show ?thesis by simp
qed

lemma drop_ConsD: "drop i xs = y # zs \<Longrightarrow> i < length xs \<and> xs ! i = y \<and> drop (Suc i) xs = zs"
  by (cases "i < length xs") (auto simp: Cons_nth_drop_Suc [symmetric])

lemma sliceOf_split:
  "i \<le> j \<Longrightarrow> j \<le> k \<Longrightarrow> sliceOf xs i k = sliceOf xs i j @ sliceOf xs j k"
proof -
  assume ij: "i \<le> j" and jk: "j \<le> k"
  have "sliceOf xs i k = take (j - i + (k - j)) (drop i xs)"
    using ij jk by (simp add: sliceOf_def)
  also have "\<dots> = sliceOf xs i j @ take (k - j) (drop (j - i) (drop i xs))"
    by (simp only: take_add sliceOf_def)
  also have "drop (j - i) (drop i xs) = drop j xs"
    using ij by simp
  finally show ?thesis by (simp add: sliceOf_def)
qed

lemma sliceOf_Cons: "i < j \<Longrightarrow> j \<le> length xs \<Longrightarrow> sliceOf xs i j = xs ! i # sliceOf xs (Suc i) j"
  by (simp add: sliceOf_def Cons_nth_drop_Suc [symmetric] take_Cons' Suc_diff_Suc)

lemma sliceOf_self [simp]: "sliceOf xs i i = []"
  by (simp add: sliceOf_def)

end
