(* ===== verification/Strconv.thy ===== *)
theory Strconv
  imports Prelude
begin

text \<open>
  The parts of Go's \<open>strconv\<close> that the program calls: \<open>ParseInt(s, 10, 64)\<close> and the decimal
  \<open>FormatInt\<close>, with the two round trips between them. \<open>decVal\<close> reads a digit string without
  bounds and is the specification that \<open>ParseInt\<close> is compared with.
\<close>

datatype numError = ErrSyntax | ErrRange

fun parseUint :: "nat \<Rightarrow> bytes \<Rightarrow> numError + nat" where
  "parseUint n [] = Inr n"
| "parseUint n (c # cs) =
     (if \<not> isDigit c then Inl ErrSyntax
      else if 2 ^ 64 \<le> 10 * n + digitVal c then Inl ErrRange
      else parseUint (10 * n + digitVal c) cs)"

definition ParseInt :: "bytes \<Rightarrow> numError + int" where
  "ParseInt s =
     (let neg = (s \<noteq> [] \<and> hd s = 45);
          digits = (if s \<noteq> [] \<and> (hd s = 43 \<or> hd s = 45) then tl s else s)
      in if digits = [] then Inl ErrSyntax
         else andThen (parseUint 0 digits)
           (\<lambda>un. if \<not> neg \<and> 2 ^ 63 \<le> un then Inl ErrRange
                 else if neg \<and> 2 ^ 63 < un then Inl ErrRange
                 else Inr (if neg then - int un else int un)))"

fun decDigits :: "nat \<Rightarrow> bytes" where
  "decDigits n =
     (if n < 10 then [digitByte n] else decDigits (n div 10) @ [digitByte (n mod 10)])"

declare decDigits.simps [simp del]

definition FormatInt :: "int \<Rightarrow> bytes" where
  "FormatInt n = (if n < 0 then 45 # decDigits (nat (- n)) else decDigits (nat n))"

section \<open>The value of a digit string\<close>

definition decVal :: "nat \<Rightarrow> bytes \<Rightarrow> nat" where
  "decVal n cs = foldl (\<lambda>m c. 10 * m + digitVal c) n cs"

lemma decVal_Nil [simp]: "decVal n [] = n"
  by (simp add: decVal_def)

lemma decVal_Cons [simp]: "decVal n (c # cs) = decVal (10 * n + digitVal c) cs"
  by (simp add: decVal_def)

lemma decVal_snoc [simp]: "decVal n (cs @ [c]) = 10 * decVal n cs + digitVal c"
  by (simp add: decVal_def)

lemma decVal_ge: "n \<le> decVal n cs"
proof (induction cs arbitrary: n)
  case (Cons c cs)
  have "n \<le> 10 * n + digitVal c" by simp
  also have "\<dots> \<le> decVal (10 * n + digitVal c) cs" by (rule Cons.IH)
  finally show ?case by simp
qed simp

lemma parseUint_decVal:
  "\<forall>c \<in> set cs. isDigit c \<Longrightarrow> decVal n cs < 2 ^ 64 \<Longrightarrow> parseUint n cs = Inr (decVal n cs)"
proof (induction cs arbitrary: n)
  case (Cons c cs)
  have "10 * n + digitVal c \<le> decVal (10 * n + digitVal c) cs" by (rule decVal_ge)
  also have "\<dots> < 2 ^ 64" using Cons.prems by simp
  finally have "10 * n + digitVal c < 2 ^ 64" .
  with Cons show ?case by simp
qed simp

lemma parseUint_Inr:
  "parseUint n cs = Inr m \<Longrightarrow> m = decVal n cs \<and> (\<forall>c \<in> set cs. isDigit c)"
  by (induction n cs rule: parseUint.induct) (auto split: if_splits)

section \<open>Canonical decimal strings\<close>

definition canonicalDigits :: "bytes \<Rightarrow> bool" where
  "canonicalDigits cs \<longleftrightarrow>
     cs \<noteq> [] \<and> (\<forall>c \<in> set cs. isDigit c) \<and> (1 < length cs \<longrightarrow> hd cs \<noteq> 48)"

lemma decVal_decDigits [simp]: "decVal 0 (decDigits n) = n"
proof (induction n rule: decDigits.induct)
  case (1 n)
  then show ?case by (cases "n < 10") (simp_all add: decDigits.simps [of n])
qed

lemma decDigits_isDigit: "\<forall>c \<in> set (decDigits n). isDigit c"
proof (induction n rule: decDigits.induct)
  case (1 n)
  then show ?case by (cases "n < 10") (simp_all add: decDigits.simps [of n])
qed

lemma decDigits_not_Nil [simp]: "decDigits n \<noteq> []"
  by (simp add: decDigits.simps [of n])

lemma hd_decDigits: "0 < n \<Longrightarrow> hd (decDigits n) \<noteq> 48"
proof (induction n rule: decDigits.induct)
  case (1 n)
  then show ?case
    by (cases "n < 10") (auto simp: decDigits.simps [of n] digitByte_eq_48_iff hd_append)
qed

lemma canonicalDigits_decDigits: "canonicalDigits (decDigits n)"
proof (cases "n = 0")
  case True
  then show ?thesis
    by (simp add: canonicalDigits_def decDigits.simps [of 0])
next
  case False
  then show ?thesis
    by (simp add: canonicalDigits_def decDigits_isDigit hd_decDigits)
qed

lemma decVal_pos:
  assumes "\<forall>c \<in> set cs. isDigit c" "cs \<noteq> []" "hd cs \<noteq> 48"
  shows "0 < decVal 0 cs"
proof -
  obtain c ds where cs: "cs = c # ds" using assms(2) by (cases cs) auto
  with assms(1,3) have "isDigit c" "c \<noteq> 48" by simp_all
  then have "digitVal c \<noteq> 0"
    using digitByte_digitVal[of c] by (metis add_0_right digitByte_def of_nat_numeral)
  with decVal_ge[of "digitVal c" ds] cs show ?thesis by simp
qed

lemma decDigits_decVal: "canonicalDigits cs \<Longrightarrow> decDigits (decVal 0 cs) = cs"
proof (induction cs rule: rev_induct)
  case Nil
  then show ?case by (simp add: canonicalDigits_def)
next
  case (snoc c ds)
  then have c: "isDigit c" by (simp add: canonicalDigits_def)
  show ?case
  proof (cases "ds = []")
    case True
    with c show ?thesis by (simp add: decDigits.simps [of "digitVal c"])
  next
    case False
    with snoc.prems have can: "canonicalDigits ds" and hd: "hd ds \<noteq> 48"
      by (auto simp: canonicalDigits_def hd_append)
    then have pos: "0 < decVal 0 ds"
      by (auto simp: canonicalDigits_def intro: decVal_pos)
    let ?n = "10 * decVal 0 ds + digitVal c"
    have "\<not> ?n < 10" "?n div 10 = decVal 0 ds" "?n mod 10 = digitVal c"
      using pos digitVal_less[OF c] by simp_all
    with snoc.IH[OF can] c show ?thesis
      by (simp add: decDigits.simps [of ?n])
  qed
qed

section \<open>\<open>ParseInt\<close> inverts \<open>FormatInt\<close>\<close>

lemma isDigit_hd_decDigits [simp]: "isDigit (hd (decDigits n))"
  using decDigits_isDigit[of n] by simp

lemma isDigit_neq: "isDigit b \<Longrightarrow> b \<noteq> 43 \<and> b \<noteq> 45 \<and> b \<noteq> 58 \<and> b \<noteq> 100 \<and> b \<noteq> 101 \<and> b \<noteq> 105 \<and> b \<noteq> 108"
  by (auto simp: isDigit_def)

lemma decDigits_hd_not_sign: "hd (decDigits n) \<noteq> 43 \<and> hd (decDigits n) \<noteq> 45"
  using isDigit_neq [OF isDigit_hd_decDigits [of n]] by simp

lemma ParseInt_FormatInt:
  assumes "isInt64 n"
  shows "ParseInt (FormatInt n) = Inr n"
proof -
  have b: "- (2 ^ 63) \<le> n" "n < 2 ^ 63"
    using assms by (simp_all add: isInt64_def MinInt64_def MaxInt64_def)
  then have "parseUint 0 (decDigits (nat n)) = Inr (nat n)"
    and "parseUint 0 (decDigits (nat (- n))) = Inr (nat (- n))"
    by (subst parseUint_decVal; simp add: decDigits_isDigit)+
  with b show ?thesis
    using decDigits_hd_not_sign[of "nat n"]
    by (auto simp: ParseInt_def FormatInt_def Let_def)
qed

text \<open>
  The strings the parser hands to \<open>ParseInt\<close> are canonical (no leading zero, no \<open>-0\<close>); on them
  \<open>FormatInt\<close> gives back the string that was parsed.
\<close>

definition canonicalInt :: "bytes \<Rightarrow> bool" where
  "canonicalInt s \<longleftrightarrow>
     (if s \<noteq> [] \<and> hd s = 45 then canonicalDigits (tl s) \<and> hd (tl s) \<noteq> 48 else canonicalDigits s)"

lemma canonicalInt_FormatInt: "canonicalInt (FormatInt n)"
proof (cases "n < 0")
  case True
  then show ?thesis
    by (simp add: canonicalInt_def FormatInt_def canonicalDigits_decDigits hd_decDigits)
next
  case False
  then show ?thesis
    using decDigits_hd_not_sign[of "nat n"]
    by (simp add: canonicalInt_def FormatInt_def canonicalDigits_decDigits)
qed

lemma FormatInt_ParseInt:
  assumes "canonicalInt s" "ParseInt s = Inr n"
  shows "FormatInt n = s"
proof (cases "s \<noteq> [] \<and> hd s = 45")
  case True
  then obtain ds where s: "s = 45 # ds" by (cases s) auto
  with assms(1) have can: "canonicalDigits ds" "hd ds \<noteq> 48" by (simp_all add: canonicalInt_def)
  with assms(2) s have n: "n = - int (decVal 0 ds)"
    by (auto simp: ParseInt_def Let_def dest!: parseUint_Inr split: if_splits)
  have "0 < decVal 0 ds" using can by (auto simp: canonicalDigits_def intro: decVal_pos)
  with n s can(1) show ?thesis by (simp add: FormatInt_def decDigits_decVal)
next
  case False
  with assms(1) have can: "canonicalDigits s" by (simp add: canonicalInt_def)
  then have "isDigit (hd s)" "s \<noteq> []" by (auto simp: canonicalDigits_def)
  then have "hd s \<noteq> 43" "hd s \<noteq> 45" by (auto simp: isDigit_def)
  with assms(2) \<open>s \<noteq> []\<close> have "n = int (decVal 0 s)"
    by (auto simp: ParseInt_def Let_def dest!: parseUint_Inr split: if_splits)
  with can show ?thesis by (simp add: FormatInt_def decDigits_decVal)
qed

lemma ParseInt_isInt64: "ParseInt s = Inr n \<Longrightarrow> isInt64 n"
  by (auto simp: ParseInt_def Let_def isInt64_def MinInt64_def MaxInt64_def split: if_splits)

lemma ParseInt_digits_nonneg: "\<forall>c \<in> set s. isDigit c \<Longrightarrow> ParseInt s = Inr n \<Longrightarrow> 0 \<le> n"
  by (cases s) (auto simp: ParseInt_def Let_def isDigit_def split: if_splits)

end
