(* ===== verification/Binary.thy ===== *)
theory Binary
  imports Prelude
begin

text \<open>
  \<open>binary.BigEndian\<close> of \<open>encoding/binary\<close>: \<open>PutUint16\<close>, \<open>PutUint32\<close> and \<open>PutUint64\<close> give the bytes
  they store, \<open>Uint16\<close>, \<open>Uint32\<close> and \<open>Uint64\<close> read the first 2, 4 or 8 bytes of a slice (the
  program always hands them a slice that is long enough). The lemmas are the round trips, in the
  collection \<open>be_simps\<close>, and the injectivity of the encodings.
\<close>

named_theorems be_simps

definition PutUint16 :: "16 word \<Rightarrow> bytes" where
  "PutUint16 w = [ucast (drop_bit 8 w), ucast w]"

definition PutUint32 :: "32 word \<Rightarrow> bytes" where
  "PutUint32 w = [ucast (drop_bit 24 w), ucast (drop_bit 16 w), ucast (drop_bit 8 w), ucast w]"

definition PutUint64 :: "64 word \<Rightarrow> bytes" where
  "PutUint64 w =
     [ucast (drop_bit 56 w), ucast (drop_bit 48 w), ucast (drop_bit 40 w), ucast (drop_bit 32 w),
      ucast (drop_bit 24 w), ucast (drop_bit 16 w), ucast (drop_bit 8 w), ucast w]"

definition Uint16 :: "bytes \<Rightarrow> 16 word" where
  "Uint16 b = push_bit 8 (ucast (b ! 0)) OR ucast (b ! 1)"

definition Uint32 :: "bytes \<Rightarrow> 32 word" where
  "Uint32 b = push_bit 24 (ucast (b ! 0)) OR push_bit 16 (ucast (b ! 1)) OR
     push_bit 8 (ucast (b ! 2)) OR ucast (b ! 3)"

definition Uint64 :: "bytes \<Rightarrow> 64 word" where
  "Uint64 b = push_bit 56 (ucast (b ! 0)) OR push_bit 48 (ucast (b ! 1)) OR
     push_bit 40 (ucast (b ! 2)) OR push_bit 32 (ucast (b ! 3)) OR
     push_bit 24 (ucast (b ! 4)) OR push_bit 16 (ucast (b ! 5)) OR
     push_bit 8 (ucast (b ! 6)) OR ucast (b ! 7)"

lemma length_PutUint [be_simps, simp]:
  "length (PutUint16 v) = 2" "length (PutUint32 w) = 4" "length (PutUint64 x) = 8"
  by (simp_all add: PutUint16_def PutUint32_def PutUint64_def)

lemma Uint16_PutUint16 [be_simps]: "Uint16 (PutUint16 w @ xs) = w"
proof (rule bit_word_eqI)
  fix n assume "n < LENGTH(16)"
  then consider "n < 8" | "8 \<le> n" "n < 16" by fastforce
  then show "bit (Uint16 (PutUint16 w @ xs)) n = bit w n"
    by cases (simp_all add: Uint16_def PutUint16_def bit_simps less_diff_conv2)
qed

lemma Uint32_PutUint32 [be_simps]: "Uint32 (PutUint32 w @ xs) = w"
proof (rule bit_word_eqI)
  fix n assume "n < LENGTH(32)"
  then consider "n < 8" | "8 \<le> n" "n < 16" | "16 \<le> n" "n < 24" | "24 \<le> n" "n < 32"
    by fastforce
  then show "bit (Uint32 (PutUint32 w @ xs)) n = bit w n"
    by cases (simp_all add: Uint32_def PutUint32_def bit_simps less_diff_conv2)
qed

lemma Uint64_PutUint64 [be_simps]: "Uint64 (PutUint64 w @ xs) = w"
proof (rule bit_word_eqI)
  fix n assume "n < LENGTH(64)"
  then consider "n < 8" | "8 \<le> n" "n < 16" | "16 \<le> n" "n < 24" | "24 \<le> n" "n < 32"
    | "32 \<le> n" "n < 40" | "40 \<le> n" "n < 48" | "48 \<le> n" "n < 56" | "56 \<le> n" "n < 64"
    by fastforce
  then show "bit (Uint64 (PutUint64 w @ xs)) n = bit w n"
    by cases (simp_all add: Uint64_def PutUint64_def bit_simps less_diff_conv2)
qed

lemmas Uint_PutUint [be_simps] =
  Uint16_PutUint16 [where xs = "[]", simplified]
  Uint32_PutUint32 [where xs = "[]", simplified]
  Uint64_PutUint64 [where xs = "[]", simplified]

lemma PutUint16_Uint16: "length b = 2 \<Longrightarrow> PutUint16 (Uint16 b) = b"
proof -
  assume "length b = 2"
  then obtain x y where b: "b = [x, y]"
    by (metis (no_types) One_nat_def Suc_1 length_0_conv length_Suc_conv)
  have "ucast (drop_bit 8 (push_bit 8 (ucast x) OR ucast y :: 16 word)) = x"
    "ucast (push_bit 8 (ucast x) OR ucast y :: 16 word) = y"
    by (rule bit_word_eqI; auto simp: bit_simps dest: bit_imp_le_length)+
  then show ?thesis by (simp add: b Uint16_def PutUint16_def)
qed

lemma PutUint32_Uint32: "length b = 4 \<Longrightarrow> PutUint32 (Uint32 b) = b"
proof -
  assume "length b = 4"
  then obtain x y z u where b: "b = [x, y, z, u]"
    by (auto simp: numeral_eq_Suc length_Suc_conv)
  let ?w = "push_bit 24 (ucast x) OR push_bit 16 (ucast y) OR push_bit 8 (ucast z) OR ucast u :: 32 word"
  have "ucast (drop_bit 24 ?w) = x" "ucast (drop_bit 16 ?w) = y"
    "ucast (drop_bit 8 ?w) = z" "ucast ?w = u"
    by (rule bit_word_eqI; auto simp: bit_simps dest: bit_imp_le_length)+
  then show ?thesis by (simp add: b Uint32_def PutUint32_def)
qed

lemma inj_PutUint: "inj PutUint16" "inj PutUint32" "inj PutUint64"
  by (rule injI, metis Uint_PutUint)+

end
