(* ===== verification/Sha1.thy ===== *)
theory Sha1
  imports Binary
begin

text \<open>
  \<open>crypto/sha1\<close> of the Go library: the function \<open>sha1.Sum\<close> that the program uses to identify a
  torrent and to check every piece, written after FIPS 180-4. The proofs of the development rest only
  on its being a function with a digest of 20 bytes.
\<close>

fun sha1_words :: "bytes \<Rightarrow> 32 word list" where
  "sha1_words (a # b # c # d # xs) = Uint32 [a, b, c, d] # sha1_words xs"
| "sha1_words _ = []"

text \<open>The message schedule, newest word first.\<close>

fun sha1_expand :: "nat \<Rightarrow> 32 word list \<Rightarrow> 32 word list" where
  "sha1_expand 0 r = r"
| "sha1_expand (Suc n) r =
     sha1_expand n (word_rotl 1 (r ! 2 XOR r ! 7 XOR r ! 13 XOR r ! 15) # r)"

definition sha1_f :: "nat \<Rightarrow> 32 word \<Rightarrow> 32 word \<Rightarrow> 32 word \<Rightarrow> 32 word" where
  "sha1_f t b c d =
     (if t < 20 then (b AND c) OR (NOT b AND d)
      else if t < 40 then b XOR c XOR d
      else if t < 60 then (b AND c) OR (b AND d) OR (c AND d)
      else b XOR c XOR d)"

definition sha1_k :: "nat \<Rightarrow> 32 word" where
  "sha1_k t =
     (if t < 20 then 0x5A827999 else if t < 40 then 0x6ED9EBA1
      else if t < 60 then 0x8F1BBCDC else 0xCA62C1D6)"

type_synonym sha1_state = "32 word \<times> 32 word \<times> 32 word \<times> 32 word \<times> 32 word"

fun sha1_rounds :: "nat \<Rightarrow> 32 word list \<Rightarrow> sha1_state \<Rightarrow> sha1_state" where
  "sha1_rounds t [] s = s"
| "sha1_rounds t (w # ws) (a, b, c, d, e) =
     (let tmp = word_rotl 5 a + sha1_f t b c d + e + w + sha1_k t
      in sha1_rounds (Suc t) ws (tmp, a, word_rotl 30 b, c, d))"

fun sha1_block :: "sha1_state \<Rightarrow> bytes \<Rightarrow> sha1_state" where
  "sha1_block (a, b, c, d, e) blk =
     (case sha1_rounds 0 (rev (sha1_expand 64 (rev (sha1_words blk)))) (a, b, c, d, e) of
        (a', b', c', d', e') \<Rightarrow> (a + a', b + b', c + c', d + d', e + e'))"

definition sha1_init :: sha1_state where
  "sha1_init = (0x67452301, 0xEFCDAB89, 0x98BADCFE, 0x10325476, 0xC3D2E1F0)"

fun sha1_blocks :: "nat \<Rightarrow> bytes \<Rightarrow> sha1_state \<Rightarrow> sha1_state" where
  "sha1_blocks 0 xs s = s"
| "sha1_blocks (Suc n) xs s = sha1_blocks n (drop 64 xs) (sha1_block s (take 64 xs))"

definition sha1_pad :: "bytes \<Rightarrow> bytes" where
  "sha1_pad xs =
     xs @ 0x80 # replicate ((119 - length xs mod 64) mod 64) 0 @
     PutUint64 (of_nat (8 * length xs))"

definition sha1 :: "bytes \<Rightarrow> bytes" where
  "sha1 xs =
     (let p = sha1_pad xs
      in case sha1_blocks (length p div 64) p sha1_init of
        (a, b, c, d, e) \<Rightarrow>
          PutUint32 a @ PutUint32 b @ PutUint32 c @ PutUint32 d @ PutUint32 e)"

text \<open>The padded message is a whole number of 64-byte blocks.\<close>

lemma length_sha1_pad: "64 dvd length (sha1_pad xs)"
proof -
  have "length (sha1_pad xs) = length xs + 9 + (119 - length xs mod 64) mod 64"
    by (simp add: sha1_pad_def)
  moreover have "64 dvd n + 9 + (119 - n mod 64) mod 64" for n :: nat
  proof -
    have "n = 64 * (n div 64) + n mod 64" "n mod 64 < 64" by simp_all
    then obtain q r where n: "n = 64 * q + r" "r < 64" by blast
    show ?thesis
    proof (cases "r \<le> 55")
      case True
      then have "(119 - r) mod 64 = 55 - r" by (simp add: mod_if)
      with True n have "n + 9 + (119 - n mod 64) mod 64 = 64 * (q + 1)" by simp
      then show ?thesis by (metis dvd_triv_left)
    next
      case False
      then have "(119 - r) mod 64 = 119 - r" by simp
      with False n have "n + 9 + (119 - n mod 64) mod 64 = 64 * (q + 2)" by simp
      then show ?thesis by (metis dvd_triv_left)
    qed
  qed
  ultimately show ?thesis by simp
qed

lemma length_sha1 [simp]: "length (sha1 xs) = 20"
  by (simp add: sha1_def Let_def split: prod.splits)

end
