(* ===== verification/Bencode.thy ===== *)
theory Bencode
  imports Strconv Sha1 "HOL-Library.AList"
begin

text \<open>
  \<open>internal/bencode/parser.go\<close>: the parser of metainfo files and tracker responses.

  A \<open>bvalue\<close> is the source's \<open>BValue\<close> (its \<open>Value any\<close> is one of the four kinds \<open>BString\<close>,
  \<open>BInt\<close>, \<open>BList\<close>, \<open>BDict\<close>; \<open>Start\<close> and \<open>End\<close> delimit its encoding in the input). A \<open>BDict\<close> is a Go
  map: an association list with distinct keys, written with \<open>AList.update\<close> and read with \<open>map_of\<close>.
  The \<open>Parser\<close> is a record; each parse function takes it and returns it with the index advanced, or
  returns the error. The two loops \<open>parseListLoop\<close> and \<open>parseDictLoop\<close> are the \<open>for\<close> loops of
  \<open>parseList\<close> and \<open>parseDictionary\<close>. Termination rests on the fact that a value that was parsed has
  advanced the index (\<open>parseValue_progress\<close>), proved on the domain of the functions first.
\<close>

section \<open>Values, errors and the parser state\<close>

datatype bvalue = BValue (Value: bval) (Start: int) (End: int)
  and bval = BString bytes | BInt int | BList "bvalue list" | BDict "(bytes \<times> bvalue) list"

datatype bencodeError =
    TrailingData nat
  | MaxDepthExceeded int
  | UnexpectedEnd
  | InvalidToken byte nat
  | UnterminatedInteger
  | EmptyInteger
  | OnlyASign
  | NegativeZeroOrLeadingZero
  | IntegerLeadingZero
  | IntegerNonDigit
  | InvalidInteger numError
  | InvalidStringLength nat
  | UnterminatedStringLength
  | EmptyStringLength
  | StringLengthLeadingZero
  | InvalidStringLengthNumber numError
  | StringExceedsLimit int int
  | StringExceedsInput
  | UnterminatedList
  | UnterminatedDictionary
  | KeyNotAString nat
  | KeysNotStrictlySorted
  | RootIsNil
  | RootNotADictionary
  | MissingInfo
  | InfoRangeOutside
  | ValueIsNotAString
  | ValueIsNotBytes
  | ValueIsNotAnInteger
  | ValueIsNotADictionary
  | ValueIsNotAList

record Parser =
  pdata :: bytes
  pindex :: nat
  maxStringLength :: int
  maxDepth :: int

definition DefaultMaxStringLength :: int where "DefaultMaxStringLength = 64 * 2 ^ 20"
definition DefaultMaxDepth :: int where "DefaultMaxDepth = 512"

definition NewParser :: "bytes \<Rightarrow> Parser" where
  "NewParser data =
     \<lparr>pdata = data, pindex = 0,
      maxStringLength = DefaultMaxStringLength, maxDepth = DefaultMaxDepth\<rparr>"

definition SetLimits :: "Parser \<Rightarrow> int \<Rightarrow> int \<Rightarrow> Parser" where
  "SetLimits p maxStr maxDep =
     (let p1 = (if 0 < maxStr then p\<lparr>maxStringLength := maxStr\<rparr> else p)
      in if 0 < maxDep then p1\<lparr>maxDepth := maxDep\<rparr> else p1)"

section \<open>Integers and strings\<close>

function scanInteger :: "bytes \<Rightarrow> nat \<Rightarrow> nat" where
  "scanInteger d i = (if i < length d \<and> d ! i \<noteq> 101 then scanInteger d (Suc i) else i)"
  by pat_completeness auto
termination by (relation "measure (\<lambda>(d, i). length d - i)") auto

declare scanInteger.simps [simp del]

definition parseInteger :: "Parser \<Rightarrow> bencodeError + (int \<times> Parser)" where
  "parseInteger p =
     (let start = pindex p + 1;
          stop = scanInteger (pdata p) start
      in if length (pdata p) \<le> stop then Inl UnterminatedInteger
         else
           (let number = sliceOf (pdata p) start stop;
                p' = p\<lparr>pindex := stop + 1\<rparr>
            in if number = [] then Inl EmptyInteger
               else andThen
                 (if hd number = 45
                  then if length number = 1 then Inl OnlyASign
                       else if number ! 1 = 48 then Inl NegativeZeroOrLeadingZero
                       else Inr (tl number)
                  else if 1 < length number \<and> hd number = 48 then Inl IntegerLeadingZero
                  else Inr number)
                 (\<lambda>digits.
                    if \<not> list_all isDigit digits then Inl IntegerNonDigit
                    else andThen (wrapErr InvalidInteger (ParseInt number))
                      (\<lambda>value. Inr (value, p')))))"

function scanLength :: "bytes \<Rightarrow> nat \<Rightarrow> bencodeError + nat" where
  "scanLength d i =
     (if i < length d \<and> d ! i \<noteq> 58
      then if \<not> isDigit (d ! i) then Inl (InvalidStringLength i) else scanLength d (Suc i)
      else Inr i)"
  by pat_completeness auto
termination by (relation "measure (\<lambda>(d, i). length d - i)") auto

declare scanLength.simps [simp del]

definition parseString :: "Parser \<Rightarrow> bencodeError + (bytes \<times> Parser)" where
  "parseString p =
     (let data = pdata p; start = pindex p
      in andThen (scanLength data start) (\<lambda>i.
         if length data \<le> i then Inl UnterminatedStringLength
         else if i = start then Inl EmptyStringLength
         else if 1 < i - start \<and> data ! start = 48 then Inl StringLengthLeadingZero
         else andThen (wrapErr InvalidStringLengthNumber (ParseInt (sliceOf data start i)))
           (\<lambda>length64.
              if maxStringLength p < length64
              then Inl (StringExceedsLimit length64 (maxStringLength p))
              else if int (length data) - int (i + 1) < length64 then Inl StringExceedsInput
              else (let stop = i + 1 + nat length64
                    in Inr (sliceOf data (i + 1) stop, p\<lparr>pindex := stop\<rparr>)))))"

section \<open>Values, lists and dictionaries\<close>

text \<open>
  \<open>previous\<close> of \<open>parseDictionary\<close> is a byte slice that starts out nil; \<open>append(previous[:0], key...)\<close>
  of a nil slice and an empty key is still nil.
\<close>

definition setPrevious :: "bytes option \<Rightarrow> bytes \<Rightarrow> bytes option" where
  "setPrevious prev key = (if prev = None \<and> key = [] then None else Some key)"

definition notSorted :: "bytes option \<Rightarrow> bytes \<Rightarrow> bool" where
  "notSorted prev key = (case prev of None \<Rightarrow> False | Some k \<Rightarrow> key \<le> k)"

function parseValue :: "Parser \<Rightarrow> int \<Rightarrow> bencodeError + (bvalue \<times> Parser)"
  and parseListLoop :: "Parser \<Rightarrow> int \<Rightarrow> bvalue list \<Rightarrow> bencodeError + (bvalue list \<times> Parser)"
  and parseDictLoop :: "Parser \<Rightarrow> int \<Rightarrow> bytes option \<Rightarrow> (bytes \<times> bvalue) list \<Rightarrow>
        bencodeError + ((bytes \<times> bvalue) list \<times> Parser)" where
  "parseValue p depth =
     (if maxDepth p < depth then Inl (MaxDepthExceeded (maxDepth p))
      else if length (pdata p) \<le> pindex p then Inl UnexpectedEnd
      else
        (let start = pindex p; current = pdata p ! pindex p
         in andThen
              (if current = 105 then
                 andThen (parseInteger p) (\<lambda>(n, p'). Inr (BInt n, p'))
               else if current = 108 then
                 andThen (parseListLoop (p\<lparr>pindex := pindex p + 1\<rparr>) (depth + 1) [])
                   (\<lambda>(vs, p'). Inr (BList vs, p'))
               else if current = 100 then
                 andThen (parseDictLoop (p\<lparr>pindex := pindex p + 1\<rparr>) (depth + 1) None [])
                   (\<lambda>(kvs, p'). Inr (BDict kvs, p'))
               else if isDigit current then
                 andThen (parseString p) (\<lambda>(s, p'). Inr (BString s, p'))
               else Inl (InvalidToken current (pindex p)))
              (\<lambda>(v, p'). Inr (BValue v (int start) (int (pindex p')), p'))))"
| "parseListLoop p depth acc =
     (if length (pdata p) \<le> pindex p then Inl UnterminatedList
      else if pdata p ! pindex p = 101 then Inr (acc, p\<lparr>pindex := pindex p + 1\<rparr>)
      else andThen (parseValue p depth)
        (\<lambda>(v, p'). parseListLoop p' depth (acc @ [v])))"
| "parseDictLoop p depth prev acc =
     (if length (pdata p) \<le> pindex p then Inl UnterminatedDictionary
      else if pdata p ! pindex p = 101 then Inr (acc, p\<lparr>pindex := pindex p + 1\<rparr>)
      else if \<not> isDigit (pdata p ! pindex p) then Inl (KeyNotAString (pindex p))
      else case parseString p of
        Inl e \<Rightarrow> Inl e
      | Inr (key, p1) \<Rightarrow>
          if notSorted prev key then Inl KeysNotStrictlySorted
          else andThen (parseValue p1 depth)
            (\<lambda>(v, p2). parseDictLoop p2 depth (setPrevious prev key) (AList.update key v acc)))"
  by pat_completeness auto

lemma scanInteger_ge: "i \<le> scanInteger d i"
proof (induction d i rule: scanInteger.induct)
  case (1 d i)
  then show ?case by (auto simp: scanInteger.simps [of d i])
qed

lemma scanLength_ge: "scanLength d i = Inr j \<Longrightarrow> i \<le> j"
proof (induction d i rule: scanLength.induct)
  case (1 d i)
  then show ?case by (auto simp: scanLength.simps [of d i] split: if_splits)
qed

text \<open>
  What every parse function does to the parser: it keeps the input and the limits and leaves the index
  strictly further, inside the input.
\<close>

definition advances :: "Parser \<Rightarrow> Parser \<Rightarrow> bool" where
  "advances p p' \<longleftrightarrow>
     pdata p' = pdata p \<and> maxStringLength p' = maxStringLength p \<and> maxDepth p' = maxDepth p \<and>
     pindex p < pindex p' \<and> pindex p' \<le> length (pdata p)"

lemma advances_trans [trans]: "advances p q \<Longrightarrow> advances q r \<Longrightarrow> advances p r"
  by (auto simp: advances_def)

lemma advances_step: "pindex p < length (pdata p) \<Longrightarrow> advances p (p\<lparr>pindex := pindex p + 1\<rparr>)"
  by (simp add: advances_def)

lemma advances_from_step: "advances (p\<lparr>pindex := pindex p + 1\<rparr>) q \<Longrightarrow> advances p q"
  by (auto simp: advances_def)

lemma parseInteger_advances: "parseInteger p = Inr (n, p') \<Longrightarrow> advances p p'"
  using scanInteger_ge[of "pindex p + 1" "pdata p"]
  by (auto simp: parseInteger_def advances_def Let_def split: if_splits)

lemma parseString_advances: "parseString p = Inr (s, p') \<Longrightarrow> advances p p'"
  by (auto simp: parseString_def advances_def Let_def dest!: scanLength_ge split: if_splits)

lemma parse_dom_advances:
  "parseValue_parseListLoop_parseDictLoop_dom (Inl (p, depth)) \<Longrightarrow>
     parseValue p depth = Inr (v, p') \<Longrightarrow> advances p p'"
  "parseValue_parseListLoop_parseDictLoop_dom (Inr (Inl (p, depth, acc))) \<Longrightarrow>
     parseListLoop p depth acc = Inr (vs, p') \<Longrightarrow> advances p p'"
  "parseValue_parseListLoop_parseDictLoop_dom (Inr (Inr (p, depth, prev, kvs))) \<Longrightarrow>
     parseDictLoop p depth prev kvs = Inr (kvs', p') \<Longrightarrow> advances p p'"
proof (induction arbitrary: v p' and vs p' and kvs' p'
    rule: parseValue_parseListLoop_parseDictLoop.pinduct)
  case (1 p depth)
  have ne: "\<not> maxDepth p < depth" "\<not> length (pdata p) \<le> pindex p"
    using "1.prems" by (auto simp: parseValue.psimps [OF "1.hyps"] split: if_splits)
  have list: "advances p p'" if "parseListLoop (p\<lparr>pindex := pindex p + 1\<rparr>) (depth + 1) [] = Inr (vs, p')"
    "pdata p ! pindex p = 108" for vs
    using "1.IH"(1)[OF ne refl refl _ _ that(1)] that(2) by (simp add: advances_from_step)
  have dict: "advances p p'" if "parseDictLoop (p\<lparr>pindex := pindex p + 1\<rparr>) (depth + 1) None [] = Inr (kvs, p')"
    "pdata p ! pindex p = 100" for kvs
    using "1.IH"(2)[OF ne refl refl _ _ _ that(1)] that(2) by (simp add: advances_from_step)
  show ?case
    using "1.prems" ne list dict
    by (auto simp: parseValue.psimps [OF "1.hyps"] Let_def split: if_splits
        dest: parseInteger_advances parseString_advances)
next
  case (2 p depth acc)
  have ne: "\<not> length (pdata p) \<le> pindex p"
    using "2.prems" by (auto simp: parseListLoop.psimps [OF "2.hyps"] split: if_splits)
  show ?case
  proof (cases "pdata p ! pindex p = 101")
    case True
    with "2.prems" ne show ?thesis
      by (auto simp: parseListLoop.psimps [OF "2.hyps"] intro!: advances_step [simplified])
  next
    case False
    with "2.prems" ne obtain v q where q: "parseValue p depth = Inr (v, q)"
      and l: "parseListLoop q depth (acc @ [v]) = Inr (vs, p')"
      by (auto simp: parseListLoop.psimps [OF "2.hyps"])
    from "2.IH"(1)[OF ne False q] "2.IH"(2)[OF ne False q refl l] show ?thesis
      by (rule advances_trans)
  qed
next
  case (3 p depth prev kvs)
  have ne: "\<not> length (pdata p) \<le> pindex p"
    using "3.prems" by (auto simp: parseDictLoop.psimps [OF "3.hyps"] split: if_splits)
  show ?case
  proof (cases "pdata p ! pindex p = 101")
    case True
    with "3.prems" ne show ?thesis
      by (auto simp: parseDictLoop.psimps [OF "3.hyps"] intro!: advances_step [simplified])
  next
    case False
    with "3.prems" ne obtain key p1 v p2 where d: "\<not> \<not> isDigit (pdata p ! pindex p)"
      and k: "parseString p = Inr (key, p1)" and s: "\<not> notSorted prev key"
      and v: "parseValue p1 depth = Inr (v, p2)"
      and l: "parseDictLoop p2 depth (setPrevious prev key) (AList.update key v kvs) = Inr (kvs', p')"
      by (auto simp: parseDictLoop.psimps [OF "3.hyps"] split: if_splits sum.splits)
    from parseString_advances[OF k] "3.IH"(1)[OF ne False d k refl s v]
    have "advances p p2" by (rule advances_trans)
    also from "3.IH"(2)[OF ne False d k refl s v refl l] have "advances p2 p'" .
    finally show ?thesis .
  qed
qed

lemma parse_all_dom: "All parseValue_parseListLoop_parseDictLoop_dom"
proof (relation "measure (case_sum (\<lambda>(p, d). 2 * (length (pdata p) - pindex p))
    (case_sum (\<lambda>(p, d, acc). 2 * (length (pdata p) - pindex p) + 1)
              (\<lambda>(p, d, prev, acc). 2 * (length (pdata p) - pindex p) + 1)))",
    goal_cases)
  case 1
  show ?case by simp
next
  case 2
  then show ?case by simp
next
  case 3
  then show ?case by simp
next
  case 4
  then show ?case by simp
next
  case 5
  then show ?case by (auto dest!: parse_dom_advances(1) simp: advances_def)
next
  case 6
  then show ?case by (auto dest!: parseString_advances simp: advances_def)
next
  case 7
  then show ?case
    by (auto dest!: parse_dom_advances(1) parseString_advances simp: advances_def)
qed

termination parseValue
  by (rule parse_all_dom)

declare parseValue.simps [simp del] parseListLoop.simps [simp del] parseDictLoop.simps [simp del]

lemmas parse_induct = parseValue_parseListLoop_parseDictLoop.induct

lemma parse_advances:
  "parseValue p depth = Inr (v, p') \<Longrightarrow> advances p p'"
  "parseListLoop p depth acc = Inr (vs, p') \<Longrightarrow> advances p p'"
  "parseDictLoop p depth prev kvs = Inr (kvs', p') \<Longrightarrow> advances p p'"
  using parse_dom_advances parse_all_dom by blast+

text \<open>\<open>Parse\<close> returns the value; the parser itself is left with its index at the end of the input.\<close>

definition Parse :: "Parser \<Rightarrow> bencodeError + (bvalue \<times> Parser)" where
  "Parse p =
     andThen (parseValue p 0) (\<lambda>(value, p').
       if pindex p' \<noteq> length (pdata p') then Inl (TrailingData (pindex p'))
       else Inr (value, p'))"

section \<open>Reading values\<close>

text \<open>A lookup in a \<open>BDict\<close>: \<open>value, ok := dict[key]\<close>.\<close>

type_synonym bdict = "(bytes \<times> bvalue) list"

definition dictGet :: "bdict \<Rightarrow> bytes \<Rightarrow> bvalue option" where
  "dictGet d k = map_of d k"

fun AsString :: "bvalue \<Rightarrow> bencodeError + bytes" where
  "AsString (BValue (BString s) _ _) = Inr s"
| "AsString _ = Inl ValueIsNotAString"

fun AsBytes :: "bvalue \<Rightarrow> bencodeError + bytes" where
  "AsBytes (BValue (BString s) _ _) = Inr s"
| "AsBytes _ = Inl ValueIsNotBytes"

fun AsInt64 :: "bvalue \<Rightarrow> bencodeError + int" where
  "AsInt64 (BValue (BInt n) _ _) = Inr n"
| "AsInt64 _ = Inl ValueIsNotAnInteger"

text \<open>\<open>AsInt\<close> on a 64-bit platform, where \<open>strconv.IntSize\<close> is 64 and \<open>int\<close> is \<open>int64\<close>.\<close>

definition AsInt :: "bvalue \<Rightarrow> bencodeError + int" where
  "AsInt v = AsInt64 v"

fun AsDict :: "bvalue \<Rightarrow> bencodeError + bdict" where
  "AsDict (BValue (BDict d) _ _) = Inr d"
| "AsDict _ = Inl ValueIsNotADictionary"

fun AsList :: "bvalue \<Rightarrow> bencodeError + bvalue list" where
  "AsList (BValue (BList vs) _ _) = Inr vs"
| "AsList _ = Inl ValueIsNotAList"

lemma As_Inr_iff [simp]:
  "AsString v = Inr s \<longleftrightarrow> Value v = BString s"
  "AsBytes v = Inr s \<longleftrightarrow> Value v = BString s"
  "AsInt64 v = Inr n \<longleftrightarrow> Value v = BInt n"
  "AsInt v = Inr n \<longleftrightarrow> Value v = BInt n"
  "AsDict v = Inr d \<longleftrightarrow> Value v = BDict d"
  "AsList v = Inr vs \<longleftrightarrow> Value v = BList vs"
  by (cases v; cases "Value v"; simp add: AsInt_def)+

text \<open>\<open>ExtractInfoHash\<close>; \<open>None\<close> is the nil pointer.\<close>

definition ExtractInfoHash :: "bvalue option \<Rightarrow> bytes \<Rightarrow> bencodeError + bytes" where
  "ExtractInfoHash root rawData =
     (case root of
        None \<Rightarrow> Inl RootIsNil
      | Some r \<Rightarrow>
          (case Value r of
             BDict dict \<Rightarrow>
               (case dictGet dict (str ''info'') of
                  None \<Rightarrow> Inl MissingInfo
                | Some infoValue \<Rightarrow>
                    if Start infoValue < 0 \<or> End infoValue < Start infoValue
                       \<or> int (length rawData) < End infoValue
                    then Inl InfoRangeOutside
                    else Inr (sha1 (sliceOf rawData (nat (Start infoValue)) (nat (End infoValue)))))
           | _ \<Rightarrow> Inl RootNotADictionary))"

end
