(* ===== verification/BencodeSpec.thy ===== *)
theory BencodeSpec
  imports Bencode
begin

text \<open>
  The specification of the bencode parser. A \<open>btree\<close> is a value without positions, \<open>encode\<close> its
  canonical encoding, \<open>canonical\<close> says which values the parser can return at a nesting depth. The two
  main lemmas are \<open>parse_complete\<close> (every canonical encoding is accepted and decoded) and
  \<open>parse_sound\<close> (what was accepted is the encoding of what was returned, for the whole input and for
  every nested value, between its \<open>Start\<close> and \<open>End\<close>). The second one excludes dictionaries with an
  empty key: \<open>parseDictionary\<close> accepts such a key twice, see \<open>duplicate_empty_key\<close>.
\<close>

section \<open>Canonical encodings\<close>

datatype btree = TString bytes | TInt int | TList "btree list" | TDict "(bytes \<times> btree) list"

primrec absV :: "bvalue \<Rightarrow> btree" and absB :: "bval \<Rightarrow> btree" where
  "absV (BValue v s e) = absB v"
| "absB (BString s) = TString s"
| "absB (BInt n) = TInt n"
| "absB (BList vs) = TList (map absV vs)"
| "absB (BDict d) = TDict (map (map_prod id absV) d)"

definition absEntry :: "bytes \<times> bvalue \<Rightarrow> bytes \<times> btree" where
  "absEntry kv = (fst kv, absV (snd kv))"

lemma absEntry_pair [simp]: "absEntry (k, v) = (k, absV v)"
  by (simp add: absEntry_def)

lemma absB_BDict: "absB (BDict d) = TDict (map absEntry d)"
  by (simp add: absEntry_def map_prod_def case_prod_unfold)

declare absB.simps(4) [simp del]
declare absB_BDict [simp]

definition encodeString :: "bytes \<Rightarrow> bytes" where
  "encodeString s = FormatInt (int (length s)) @ 58 # s"

primrec encode :: "btree \<Rightarrow> bytes" where
  "encode (TString s) = encodeString s"
| "encode (TInt n) = 105 # FormatInt n @ [101]"
| "encode (TList ts) = 108 # concat (map encode ts) @ [101]"
| "encode (TDict d) =
     100 # concat (map (\<lambda>(k, e). encodeString k @ e) (map (map_prod id encode) d)) @ [101]"

text \<open>
  \<open>canonical M D t d\<close>: \<open>t\<close> can occur at depth \<open>d\<close> under the limits \<open>M\<close> on strings and \<open>D\<close> on depth.
\<close>

definition okString :: "int \<Rightarrow> bytes \<Rightarrow> bool" where
  "okString M s \<longleftrightarrow> int (length s) \<le> M \<and> int (length s) \<le> MaxInt64"

primrec canonical :: "int \<Rightarrow> int \<Rightarrow> btree \<Rightarrow> int \<Rightarrow> bool" where
  "canonical M D (TString s) = (\<lambda>d. d \<le> D \<and> okString M s)"
| "canonical M D (TInt n) = (\<lambda>d. d \<le> D \<and> isInt64 n)"
| "canonical M D (TList ts) =
     (\<lambda>d. d \<le> D \<and> (\<forall>c \<in> set (map (canonical M D) ts). c (d + 1)))"
| "canonical M D (TDict kts) =
     (\<lambda>d. d \<le> D \<and> sorted_wrt (<) (map fst kts) \<and> (\<forall>k \<in> set (map fst kts). okString M k) \<and>
          (\<forall>kc \<in> set (map (map_prod id (canonical M D)) kts). snd kc (d + 1)))"

primrec noEmptyKeys :: "btree \<Rightarrow> bool" where
  "noEmptyKeys (TString s) = True"
| "noEmptyKeys (TInt n) = True"
| "noEmptyKeys (TList ts) = list_all id (map noEmptyKeys ts)"
| "noEmptyKeys (TDict d) =
     list_all (\<lambda>(k, ok). k \<noteq> [] \<and> ok) (map (map_prod id noEmptyKeys) d)"

lemma noEmptyKeys_TList [simp]: "noEmptyKeys (TList ts) \<longleftrightarrow> (\<forall>t \<in> set ts. noEmptyKeys t)"
  by (simp add: list_all_iff)

lemma noEmptyKeys_TDict [simp]:
  "noEmptyKeys (TDict d) \<longleftrightarrow> (\<forall>(k, t) \<in> set d. k \<noteq> [] \<and> noEmptyKeys t)"
  by (auto simp: list_all_iff)

declare noEmptyKeys.simps(3,4) [simp del]

section \<open>The scanners on an encoded prefix\<close>

lemma scanInteger_prefix:
  "drop i d = xs @ 101 # r \<Longrightarrow> 101 \<notin> set xs \<Longrightarrow> scanInteger d i = i + length xs"
proof (induction xs arbitrary: i)
  case Nil
  then have "i < length d" "d ! i = 101" by (auto dest: drop_ConsD)
  then show ?case by (simp add: scanInteger.simps [of d i])
next
  case (Cons x xs)
  then have "i < length d" "d ! i = x" "drop (Suc i) d = xs @ 101 # r" by (auto dest: drop_ConsD)
  with Cons show ?case by (simp add: scanInteger.simps [of d i])
qed

lemma scanLength_prefix:
  "drop i d = xs @ 58 # r \<Longrightarrow> \<forall>c \<in> set xs. isDigit c \<Longrightarrow> scanLength d i = Inr (i + length xs)"
proof (induction xs arbitrary: i)
  case Nil
  then have "i < length d" "d ! i = 58" by (auto dest: drop_ConsD)
  then show ?case by (simp add: scanLength.simps [of d i])
next
  case (Cons x xs)
  then have "i < length d" "d ! i = x" "drop (Suc i) d = xs @ 58 # r" "x \<noteq> 58"
    by (auto dest: drop_ConsD simp: isDigit_def)
  with Cons show ?case by (simp add: scanLength.simps [of d i])
qed

lemma scanInteger_found:
  assumes "scanInteger d i = j" "j < length d"
  shows "d ! j = 101 \<and> drop i d = sliceOf d i j @ 101 # drop (Suc j) d"
  using assms
proof (induction d i arbitrary: j rule: scanInteger.induct)
  case (1 d i)
  show ?case
  proof (cases "i < length d \<and> d ! i \<noteq> 101")
    case True
    with "1.prems" have j: "scanInteger d (Suc i) = j" by (simp add: scanInteger.simps [of d i])
    then have "Suc i \<le> j" using scanInteger_ge[of "Suc i" d] by simp
    with "1.IH"[OF True j "1.prems"(2)] True "1.prems"(2) show ?thesis
      by (simp add: sliceOf_Cons Cons_nth_drop_Suc [symmetric])
  next
    case False
    with "1.prems" have "j = i" by (auto simp: scanInteger.simps [of d i])
    with False "1.prems" show ?thesis by (auto simp: Cons_nth_drop_Suc [symmetric])
  qed
qed

lemma scanLength_found:
  assumes "scanLength d i = Inr j" "j < length d"
  shows "d ! j = 58 \<and> drop i d = sliceOf d i j @ 58 # drop (Suc j) d \<and>
    (\<forall>c \<in> set (sliceOf d i j). isDigit c)"
  using assms
proof (induction d i arbitrary: j rule: scanLength.induct)
  case (1 d i)
  show ?case
  proof (cases "i < length d \<and> d ! i \<noteq> 58")
    case True
    with "1.prems" have j: "scanLength d (Suc i) = Inr j" and dig: "isDigit (d ! i)"
      by (auto simp: scanLength.simps [of d i] split: if_splits)
    then have "Suc i \<le> j" using scanLength_ge by blast
    with "1.IH"[OF True _ j "1.prems"(2)] True dig "1.prems"(2) show ?thesis
      by (simp add: sliceOf_Cons Cons_nth_drop_Suc [symmetric])
  next
    case False
    with "1.prems" have "j = i" by (auto simp: scanLength.simps [of d i])
    with False "1.prems" show ?thesis by (auto simp: Cons_nth_drop_Suc [symmetric])
  qed
qed

section \<open>Strings and integers\<close>

lemma encodeString_eq: "encodeString s = decDigits (length s) @ 58 # s"
  by (simp add: encodeString_def FormatInt_def)

lemma parseString_encode:
  assumes d: "drop (pindex p) (pdata p) = encodeString s @ r"
    and ok: "okString (maxStringLength p) s"
  shows "parseString p = Inr (s, p\<lparr>pindex := pindex p + length (encodeString s)\<rparr>)"
proof -
  let ?i = "pindex p" and ?n = "length (decDigits (length s))"
  have d': "drop ?i (pdata p) = decDigits (length s) @ 58 # s @ r"
    using d by (simp add: encodeString_eq)
  have scan: "scanLength (pdata p) ?i = Inr (?i + ?n)"
    by (rule scanLength_prefix [OF d' decDigits_isDigit])
  have num: "sliceOf (pdata p) ?i (?i + ?n) = decDigits (length s)"
    by (rule sliceOf_prefix [OF d'])
  have rest: "drop (?i + ?n) (pdata p) = 58 # s @ r"
    by (rule drop_append_drop [OF d'])
  then have lt: "?i + ?n < length (pdata p)" and "drop (Suc (?i + ?n)) (pdata p) = s @ r"
    by (auto dest: drop_ConsD)
  then have str: "sliceOf (pdata p) (Suc (?i + ?n)) (Suc (?i + ?n) + length s) = s"
    by (intro sliceOf_prefix)
  have len: "Suc (?i + ?n) + length s + length r = length (pdata p)"
    using arg_cong [OF d', of length] lt by simp
  have head: "1 < ?n \<longrightarrow> pdata p ! ?i \<noteq> 48"
  proof
    assume "1 < ?n"
    then have "hd (decDigits (length s)) \<noteq> 48"
      using canonicalDigits_decDigits[of "length s"] by (simp add: canonicalDigits_def)
    moreover have "pdata p ! ?i = hd (drop ?i (pdata p))"
      using lt by (simp add: hd_drop_conv_nth)
    ultimately show "pdata p ! ?i \<noteq> 48" by (simp add: d' hd_append)
  qed
  have parse: "ParseInt (decDigits (length s)) = Inr (int (length s))"
    using ParseInt_FormatInt[of "int (length s)"] ok
    by (simp add: FormatInt_def okString_def isInt64_def MinInt64_def)
  show ?thesis
    using lt len head ok parse str scan
    by (simp add: parseString_def Let_def num okString_def encodeString_eq del: decDigits_not_Nil)
       (auto simp: decDigits_not_Nil add.assoc)
qed

lemma parseString_sound:
  assumes "parseString p = Inr (s, p')"
  shows "drop (pindex p) (pdata p) = encodeString s @ drop (pindex p') (pdata p)"
    and "okString (maxStringLength p) s"
proof -
  let ?d = "pdata p" and ?i = "pindex p"
  obtain j n where scan: "scanLength ?d ?i = Inr j" and lt: "j < length ?d" and ne: "j \<noteq> ?i"
    and z: "\<not> (1 < j - ?i \<and> ?d ! ?i = 48)" and num: "ParseInt (sliceOf ?d ?i j) = Inr n"
    and mx: "n \<le> maxStringLength p" and av: "n \<le> int (length ?d) - int (j + 1)"
    and s: "s = sliceOf ?d (j + 1) (j + 1 + nat n)" and p': "pindex p' = j + 1 + nat n"
    using assms by (auto simp: parseString_def Let_def not_le not_less split: if_splits)
  have ij: "?i < j" using scanLength_ge [OF scan] ne by simp
  have dr: "drop ?i ?d = sliceOf ?d ?i j @ 58 # drop (Suc j) ?d"
    and dig: "\<forall>c \<in> set (sliceOf ?d ?i j). isDigit c"
    using scanLength_found [OF scan lt] by simp_all
  have "0 \<le> n" by (rule ParseInt_digits_nonneg [OF dig num])
  have hd: "hd (sliceOf ?d ?i j) = ?d ! ?i" and len: "length (sliceOf ?d ?i j) = j - ?i"
    using ij lt by (simp_all add: sliceOf_Cons length_sliceOf)
  have can: "canonicalDigits (sliceOf ?d ?i j)"
    using z ij dig len hd by (auto simp: canonicalDigits_def)
  then have "hd (sliceOf ?d ?i j) \<noteq> 45"
    by (cases "sliceOf ?d ?i j") (auto simp: canonicalDigits_def isDigit_def)
  with can have "FormatInt n = sliceOf ?d ?i j"
    by (intro FormatInt_ParseInt [OF _ num]) (simp add: canonicalInt_def)
  moreover have ls: "int (length s) = n"
    using \<open>0 \<le> n\<close> av s lt by (simp add: length_sliceOf)
  moreover have "drop (Suc j) ?d = s @ drop (pindex p') ?d"
    using s p' append_take_drop_id[of "nat n" "drop (Suc j) ?d"]
    by (simp add: sliceOf_def add.commute)
  ultimately show "drop ?i ?d = encodeString s @ drop (pindex p') ?d"
    using dr by (simp add: encodeString_def)
  show "okString (maxStringLength p) s"
    using mx ls ParseInt_isInt64 [OF num] by (simp add: okString_def isInt64_def)
qed

lemma FormatInt_no_e: "101 \<notin> set (FormatInt n)"
  using decDigits_isDigit[of "nat n"] decDigits_isDigit[of "nat (- n)"]
  by (auto simp: FormatInt_def isDigit_def)

lemma FormatInt_not_Nil [simp]: "FormatInt n \<noteq> []"
  by (simp add: FormatInt_def)

lemma canonicalInt_cases:
  assumes "canonicalInt s"
  shows "s \<noteq> []"
    and "hd s = 45 \<Longrightarrow> 1 < length s \<and> s ! 1 \<noteq> 48 \<and> list_all isDigit (tl s)"
    and "hd s \<noteq> 45 \<Longrightarrow> \<not> (1 < length s \<and> hd s = 48) \<and> list_all isDigit s"
proof -
  show "s \<noteq> []" using assms by (cases s) (auto simp: canonicalInt_def canonicalDigits_def)
  then obtain c cs where s: "s = c # cs" by (cases s) auto
  show "1 < length s \<and> s ! 1 \<noteq> 48 \<and> list_all isDigit (tl s)" if "hd s = 45"
    using assms that s
    by (cases cs) (auto simp: canonicalInt_def canonicalDigits_def list_all_iff)
  show "\<not> (1 < length s \<and> hd s = 48) \<and> list_all isDigit s" if "hd s \<noteq> 45"
    using assms that s by (auto simp: canonicalInt_def canonicalDigits_def list_all_iff)
qed

lemma canonicalInt_intro:
  assumes "s \<noteq> []"
    and "hd s = 45 \<Longrightarrow> 1 < length s \<and> s ! 1 \<noteq> 48 \<and> list_all isDigit (tl s)"
    and "hd s \<noteq> 45 \<Longrightarrow> \<not> (1 < length s \<and> hd s = 48) \<and> list_all isDigit s"
  shows "canonicalInt s"
proof (cases "hd s = 45")
  case True
  with assms(1,2) show ?thesis
    by (cases s; cases "tl s") (auto simp: canonicalInt_def canonicalDigits_def list_all_iff)
next
  case False
  with assms(1,3) show ?thesis by (auto simp: canonicalInt_def canonicalDigits_def list_all_iff)
qed

lemma parseInteger_encode:
  assumes d: "drop (pindex p) (pdata p) = 105 # FormatInt n @ 101 # r" and n: "isInt64 n"
  shows "parseInteger p = Inr (n, p\<lparr>pindex := pindex p + length (FormatInt n) + 2\<rparr>)"
proof -
  let ?i = "Suc (pindex p)" and ?s = "FormatInt n"
  have d': "drop ?i (pdata p) = ?s @ 101 # r" using drop_ConsD [OF d] by simp
  have scan: "scanInteger (pdata p) ?i = ?i + length ?s"
    by (rule scanInteger_prefix [OF d' FormatInt_no_e])
  have num: "sliceOf (pdata p) ?i (?i + length ?s) = ?s" by (rule sliceOf_prefix [OF d'])
  have lt: "?i + length ?s < length (pdata p)"
    using drop_append_drop [OF d'] by (auto dest: drop_ConsD)
  note can = canonicalInt_cases [OF canonicalInt_FormatInt [of n]]
  show ?thesis
    using lt can(2,3) ParseInt_FormatInt [OF n]
    by (auto simp: parseInteger_def Let_def scan [simplified] num [simplified] not_le)
qed

lemma parseInteger_sound:
  assumes "parseInteger p = Inr (n, p')" "pindex p < length (pdata p)" "pdata p ! pindex p = 105"
  shows "drop (pindex p) (pdata p) = encode (TInt n) @ drop (pindex p') (pdata p)"
    and "isInt64 n"
proof -
  let ?d = "pdata p" and ?i = "Suc (pindex p)"
  define j where "j = scanInteger ?d ?i"
  have lt: "j < length ?d" and ne: "sliceOf ?d ?i j \<noteq> []"
    and num: "ParseInt (sliceOf ?d ?i j) = Inr n" and p': "pindex p' = Suc j"
    and neg: "hd (sliceOf ?d ?i j) = 45 \<Longrightarrow> length (sliceOf ?d ?i j) \<noteq> 1 \<and>
      sliceOf ?d ?i j ! 1 \<noteq> 48 \<and> list_all isDigit (tl (sliceOf ?d ?i j))"
    and pos: "hd (sliceOf ?d ?i j) \<noteq> 45 \<Longrightarrow> \<not> (1 < length (sliceOf ?d ?i j) \<and>
      hd (sliceOf ?d ?i j) = 48) \<and> list_all isDigit (sliceOf ?d ?i j)"
    using assms(1) by (auto simp: parseInteger_def Let_def j_def split: if_splits)
  have "canonicalInt (sliceOf ?d ?i j)"
    using ne neg pos
    by (intro canonicalInt_intro) (auto simp: Suc_lessI length_greater_0_conv)
  from FormatInt_ParseInt [OF this num] have f: "FormatInt n = sliceOf ?d ?i j" .
  have "drop ?i ?d = sliceOf ?d ?i j @ 101 # drop (Suc j) ?d"
    using scanInteger_found[of ?d ?i j] lt by (simp add: j_def)
  then show "drop (pindex p) ?d = encode (TInt n) @ drop (pindex p') ?d"
    using assms(2,3) p' f by (simp add: Cons_nth_drop_Suc [symmetric])
  show "isInt64 n" by (rule ParseInt_isInt64 [OF num])
qed

section \<open>Completeness: every canonical encoding is parsed\<close>

lemma isDigit_hd_encodeString: "encodeString s \<noteq> [] \<and> isDigit (hd (encodeString s))"
  by (simp add: encodeString_eq hd_append)

lemma hd_encode: "encode t \<noteq> [] \<and> hd (encode t) \<noteq> 101"
  using isDigit_hd_encodeString isDigit_neq by (cases t) auto

lemma drop_append_hd:
  assumes "drop i d = xs @ r" "xs \<noteq> []"
  shows "i < length d" and "d ! i = hd xs"
  using assms by (cases xs; auto dest: drop_ConsD)+

definition parses :: "btree \<Rightarrow> bool" where
  "parses t \<longleftrightarrow>
     (\<forall>p d r. canonical (maxStringLength p) (maxDepth p) t d \<longrightarrow>
        drop (pindex p) (pdata p) = encode t @ r \<longrightarrow>
        (\<exists>v. parseValue p d = Inr (v, p\<lparr>pindex := pindex p + length (encode t)\<rparr>) \<and> absV v = t))"

lemma parsesD:
  assumes "parses t" "canonical (maxStringLength p) (maxDepth p) t d"
    "drop (pindex p) (pdata p) = encode t @ r"
  obtains v where "parseValue p d = Inr (v, p\<lparr>pindex := pindex p + length (encode t)\<rparr>)" "absV v = t"
  using assms by (auto simp: parses_def)

lemma parseListLoop_complete:
  assumes "\<forall>t \<in> set ts. parses t \<and> canonical (maxStringLength p) (maxDepth p) t d"
    and "drop (pindex p) (pdata p) = concat (map encode ts) @ 101 # r"
  shows "\<exists>vs. parseListLoop p d acc =
    Inr (acc @ vs, p\<lparr>pindex := pindex p + length (concat (map encode ts)) + 1\<rparr>) \<and> map absV vs = ts"
  using assms
proof (induction ts arbitrary: p acc)
  case Nil
  then show ?case by (auto simp: parseListLoop.simps [of p] dest!: drop_ConsD)
next
  case (Cons t ts)
  let ?q = "p\<lparr>pindex := pindex p + length (encode t)\<rparr>"
  from Cons.prems have d: "drop (pindex p) (pdata p) = encode t @ concat (map encode ts) @ 101 # r"
    by simp
  from Cons.prems d obtain v where v: "parseValue p d = Inr (v, ?q)" "absV v = t"
    by (auto elim: parsesD)
  have "drop (pindex ?q) (pdata ?q) = concat (map encode ts) @ 101 # r"
    using drop_append_drop [OF d] by simp
  with Cons.IH[of ?q "acc @ [v]"] Cons.prems(1) obtain vs where
    "parseListLoop ?q d (acc @ [v]) =
       Inr ((acc @ [v]) @ vs, ?q\<lparr>pindex := pindex ?q + length (concat (map encode ts)) + 1\<rparr>)"
    "map absV vs = ts"
    by auto
  with v drop_append_hd [OF d] hd_encode [of t] show ?case
    by (intro exI[of _ "v # vs"]) (simp add: parseListLoop.simps [of p] not_le)
qed

definition encodeEntry :: "bytes \<times> btree \<Rightarrow> bytes" where
  "encodeEntry kt = encodeString (fst kt) @ encode (snd kt)"

lemma encodeEntry_pair [simp]: "encodeEntry (k, t) = encodeString k @ encode t"
  by (simp add: encodeEntry_def)

lemma encode_TDict: "encode (TDict d) = 100 # concat (map encodeEntry d) @ [101]"
proof -
  have "(\<lambda>(k, e). encodeString k @ e) \<circ> map_prod id encode = encodeEntry"
    by (auto simp: fun_eq_iff encodeEntry_def)
  then show ?thesis by simp
qed

declare encode.simps(4) [simp del]

lemma update_new: "k \<notin> fst ` set xs \<Longrightarrow> AList.update k v xs = xs @ [(k, v)]"
  by (induction xs) auto

lemma setPrevious_Some: "notSorted prev k = False \<Longrightarrow> prev \<noteq> None \<Longrightarrow> setPrevious prev k = Some k"
  by (auto simp: setPrevious_def)

lemma notSorted_setPrevious: "k < k2 \<Longrightarrow> \<not> notSorted (setPrevious prev k) k2"
  by (auto simp: notSorted_def setPrevious_def)

lemma parseDictLoop_complete:
  assumes "\<forall>(k, t) \<in> set kts. parses t \<and> canonical (maxStringLength p) (maxDepth p) t d \<and>
      okString (maxStringLength p) k"
    and "sorted_wrt (<) (map fst kts)"
    and "\<forall>k \<in> fst ` set kts. (\<forall>k' \<in> fst ` set acc. k' < k) \<and> \<not> notSorted prev k"
    and "drop (pindex p) (pdata p) = concat (map encodeEntry kts) @ 101 # r"
  shows "\<exists>kvs. parseDictLoop p d prev acc =
      Inr (acc @ kvs, p\<lparr>pindex := pindex p + length (concat (map encodeEntry kts)) + 1\<rparr>) \<and>
    map absEntry kvs = kts"
  using assms
proof (induction kts arbitrary: p acc prev)
  case Nil
  then show ?case by (auto simp: parseDictLoop.simps [of p] dest!: drop_ConsD)
next
  case (Cons kt kts)
  obtain k t where kt: "kt = (k, t)" by force
  let ?p1 = "p\<lparr>pindex := pindex p + length (encodeString k)\<rparr>"
  let ?p2 = "?p1\<lparr>pindex := pindex ?p1 + length (encode t)\<rparr>"
  from Cons.prems(4) kt have d: "drop (pindex p) (pdata p) =
      encodeString k @ encode t @ concat (map encodeEntry kts) @ 101 # r"
    by simp
  have s: "parseString p = Inr (k, ?p1)"
    using Cons.prems(1) kt by (intro parseString_encode [OF d]) auto
  have d1: "drop (pindex ?p1) (pdata ?p1) = encode t @ concat (map encodeEntry kts) @ 101 # r"
    using drop_append_drop [OF d] by simp
  from Cons.prems(1) kt d1 obtain v where v: "parseValue ?p1 d = Inr (v, ?p2)" "absV v = t"
    by (auto elim: parsesD [where p = ?p1])
  have d2: "drop (pindex ?p2) (pdata ?p2) = concat (map encodeEntry kts) @ 101 # r"
    using drop_append_drop [OF d1] by simp
  have fresh: "k \<notin> fst ` set acc" and ns: "\<not> notSorted prev k"
    using Cons.prems(3) kt by auto
  have "\<forall>k2 \<in> fst ` set kts. (\<forall>k' \<in> fst ` set (acc @ [(k, v)]). k' < k2) \<and>
      \<not> notSorted (setPrevious prev k) k2"
    using Cons.prems(2,3) kt notSorted_setPrevious by auto
  moreover have "\<forall>(k, t) \<in> set kts. parses t \<and>
      canonical (maxStringLength ?p2) (maxDepth ?p2) t d \<and> okString (maxStringLength ?p2) k"
    and "sorted_wrt (<) (map fst kts)"
    using Cons.prems(1,2) kt by auto
  ultimately have "\<exists>kvs. parseDictLoop ?p2 d (setPrevious prev k) (acc @ [(k, v)]) =
      Inr ((acc @ [(k, v)]) @ kvs, ?p2\<lparr>pindex := pindex ?p2 + length (concat (map encodeEntry kts)) + 1\<rparr>) \<and>
      map absEntry kvs = kts"
    using d2 by (intro Cons.IH)
  then obtain kvs where kvs: "parseDictLoop ?p2 d (setPrevious prev k) (acc @ [(k, v)]) =
      Inr ((acc @ [(k, v)]) @ kvs, ?p2\<lparr>pindex := pindex ?p2 + length (concat (map encodeEntry kts)) + 1\<rparr>)"
    "map absEntry kvs = kts"
    by blast
  have "pindex p < length (pdata p)" "isDigit (pdata p ! pindex p)" "pdata p ! pindex p \<noteq> 101"
    using drop_append_hd [OF d] isDigit_hd_encodeString [of k] by (auto dest: isDigit_neq)
  with s v ns kvs update_new [OF fresh] show ?case
    by (intro exI[of _ "(k, v) # kvs"])
      (simp add: parseDictLoop.simps [of p] not_le kt add.assoc)
qed

lemma parsesI:
  assumes "\<And>p d r. canonical (maxStringLength p) (maxDepth p) t d \<Longrightarrow>
      drop (pindex p) (pdata p) = encode t @ r \<Longrightarrow> pindex p < length (pdata p) \<Longrightarrow>
      pdata p ! pindex p = hd (encode t) \<Longrightarrow>
      \<exists>v. parseValue p d = Inr (v, p\<lparr>pindex := pindex p + length (encode t)\<rparr>) \<and> absV v = t"
  shows "parses t"
  unfolding parses_def using assms drop_append_hd hd_encode by blast

lemma parses_TString: "parses (TString s)"
proof (rule parsesI)
  fix p :: Parser and d r
  assume c: "canonical (maxStringLength p) (maxDepth p) (TString s) d"
    and dr: "drop (pindex p) (pdata p) = encode (TString s) @ r"
    and hd: "pindex p < length (pdata p)" "pdata p ! pindex p = hd (encode (TString s))"
  have "parseString p = Inr (s, p\<lparr>pindex := pindex p + length (encodeString s)\<rparr>)"
    using c dr by (intro parseString_encode) auto
  with c hd isDigit_hd_encodeString [of s]
  show "\<exists>v. parseValue p d =
      Inr (v, p\<lparr>pindex := pindex p + length (encode (TString s))\<rparr>) \<and> absV v = TString s"
    using isDigit_neq by (auto simp: parseValue.simps [of p] Let_def)
qed

lemma parses_TInt: "parses (TInt n)"
proof (rule parsesI)
  fix p :: Parser and d r
  assume c: "canonical (maxStringLength p) (maxDepth p) (TInt n) d"
    and dr: "drop (pindex p) (pdata p) = encode (TInt n) @ r"
    and hd: "pindex p < length (pdata p)" "pdata p ! pindex p = hd (encode (TInt n))"
  have "parseInteger p = Inr (n, p\<lparr>pindex := pindex p + length (FormatInt n) + 2\<rparr>)"
    using c dr by (intro parseInteger_encode) auto
  with c hd
  show "\<exists>v. parseValue p d =
      Inr (v, p\<lparr>pindex := pindex p + length (encode (TInt n))\<rparr>) \<and> absV v = TInt n"
    by (auto simp: parseValue.simps [of p] Let_def)
qed

lemma parses_TList:
  assumes "\<And>t. t \<in> set ts \<Longrightarrow> parses t"
  shows "parses (TList ts)"
proof (rule parsesI)
  fix p :: Parser and d r
  let ?q = "p\<lparr>pindex := pindex p + 1\<rparr>"
  assume c: "canonical (maxStringLength p) (maxDepth p) (TList ts) d"
    and dr: "drop (pindex p) (pdata p) = encode (TList ts) @ r"
    and hd: "pindex p < length (pdata p)" "pdata p ! pindex p = hd (encode (TList ts))"
  have "drop (pindex ?q) (pdata ?q) = concat (map encode ts) @ 101 # r"
    using dr by (auto dest: drop_ConsD)
  with parseListLoop_complete[of ts ?q "d + 1" r "[]"] c assms
  obtain vs where "parseListLoop ?q (d + 1) [] =
      Inr (vs, ?q\<lparr>pindex := pindex ?q + length (concat (map encode ts)) + 1\<rparr>)"
    "map absV vs = ts"
    by auto
  with c hd show "\<exists>v. parseValue p d =
      Inr (v, p\<lparr>pindex := pindex p + length (encode (TList ts))\<rparr>) \<and> absV v = TList ts"
    by (auto simp: parseValue.simps [of p] Let_def)
qed

lemma parses_TDict:
  assumes "\<And>k t. (k, t) \<in> set kts \<Longrightarrow> parses t"
  shows "parses (TDict kts)"
proof (rule parsesI)
  fix p :: Parser and d r
  let ?q = "p\<lparr>pindex := pindex p + 1\<rparr>"
  assume c: "canonical (maxStringLength p) (maxDepth p) (TDict kts) d"
    and dr: "drop (pindex p) (pdata p) = encode (TDict kts) @ r"
    and hd: "pindex p < length (pdata p)" "pdata p ! pindex p = hd (encode (TDict kts))"
  have "drop (pindex ?q) (pdata ?q) = concat (map encodeEntry kts) @ 101 # r"
    using dr by (auto simp: encode_TDict dest: drop_ConsD)
  moreover have "\<forall>(k, t) \<in> set kts. parses t \<and>
      canonical (maxStringLength ?q) (maxDepth ?q) t (d + 1) \<and> okString (maxStringLength ?q) k"
    using c assms by force
  ultimately obtain kvs where "parseDictLoop ?q (d + 1) None [] =
      Inr (kvs, ?q\<lparr>pindex := pindex ?q + length (concat (map encodeEntry kts)) + 1\<rparr>)"
    "map absEntry kvs = kts"
    using parseDictLoop_complete[of kts ?q "d + 1" "[]" None r] c by (auto simp: notSorted_def)
  with c hd show "\<exists>v. parseValue p d =
      Inr (v, p\<lparr>pindex := pindex p + length (encode (TDict kts))\<rparr>) \<and> absV v = TDict kts"
    by (auto simp: parseValue.simps [of p] Let_def encode_TDict)
qed

lemma parse_complete: "parses t"
proof (induction t)
  case (TDict kts)
  then show ?case by (intro parses_TDict) (metis snds.intros snd_conv)
qed (auto intro: parses_TString parses_TInt parses_TList)

section \<open>Soundness: what was parsed is the encoding of the result\<close>

text \<open>
  \<open>spansV data v\<close>: \<open>v\<close> and every value inside it lie in \<open>data\<close>, between \<open>Start\<close> and \<open>End\<close> of
  each of them (without empty keys) \<open>data\<close> holds exactly its canonical encoding, and every integer is
  an \<open>int64\<close>.
\<close>

primrec spansV :: "bytes \<Rightarrow> bvalue \<Rightarrow> bool" and spansB :: "bytes \<Rightarrow> bval \<Rightarrow> bool" where
  "spansV data (BValue v s e) \<longleftrightarrow>
     0 \<le> s \<and> s < e \<and> e \<le> int (length data) \<and>
     (noEmptyKeys (absB v) \<longrightarrow> sliceOf data (nat s) (nat e) = encode (absB v)) \<and> spansB data v"
| "spansB data (BString s) \<longleftrightarrow> True"
| "spansB data (BInt n) \<longleftrightarrow> isInt64 n"
| "spansB data (BList vs) \<longleftrightarrow> list_all id (map (spansV data) vs)"
| "spansB data (BDict d) \<longleftrightarrow> list_all snd (map (map_prod id (spansV data)) d)"

lemma spansB_BList [simp]: "spansB data (BList vs) \<longleftrightarrow> (\<forall>v \<in> set vs. spansV data v)"
  by (simp add: list_all_iff)

lemma spansB_BDict [simp]: "spansB data (BDict d) \<longleftrightarrow> (\<forall>v \<in> snd ` set d. spansV data v)"
  by (auto simp: list_all_iff)

declare spansB.simps(3,4) [simp del]

definition cleanDict :: "bdict \<Rightarrow> bool" where
  "cleanDict d \<longleftrightarrow> (\<forall>kv \<in> set d. fst kv \<noteq> [] \<and> noEmptyKeys (absV (snd kv)))"

lemma noEmptyKeys_BDict: "noEmptyKeys (absB (BDict d)) \<longleftrightarrow> cleanDict d"
  by (auto simp: cleanDict_def absEntry_def)

definition keysBefore :: "bytes option \<Rightarrow> bdict \<Rightarrow> bool" where
  "keysBefore prev acc \<longleftrightarrow>
     (case prev of None \<Rightarrow> acc = [] | Some k \<Rightarrow> \<forall>k' \<in> fst ` set acc. k' \<le> k)"

lemma keysBefore_fresh:
  "keysBefore prev acc \<Longrightarrow> \<not> notSorted prev k \<Longrightarrow> k \<notin> fst ` set acc"
  by (fastforce simp: keysBefore_def notSorted_def split: option.splits)

lemma keysBefore_next:
  "keysBefore prev acc \<Longrightarrow> \<not> notSorted prev k \<Longrightarrow> keysBefore (Some k) (acc @ [(k, v)])"
  by (fastforce simp: keysBefore_def notSorted_def split: option.splits)

definition valueSound :: "Parser \<Rightarrow> int \<Rightarrow> bvalue \<Rightarrow> Parser \<Rightarrow> bool" where
  "valueSound p depth v p' \<longleftrightarrow>
     spansV (pdata p) v \<and> Start v = int (pindex p) \<and> End v = int (pindex p') \<and>
     (noEmptyKeys (absV v) \<longrightarrow> canonical (maxStringLength p) (maxDepth p) (absV v) depth)"

definition listSound :: "Parser \<Rightarrow> int \<Rightarrow> bvalue list \<Rightarrow> bvalue list \<Rightarrow> Parser \<Rightarrow> bool" where
  "listSound p depth acc vs p' \<longleftrightarrow>
     (\<exists>new. vs = acc @ new \<and> (\<forall>v \<in> set new. spansV (pdata p) v) \<and>
        ((\<forall>v \<in> set new. noEmptyKeys (absV v)) \<longrightarrow>
           drop (pindex p) (pdata p) =
             concat (map (\<lambda>v. encode (absV v)) new) @ 101 # drop (pindex p') (pdata p) \<and>
           (\<forall>v \<in> set new. canonical (maxStringLength p) (maxDepth p) (absV v) depth)))"

definition newEntries :: "Parser \<Rightarrow> int \<Rightarrow> bytes option \<Rightarrow> bdict \<Rightarrow> Parser \<Rightarrow> bool" where
  "newEntries p depth prev new p' \<longleftrightarrow>
     drop (pindex p) (pdata p) =
       concat (map (\<lambda>kv. encodeEntry (absEntry kv)) new) @ 101 # drop (pindex p') (pdata p) \<and>
     sorted_wrt (<) (map fst new) \<and> (\<forall>k \<in> fst ` set new. \<not> notSorted prev k) \<and>
     (\<forall>kv \<in> set new. okString (maxStringLength p) (fst kv) \<and>
        canonical (maxStringLength p) (maxDepth p) (absV (snd kv)) depth)"

definition dictSound :: "Parser \<Rightarrow> int \<Rightarrow> bytes option \<Rightarrow> bdict \<Rightarrow> bdict \<Rightarrow> Parser \<Rightarrow> bool" where
  "dictSound p depth prev acc kvs p' \<longleftrightarrow>
     ((\<forall>v \<in> snd ` set acc. spansV (pdata p) v) \<longrightarrow> (\<forall>v \<in> snd ` set kvs. spansV (pdata p) v)) \<and>
     fst ` set acc \<subseteq> fst ` set kvs \<and>
     (cleanDict kvs \<and> keysBefore prev acc \<longrightarrow>
        (\<exists>new. kvs = acc @ new \<and> newEntries p depth prev new p'))"

lemma drop_sliceOf: "i \<le> j \<Longrightarrow> drop i xs = sliceOf xs i j @ drop j xs"
  by (metis append_take_drop_id drop_drop le_add_diff_inverse2 sliceOf_def)

lemma valueSound_drop:
  assumes "valueSound p depth v p'" "noEmptyKeys (absV v)"
  shows "drop (pindex p) (pdata p) = encode (absV v) @ drop (pindex p') (pdata p)"
  using assms drop_sliceOf[of "pindex p" "pindex p'" "pdata p"]
  by (cases v) (auto simp: valueSound_def)

lemma sliceOf_drop_eq: "drop i xs = ys @ drop j xs \<Longrightarrow> i < j \<Longrightarrow> j \<le> length xs \<Longrightarrow> sliceOf xs i j = ys"
  using drop_sliceOf[of i j xs] by simp

lemma valueSoundI:
  assumes adv: "advances p p'"
    and "noEmptyKeys (absB b) \<Longrightarrow>
      drop (pindex p) (pdata p) = encode (absB b) @ drop (pindex p') (pdata p) \<and>
      canonical (maxStringLength p) (maxDepth p) (absB b) depth"
    and "spansB (pdata p) b"
  shows "valueSound p depth (BValue b (int (pindex p)) (int (pindex p'))) p'"
  using assms sliceOf_drop_eq[of "pindex p" "pdata p" "encode (absB b)" "pindex p'"]
  by (auto simp: valueSound_def advances_def)

lemma listSound_step:
  assumes v: "valueSound p depth v q" and a: "advances p q"
    and l: "listSound q depth (acc @ [v]) vs p'"
  shows "listSound p depth acc vs p'"
proof -
  have same: "pdata q = pdata p" "maxStringLength q = maxStringLength p" "maxDepth q = maxDepth p"
    using a by (simp_all add: advances_def)
  obtain new where vs: "vs = (acc @ [v]) @ new" and sp: "\<forall>v \<in> set new. spansV (pdata p) v"
    and clean: "(\<forall>v \<in> set new. noEmptyKeys (absV v)) \<Longrightarrow>
           drop (pindex q) (pdata p) =
             concat (map (\<lambda>v. encode (absV v)) new) @ 101 # drop (pindex p') (pdata p) \<and>
           (\<forall>v \<in> set new. canonical (maxStringLength p) (maxDepth p) (absV v) depth)"
    using l by (auto simp: listSound_def same)
  show ?thesis
    unfolding listSound_def
    using v vs sp clean valueSound_drop [OF v]
    by (intro exI[of _ "v # new"]) (auto simp: valueSound_def)
qed

lemma update_keys: "fst ` set (AList.update k v acc) = insert k (fst ` set acc)"
  by (induction acc) auto

lemma update_values: "snd ` set (AList.update k v acc) \<subseteq> insert v (snd ` set acc)"
  by (induction acc) auto

lemma dictSound_step:
  assumes k: "drop (pindex p) (pdata p) = encodeString k @ drop (pindex p1) (pdata p)"
      "okString (maxStringLength p) k" "advances p p1" "\<not> notSorted prev k"
    and v: "valueSound p1 depth v p2" "advances p1 p2"
    and l: "dictSound p2 depth (setPrevious prev k) (AList.update k v acc) kvs p'"
  shows "dictSound p depth prev acc kvs p'"
proof -
  have same: "pdata p1 = pdata p" "maxStringLength p1 = maxStringLength p" "maxDepth p1 = maxDepth p"
    "pdata p2 = pdata p" "maxStringLength p2 = maxStringLength p" "maxDepth p2 = maxDepth p"
    using k(3) v(2) by (simp_all add: advances_def)
  have keys: "insert k (fst ` set acc) \<subseteq> fst ` set kvs"
    using l unfolding dictSound_def update_keys by blast
  have spans: "\<forall>w \<in> snd ` set kvs. spansV (pdata p) w" if "\<forall>w \<in> snd ` set acc. spansV (pdata p) w"
  proof -
    have "spansV (pdata p) v" using v(1) by (simp add: valueSound_def same)
    with that update_values[of k v acc]
    have "\<forall>w \<in> snd ` set (AList.update k v acc). spansV (pdata p) w" by blast
    with l show ?thesis by (simp add: dictSound_def same)
  qed
  have new: "\<exists>new. kvs = acc @ new \<and> newEntries p depth prev new p'"
    if clean: "cleanDict kvs" and kb: "keysBefore prev acc"
  proof -
    have "k \<noteq> []" using clean keys by (auto simp: cleanDict_def)
    then have prev': "setPrevious prev k = Some k" by (simp add: setPrevious_def)
    have upd: "AList.update k v acc = acc @ [(k, v)]"
      by (rule update_new [OF keysBefore_fresh [OF kb k(4)]])
    obtain new where kvs: "kvs = (acc @ [(k, v)]) @ new" and ne: "newEntries p2 depth (Some k) new p'"
      using l clean keysBefore_next [OF kb k(4), of v] by (auto simp: dictSound_def prev' upd)
    have cv: "noEmptyKeys (absV v)" using clean kvs by (simp add: cleanDict_def)
    have order: "\<forall>k2 \<in> fst ` set new. k < k2 \<and> \<not> notSorted prev k2"
      using ne k(4) by (fastforce simp: newEntries_def notSorted_def split: option.splits)
    have "newEntries p depth prev ((k, v) # new) p'"
      using ne k(1,2,4) valueSound_drop [OF v(1) cv] v(1) cv order
      by (auto simp: newEntries_def same valueSound_def)
    with kvs show ?thesis by auto
  qed
  from keys spans new show ?thesis unfolding dictSound_def by blast
qed

lemma listSound_end:
  "pindex p < length (pdata p) \<Longrightarrow> pdata p ! pindex p = 101 \<Longrightarrow>
     listSound p depth acc acc (p\<lparr>pindex := Suc (pindex p)\<rparr>)"
  by (auto simp: listSound_def Cons_nth_drop_Suc [symmetric])

lemma dictSound_end:
  "pindex p < length (pdata p) \<Longrightarrow> pdata p ! pindex p = 101 \<Longrightarrow>
     dictSound p depth prev acc acc (p\<lparr>pindex := Suc (pindex p)\<rparr>)"
  by (auto simp: dictSound_def newEntries_def Cons_nth_drop_Suc [symmetric])

lemma valueSound_list:
  assumes "listSound (p\<lparr>pindex := Suc (pindex p)\<rparr>) (depth + 1) [] vs p'"
    "pindex p < length (pdata p)" "pdata p ! pindex p = 108" "depth \<le> maxDepth p" "advances p p'"
  shows "valueSound p depth (BValue (BList vs) (int (pindex p)) (int (pindex p'))) p'"
  using assms
  by (intro valueSoundI) (auto simp: listSound_def Cons_nth_drop_Suc [symmetric] comp_def)

lemma valueSound_dict:
  assumes "dictSound (p\<lparr>pindex := Suc (pindex p)\<rparr>) (depth + 1) None [] kvs p'"
    "pindex p < length (pdata p)" "pdata p ! pindex p = 100" "depth \<le> maxDepth p" "advances p p'"
  shows "valueSound p depth (BValue (BDict kvs) (int (pindex p)) (int (pindex p'))) p'"
proof (rule valueSoundI [OF assms(5)])
  show "spansB (pdata p) (BDict kvs)" using assms(1) by (simp add: dictSound_def)
  assume "noEmptyKeys (absB (BDict kvs))"
  then have "newEntries (p\<lparr>pindex := Suc (pindex p)\<rparr>) (depth + 1) None kvs p'"
    using assms(1) unfolding noEmptyKeys_BDict by (auto simp: dictSound_def keysBefore_def)
  with assms(2-4) show "drop (pindex p) (pdata p) = encode (absB (BDict kvs)) @ drop (pindex p') (pdata p) \<and>
      canonical (maxStringLength p) (maxDepth p) (absB (BDict kvs)) depth"
    by (auto simp: newEntries_def encode_TDict Cons_nth_drop_Suc [symmetric] comp_def absEntry_def)
qed

lemma valueSound_leaf:
  assumes "advances p p'" "depth \<le> maxDepth p"
  shows "parseInteger p = Inr (n, p') \<Longrightarrow> pindex p < length (pdata p) \<Longrightarrow> pdata p ! pindex p = 105 \<Longrightarrow>
      valueSound p depth (BValue (BInt n) (int (pindex p)) (int (pindex p'))) p'"
    and "parseString p = Inr (s, p') \<Longrightarrow>
      valueSound p depth (BValue (BString s) (int (pindex p)) (int (pindex p'))) p'"
  using assms parseInteger_sound[of p n p'] parseString_sound[of p s p']
  by (auto intro!: valueSoundI)

lemma parse_sound:
  "parseValue p depth = Inr (v, p') \<Longrightarrow> valueSound p depth v p'"
  "parseListLoop p depth acc = Inr (vs, p') \<Longrightarrow> listSound p depth acc vs p'"
  "parseDictLoop p depth prev kvs = Inr (kvs', p') \<Longrightarrow> dictSound p depth prev kvs kvs' p'"
proof (induction p depth and p depth acc and p depth prev kvs
    arbitrary: v p' and vs p' and kvs' p' rule: parse_induct)
  case (1 p depth)
  let ?q = "p\<lparr>pindex := pindex p + 1\<rparr>"
  have adv: "advances p p'" by (rule parse_advances(1) [OF "1.prems"])
  have ne: "\<not> maxDepth p < depth" "\<not> length (pdata p) \<le> pindex p"
    using "1.prems" by (auto simp: parseValue.simps [of p] split: if_splits)
  have l: "listSound ?q (depth + 1) [] vs p'"
    if "parseListLoop ?q (depth + 1) [] = Inr (vs, p')" "pdata p ! pindex p = 108" for vs
    using "1.IH"(1)[OF ne refl refl _ _ that(1)] that(2) by simp
  have d: "dictSound ?q (depth + 1) None [] kvs p'"
    if "parseDictLoop ?q (depth + 1) None [] = Inr (kvs, p')" "pdata p ! pindex p = 100" for kvs
    using "1.IH"(2)[OF ne refl refl _ _ _ that(1)] that(2) by simp
  show ?case
    using "1.prems" ne adv valueSound_leaf [OF adv] valueSound_list valueSound_dict l d
    by (auto simp: parseValue.simps [of p] Let_def not_le not_less split: if_splits)
next
  case (2 p depth acc)
  have ne: "\<not> length (pdata p) \<le> pindex p"
    using "2.prems" by (auto simp: parseListLoop.simps [of p] split: if_splits)
  show ?case
  proof (cases "pdata p ! pindex p = 101")
    case True
    with "2.prems" ne listSound_end[of p depth acc] show ?thesis
      by (auto simp: parseListLoop.simps [of p])
  next
    case False
    with "2.prems" ne obtain v q where q: "parseValue p depth = Inr (v, q)"
      and l: "parseListLoop q depth (acc @ [v]) = Inr (vs, p')"
      by (auto simp: parseListLoop.simps [of p])
    from "2.IH"(1)[OF ne False q] parse_advances(1)[OF q] "2.IH"(2)[OF ne False q refl l]
    show ?thesis by (rule listSound_step)
  qed
next
  case (3 p depth prev kvs)
  have ne: "\<not> length (pdata p) \<le> pindex p"
    using "3.prems" by (auto simp: parseDictLoop.simps [of p] split: if_splits)
  show ?case
  proof (cases "pdata p ! pindex p = 101")
    case True
    with "3.prems" ne dictSound_end[of p depth prev kvs] show ?thesis
      by (auto simp: parseDictLoop.simps [of p])
  next
    case False
    with "3.prems" ne obtain key p1 v p2 where d: "\<not> \<not> isDigit (pdata p ! pindex p)"
      and k: "parseString p = Inr (key, p1)" and s: "\<not> notSorted prev key"
      and v: "parseValue p1 depth = Inr (v, p2)"
      and l: "parseDictLoop p2 depth (setPrevious prev key) (AList.update key v kvs) = Inr (kvs', p')"
      by (auto simp: parseDictLoop.simps [of p] split: if_splits sum.splits)
    show ?thesis
      by (rule dictSound_step [OF parseString_sound [OF k] parseString_advances [OF k] s
            "3.IH"(1)[OF ne False d k refl s v] parse_advances(1)[OF v]
            "3.IH"(2)[OF ne False d k refl s v refl l]])
  qed
qed

section \<open>The contract of \<open>Parse\<close>\<close>

lemma Parse_Inr:
  "Parse p = Inr (v, p') \<longleftrightarrow> parseValue p 0 = Inr (v, p') \<and> pindex p' = length (pdata p')"
  by (auto simp: Parse_def split: if_splits)

lemma Parse_NewParser_sound:
  assumes "Parse (NewParser data) = Inr (v, p')"
  shows "spansV data v" "Start v = 0" "End v = int (length data)"
    and "noEmptyKeys (absV v) \<Longrightarrow>
      data = encode (absV v) \<and> canonical DefaultMaxStringLength DefaultMaxDepth (absV v) 0"
proof -
  from assms have v: "parseValue (NewParser data) 0 = Inr (v, p')"
    and e: "pindex p' = length (pdata p')"
    by (simp_all add: Parse_Inr)
  note s = parse_sound(1)[OF v]
  have d: "pdata p' = data" using parse_advances(1)[OF v] by (simp add: advances_def NewParser_def)
  show "spansV data v" "Start v = 0" "End v = int (length data)"
    using s e d by (simp_all add: valueSound_def NewParser_def)
  assume c: "noEmptyKeys (absV v)"
  with valueSound_drop [OF s c] s e d
  show "data = encode (absV v) \<and> canonical DefaultMaxStringLength DefaultMaxDepth (absV v) 0"
    by (simp add: valueSound_def NewParser_def)
qed

lemma Parse_NewParser_complete:
  assumes "canonical DefaultMaxStringLength DefaultMaxDepth t 0"
  shows "\<exists>v p'. Parse (NewParser (encode t)) = Inr (v, p') \<and> absV v = t"
proof -
  let ?p = "NewParser (encode t)"
  have "drop (pindex ?p) (pdata ?p) = encode t @ []"
    and "canonical (maxStringLength ?p) (maxDepth ?p) t 0"
    using assms by (simp_all add: NewParser_def)
  then obtain v where "parseValue ?p 0 = Inr (v, ?p\<lparr>pindex := pindex ?p + length (encode t)\<rparr>)"
    "absV v = t"
    using parsesD [OF parse_complete] by blast
  then show ?thesis by (auto simp: Parse_Inr NewParser_def)
qed

lemma spans_dict:
  assumes "spansV data root" "Value root = BDict d" "dictGet d k = Some v"
  shows "spansV data v"
  using assms by (cases root) (auto simp: dictGet_def dest!: map_of_SomeD)

text \<open>The equations that let the simplifier run the parser on a concrete input.\<close>

lemmas parse_eval = Parse_def NewParser_def parseValue.simps parseListLoop.simps parseDictLoop.simps
  parseInteger_def parseString_def scanInteger.simps scanLength.simps isDigit_def ParseInt_def
  digitVal_def sliceOf_def Let_def notSorted_def setPrevious_def
  DefaultMaxStringLength_def DefaultMaxDepth_def

lemma parse_first:
  assumes d: "drop (pindex p) (pdata p) = encodeString [] @ encode t @ r"
    and "canonical (maxStringLength p) (maxDepth p) t depth" "0 \<le> maxStringLength p" "acc = [] \<or> (\<exists>v. acc = [([], v)])"
  shows "\<exists>v. absV v = t \<and> parseDictLoop p depth None acc =
    parseDictLoop (p\<lparr>pindex := pindex p + length (encodeEntry ([], t))\<rparr>) depth None [([], v)]"
proof -
  let ?p1 = "p\<lparr>pindex := pindex p + length (encodeString [])\<rparr>"
  have s: "parseString p = Inr ([], ?p1)" by (rule parseString_encode [OF d]) (use assms(3) in \<open>simp add: okString_def MaxInt64_def\<close>)
  have d1: "drop (pindex ?p1) (pdata ?p1) = encode t @ r" using drop_append_drop [OF d] by simp
  obtain v where v: "parseValue ?p1 depth = Inr (v, ?p1\<lparr>pindex := pindex ?p1 + length (encode t)\<rparr>)" "absV v = t"
    by (rule parsesD [OF parse_complete, of ?p1 t depth r]) (use assms(2) d1 in simp_all)
  have "pindex p < length (pdata p)" "isDigit (pdata p ! pindex p)" "pdata p ! pindex p \<noteq> 101"
    using drop_append_hd [OF d] isDigit_hd_encodeString [of "[]"] by (auto dest: isDigit_neq)
  with s v assms(4) show ?thesis
    by (intro exI [of _ v]) (auto simp: parseDictLoop.simps [of p] not_le notSorted_def setPrevious_def add.assoc)
qed

text \<open>A dictionary that opens with entries for the empty key: the last of them stays.\<close>

lemma parseDictLoop_empties:
  assumes "ts \<noteq> []" "\<forall>t\<in>set ts. canonical (maxStringLength p) (maxDepth p) t d"
    and "acc = [] \<or> (\<exists>v. acc = [([], v)])" "0 \<le> maxStringLength p"
    and "drop (pindex p) (pdata p) = concat (map (\<lambda>t. encodeEntry ([], t)) ts) @ r"
  shows "\<exists>v. absV v = last ts \<and> parseDictLoop p d None acc =
    parseDictLoop (p\<lparr>pindex := pindex p + length (concat (map (\<lambda>t. encodeEntry ([], t)) ts))\<rparr>) d None [([], v)]"
  using assms
proof (induction ts arbitrary: p acc rule: list_nonempty_induct)
  case (single t)
  have d: "drop (pindex p) (pdata p) = encodeString [] @ encode t @ r" using single(4) by simp
  from parse_first [OF d _ _ single(2)] single(1,3) show ?case by auto
next
  case (cons t ts)
  let ?r = "concat (map (\<lambda>t. encodeEntry ([], t)) ts) @ r"
  have d: "drop (pindex p) (pdata p) = encodeString [] @ encode t @ ?r" using cons.prems(4) by simp
  from parse_first [OF d _ _ cons.prems(2)] cons.prems(1,3) obtain v where
    v: "parseDictLoop p d None acc = parseDictLoop (p\<lparr>pindex := pindex p + length (encodeEntry ([], t))\<rparr>) d None [([], v)]" by auto
  let ?q = "p\<lparr>pindex := pindex p + length (encodeEntry ([], t))\<rparr>"
  have "drop (pindex ?q) (pdata ?q) = ?r" using drop_append_drop [of "pindex p" "pdata p" "encodeEntry ([], t)" ?r] d by simp
  from cons.IH [of ?q "[([], v)]", OF _ _ _ this] cons.prems(1,3) v cons.hyps show ?case by (auto simp: add.assoc)
qed

lemma parse_empties:
  assumes "ts \<noteq> []" "\<forall>t\<in>set ts. canonical DefaultMaxStringLength DefaultMaxDepth t 1"
    and "canonical DefaultMaxStringLength DefaultMaxDepth (TDict kts) 0" "[] \<notin> fst ` set kts"
  shows "\<exists>v p'. Parse (NewParser (100 # concat (map (\<lambda>t. encodeEntry ([], t)) ts) @ concat (map encodeEntry kts) @ [101])) =
    Inr (v, p') \<and> absV v = TDict (([], last ts) # kts)"
proof -
  let ?es = "concat (map (\<lambda>t. encodeEntry ([], t)) ts)" and ?r = "concat (map encodeEntry kts) @ [101]"
  let ?p = "NewParser (100 # ?es @ ?r)"
  let ?q = "?p\<lparr>pindex := Suc (pindex ?p)\<rparr>"
  let ?q' = "?q\<lparr>pindex := pindex ?q + length ?es\<rparr>"
  obtain v where v: "absV v = last ts" "parseDictLoop ?q 1 None [] = parseDictLoop ?q' 1 None [([], v)]"
    using parseDictLoop_empties [of ts ?q 1 "[]" ?r] assms(1,2)
    by (auto simp: NewParser_def DefaultMaxStringLength_def)
  have d: "drop (pindex ?q') (pdata ?q') = concat (map encodeEntry kts) @ 101 # []"
    by (simp add: NewParser_def)
  have "\<forall>(k, t)\<in>set kts. parses t \<and> canonical (maxStringLength ?q') (maxDepth ?q') t 1 \<and> okString (maxStringLength ?q') k"
    "sorted_wrt (<) (map fst kts)"
    using assms(3) parse_complete by (fastforce simp: NewParser_def)+
  moreover have "\<forall>k\<in>fst ` set kts. (\<forall>k'\<in>fst ` set [([], v)]. k' < k) \<and> \<not> notSorted None k"
    using assms(4) by (auto simp: notSorted_def) (metis Nil_less_Cons list.exhaust image_eqI fst_conv)
  ultimately obtain kvs where kvs: "parseDictLoop ?q' 1 None [([], v)] =
      Inr ([([], v)] @ kvs, ?q'\<lparr>pindex := pindex ?q' + length (concat (map encodeEntry kts)) + 1\<rparr>)" "map absEntry kvs = kts"
    using parseDictLoop_complete [OF _ _ _ d] by blast
  have "\<exists>w. parseValue ?p 0 = Inr (w, ?q'\<lparr>pindex := length (pdata ?p)\<rparr>) \<and> absV w = TDict (([], last ts) # kts)"
  proof -
    let ?e = "?q'\<lparr>pindex := pindex ?q' + length (concat (map encodeEntry kts)) + 1\<rparr>"
    have l: "parseDictLoop (?p\<lparr>pindex := pindex ?p + 1\<rparr>) (0 + 1) None [] = Inr (([], v) # kvs, ?e)" using v(2) kvs(1) by simp
    have start: "pindex ?p < length (pdata ?p)" "pdata ?p ! pindex ?p = 100" "0 \<le> maxDepth ?p"
      by (simp_all add: NewParser_def DefaultMaxDepth_def)
    have "parseValue ?p 0 = Inr (BValue (BDict (([], v) # kvs)) (int (pindex ?p)) (int (pindex ?e)), ?e)"
      unfolding parseValue.simps [of ?p] using start l by (simp add: Let_def)
    moreover have "?e = ?q'\<lparr>pindex := length (pdata ?p)\<rparr>" by (simp add: NewParser_def)
    ultimately show ?thesis using v(1) kvs(2) by (auto simp: absEntry_def)
  qed
  then show ?thesis by (auto simp: Parse_Inr NewParser_def)
qed

section \<open>Properties\<close>

text \<open>
  C10. Among values without empty dictionary keys, \<open>Parse\<close> accepts exactly the canonical encodings:
  an input is parsed into a value with contents \<open>t\<close> if and only if \<open>t\<close> respects the limits on
  integers, strings, depth and key order and the input is, byte for byte, the encoding of \<open>t\<close>.
\<close>

theorem Parse_iff_canonical:
  assumes "noEmptyKeys t"
  shows "(\<exists>v p'. Parse (NewParser data) = Inr (v, p') \<and> absV v = t) \<longleftrightarrow>
    canonical DefaultMaxStringLength DefaultMaxDepth t 0 \<and> data = encode t"
  using assms Parse_NewParser_sound(4) Parse_NewParser_complete by blast

theorem Parse_iff_canonical_witness:
  "noEmptyKeys (TDict [(str ''a'', TInt (- 42)), (str ''b'', TList [TString (str ''x'')])]) \<and>
   (\<exists>v p'. Parse (NewParser (str ''d1:ai-42e1:bl1:xee'')) = Inr (v, p') \<and>
      absV v = TDict [(str ''a'', TInt (- 42)), (str ''b'', TList [TString (str ''x'')])])"
proof -
  let ?t = "TDict [(str ''a'', TInt (- 42)), (str ''b'', TList [TString (str ''x'')])]"
  have c: "noEmptyKeys ?t" by simp
  have "canonical DefaultMaxStringLength DefaultMaxDepth ?t 0" by code_simp
  moreover have "str ''d1:ai-42e1:bl1:xee'' = encode ?t" by code_simp
  ultimately show ?thesis
    using c Parse_iff_canonical [OF c, of "str ''d1:ai-42e1:bl1:xee''"] by blast
qed

text \<open>
  C25. For every input that \<open>Parse\<close> accepts, the positions are right: the root spans the whole
  input, every nested value is a non-empty range of the input, and every integer is an \<open>int64\<close>. The range
  of a value in which no dictionary has an empty key holds, byte for byte, the canonical encoding of that value;
  of a value with an empty key this is not claimed, since the parser lets such a key be repeated.
\<close>

theorem Parse_spans:
  assumes "Parse (NewParser data) = Inr (v, p')"
  shows "spansV data v \<and> Start v = 0 \<and> End v = int (length data)"
  using Parse_NewParser_sound(1-3)[OF assms] by blast

theorem Parse_spans_witness:
  "\<exists>v p'. Parse (NewParser (str ''li7ee'')) = Inr (v, p') \<and> spansV (str ''li7ee'') v"
proof -
  have "Parse (NewParser (str ''li7ee'')) =
      Inr (BValue (BList [BValue (BInt 7) 1 4]) 0 5, (NewParser (str ''li7ee''))\<lparr>pindex := 5\<rparr>)"
    by (simp add: parse_eval cong: andThen_weak_cong)
  with Parse_spans [OF this] show ?thesis by blast
qed

text \<open>
  C24. \<open>ExtractInfoHash\<close> of a parsed metainfo file never fails on an \<open>info\<close> value that the parser has found: it
  is the SHA-1 of exactly the bytes of the input that the parser has read as that value, whatever surrounds it.
  When no dictionary inside it has an empty key, these bytes are the value's canonical encoding, so that equal
  \<open>info\<close> values have equal hashes in different files.
\<close>

theorem ExtractInfoHash_canonical:
  assumes "Parse (NewParser raw) = Inr (root, p')" "Value root = BDict d"
    and "dictGet d (str ''info'') = Some info"
  shows "\<exists>i j. Start info = int i \<and> End info = int j \<and> i < j \<and> j \<le> length raw \<and>
    ExtractInfoHash (Some root) raw = Inr (sha1 (sliceOf raw i j)) \<and>
    (noEmptyKeys (absV info) \<longrightarrow> sliceOf raw i j = encode (absV info))"
proof -
  have "spansV raw info" by (rule spans_dict [OF Parse_NewParser_sound(1) [OF assms(1)] assms(2,3)])
  then show ?thesis
    using assms by (cases info, intro exI [of _ "nat (Start info)"] exI [of _ "nat (End info)"])
      (auto simp: ExtractInfoHash_def)
qed

theorem ExtractInfoHash_canonical_witness:
  "\<exists>root. ExtractInfoHash (Some root) (str ''d4:infod4:name1:xee'') = Inr (sha1 (str ''d4:name1:xe''))"
proof -
  let ?raw = "str ''d4:infod4:name1:xee''"
  let ?info = "BValue (BDict [(str ''name'', BValue (BString (str ''x'')) 14 17)]) 7 18"
  let ?root = "BValue (BDict [(str ''info'', ?info)]) 0 19"
  have p: "Parse (NewParser ?raw) = Inr (?root, (NewParser ?raw)\<lparr>pindex := 19\<rparr>)"
    by (simp add: parse_eval cong: andThen_weak_cong)
  have "encode (absV ?info) = str ''d4:name1:xe''" "noEmptyKeys (absV ?info)"
    by code_simp+
  with ExtractInfoHash_canonical [OF p, of "[(str ''info'', ?info)]" ?info]
  have "ExtractInfoHash (Some ?root) ?raw = Inr (sha1 (str ''d4:name1:xe''))"
    by (auto simp: dictGet_def)
  then show ?thesis by blast
qed

text \<open>
  C40. The check for strictly sorted keys misses exactly what the comparison with a nil slice cannot see: a
  dictionary may open with any number of entries for the empty key. \<open>Parse\<close> accepts them all, whatever their
  values and whatever sorted entries follow, and the last one wins; when there is more than one, the input is not
  the canonical encoding of anything.
\<close>

theorem duplicate_empty_key:
  assumes "2 \<le> length ts" "\<forall>t\<in>set ts. canonical DefaultMaxStringLength DefaultMaxDepth t 1"
    and "canonical DefaultMaxStringLength DefaultMaxDepth (TDict kts) 0" "[] \<notin> fst ` set kts"
  defines "input \<equiv> 100 # concat (map (\<lambda>t. encodeEntry ([], t)) ts) @ concat (map encodeEntry kts) @ [101]"
  shows "(\<exists>v p'. Parse (NewParser input) = Inr (v, p') \<and> absV v = TDict (([], last ts) # kts)) \<and>
    (\<forall>t. canonical DefaultMaxStringLength DefaultMaxDepth t 0 \<longrightarrow> encode t \<noteq> input)"
proof -
  have ne: "ts \<noteq> []" using assms(1) by auto
  from parse_empties [OF ne assms(2-4)] obtain v p' where
    v: "Parse (NewParser input) = Inr (v, p')" "absV v = TDict (([], last ts) # kts)" unfolding input_def by blast
  have "encode t \<noteq> input" if c: "canonical DefaultMaxStringLength DefaultMaxDepth t 0" for t
  proof
    assume e: "encode t = input"
    with Parse_NewParser_complete [OF c] v have "t = TDict (([], last ts) # kts)" by auto
    then have "encode t = 100 # encodeEntry ([], last ts) @ concat (map encodeEntry kts) @ [101]" by (simp add: encode_TDict)
    moreover have "map (\<lambda>t. encodeEntry ([], t)) ts = map (\<lambda>t. encodeEntry ([], t)) (butlast ts) @ [encodeEntry ([], last ts)]"
      using ne by (cases ts rule: rev_cases) simp_all
    ultimately have "concat (map (\<lambda>t. encodeEntry ([], t)) (butlast ts)) = []"
      using e unfolding input_def by simp
    moreover have "butlast ts \<noteq> []" using assms(1) by (cases ts rule: rev_cases) auto
    ultimately show False using hd_encode by (cases "butlast ts") auto
  qed
  with v show ?thesis by blast
qed

theorem duplicate_empty_key_witness:
  "\<exists>v p'. Parse (NewParser (str ''d0:i1e0:i2e1:ai3ee'')) = Inr (v, p') \<and> absV v = TDict [([], TInt 2), (str ''a'', TInt 3)]"
proof -
  have "canonical DefaultMaxStringLength DefaultMaxDepth (TInt 1) 1" "canonical DefaultMaxStringLength DefaultMaxDepth (TInt 2) 1"
    "canonical DefaultMaxStringLength DefaultMaxDepth (TDict [(str ''a'', TInt 3)]) 0"
    by code_simp+
  moreover have "100 # concat (map (\<lambda>t. encodeEntry ([], t)) [TInt 1, TInt 2]) @
      concat (map encodeEntry [(str ''a'', TInt 3)]) @ [101] = str ''d0:i1e0:i2e1:ai3ee''" by code_simp
  moreover have "[] \<noteq> str ''a''" by simp
  ultimately show ?thesis
    using duplicate_empty_key [of "[TInt 1, TInt 2]" "[(str ''a'', TInt 3)]"]
    by (simp del: canonical.simps list.map concat.simps append.simps str_Nil str_Cons)
qed

end
