(* ===== verification/GoStrings.thy ===== *)
theory GoStrings
  imports Prelude "HOL-Library.Sublist"
begin

text \<open>
  What the program uses of the Go packages \<open>strings\<close>, \<open>unicode/utf8\<close> and \<open>unicode\<close>: validity and
  decoding of UTF-8, \<open>ToLower\<close> and \<open>ToUpper\<close>, \<open>IsControl\<close>, \<open>Join\<close>, \<open>HasPrefix\<close>, \<open>HasSuffix\<close> and
  \<open>ContainsAny\<close>. The case tables of \<open>unicode\<close> for code points above 127 are a parameter, a record
  \<open>unicode\<close> of the two mappings; the ASCII part of the mappings is written out.
\<close>

section \<open>UTF-8\<close>

type_synonym rune = nat

definition cont :: "byte \<Rightarrow> bool" where
  "cont b \<longleftrightarrow> 0x80 \<le> b \<and> b \<le> 0xBF"

definition low6 :: "byte \<Rightarrow> nat" where
  "low6 b = unat b mod 64"

text \<open>
  \<open>decodeRune\<close>: the first code point of a string with the remaining bytes, following the table of
  accepted ranges of \<open>unicode/utf8\<close>; \<open>None\<close> where the encoding is invalid.
\<close>

fun decodeRune :: "bytes \<Rightarrow> (rune \<times> bytes) option" where
  "decodeRune [] = None"
| "decodeRune (a # s) =
     (if a < 0x80 then Some (unat a, s)
      else case s of
        b # s1 \<Rightarrow>
          if 0xC2 \<le> a \<and> a \<le> 0xDF \<and> cont b
          then Some (unat a mod 32 * 64 + low6 b, s1)
          else (case s1 of
            c # s2 \<Rightarrow>
              if 0xE0 \<le> a \<and> a \<le> 0xEF \<and> cont b \<and> (a = 0xE0 \<longrightarrow> 0xA0 \<le> b) \<and>
                 (a = 0xED \<longrightarrow> b \<le> 0x9F) \<and> cont c
              then Some (unat a mod 16 * 4096 + low6 b * 64 + low6 c, s2)
              else (case s2 of
                d # s3 \<Rightarrow>
                  if 0xF0 \<le> a \<and> a \<le> 0xF4 \<and> cont b \<and> (a = 0xF0 \<longrightarrow> 0x90 \<le> b) \<and>
                     (a = 0xF4 \<longrightarrow> b \<le> 0x8F) \<and> cont c \<and> cont d
                  then Some (unat a mod 8 * 262144 + low6 b * 4096 + low6 c * 64 + low6 d, s3)
                  else None
              | [] \<Rightarrow> None)
          | [] \<Rightarrow> None)
      | [] \<Rightarrow> None)"

lemma decodeRune_shorter: "decodeRune s = Some (r, s') \<Longrightarrow> length s' < length s"
  by (cases s) (auto split: list.splits if_splits)

function decodeAll :: "bytes \<Rightarrow> rune list option" where
  "decodeAll s =
     (if s = [] then Some []
      else case decodeRune s of
        None \<Rightarrow> None
      | Some (r, s') \<Rightarrow> map_option (\<lambda>rs. r # rs) (decodeAll s'))"
  by pat_completeness auto
termination by (relation "measure length") (auto dest: decodeRune_shorter)

declare decodeAll.simps [simp del]

definition ValidString :: "bytes \<Rightarrow> bool" where
  "ValidString s \<longleftrightarrow> decodeAll s \<noteq> None"

text \<open>The runes of a valid string, as \<open>for _, r := range s\<close> visits them.\<close>

definition runes :: "bytes \<Rightarrow> rune list" where
  "runes s = (case decodeAll s of None \<Rightarrow> [] | Some rs \<Rightarrow> rs)"

text \<open>\<open>utf8.AppendRune\<close>; surrogates and values above 0x10FFFF become the replacement rune U+FFFD.\<close>

definition encodeRune :: "rune \<Rightarrow> bytes" where
  "encodeRune r =
     (let q = (if 0xD800 \<le> r \<and> r < 0xE000 \<or> 0x110000 \<le> r then 0xFFFD else r)
      in if q < 0x80 then [of_nat q]
         else if q < 0x800 then [of_nat (0xC0 + q div 64), of_nat (0x80 + q mod 64)]
         else if q < 0x10000 then
           [of_nat (0xE0 + q div 4096), of_nat (0x80 + q div 64 mod 64), of_nat (0x80 + q mod 64)]
         else
           [of_nat (0xF0 + q div 262144), of_nat (0x80 + q div 4096 mod 64),
            of_nat (0x80 + q div 64 mod 64), of_nat (0x80 + q mod 64)])"

definition IsControl :: "rune \<Rightarrow> bool" where
  "IsControl r \<longleftrightarrow> r < 32 \<or> 127 \<le> r \<and> r < 160"

section \<open>Letter case\<close>

record unicode =
  uniLower :: "rune \<Rightarrow> rune"
  uniUpper :: "rune \<Rightarrow> rune"

definition lowerRune :: "unicode \<Rightarrow> rune \<Rightarrow> rune" where
  "lowerRune u r = (if r < 128 then if 65 \<le> r \<and> r \<le> 90 then r + 32 else r else uniLower u r)"

definition upperRune :: "unicode \<Rightarrow> rune \<Rightarrow> rune" where
  "upperRune u r = (if r < 128 then if 97 \<le> r \<and> r \<le> 122 then r - 32 else r else uniUpper u r)"

text \<open>\<open>strings.ToLower\<close> and \<open>strings.ToUpper\<close> on valid UTF-8.\<close>

definition ToLower :: "unicode \<Rightarrow> bytes \<Rightarrow> bytes" where
  "ToLower u s = concat (map (\<lambda>r. encodeRune (lowerRune u r)) (runes s))"

definition ToUpper :: "unicode \<Rightarrow> bytes \<Rightarrow> bytes" where
  "ToUpper u s = concat (map (\<lambda>r. encodeRune (upperRune u r)) (runes s))"

section \<open>Searching and joining\<close>

definition HasPrefix :: "bytes \<Rightarrow> bytes \<Rightarrow> bool" where
  "HasPrefix s p \<longleftrightarrow> take (length p) s = p"

definition HasSuffix :: "bytes \<Rightarrow> bytes \<Rightarrow> bool" where
  "HasSuffix s p \<longleftrightarrow> length p \<le> length s \<and> drop (length s - length p) s = p"

text \<open>\<open>ContainsAny\<close> for a set of ASCII characters; in UTF-8 it is a search for bytes.\<close>

definition ContainsAny :: "bytes \<Rightarrow> bytes \<Rightarrow> bool" where
  "ContainsAny s chars \<longleftrightarrow> list_ex (\<lambda>b. b \<in> set chars) s"

fun Join :: "bytes list \<Rightarrow> bytes \<Rightarrow> bytes" where
  "Join [] sep = []"
| "Join [s] sep = s"
| "Join (s # t # ss) sep = s @ sep @ Join (t # ss) sep"

lemma HasPrefix_iff: "HasPrefix s p \<longleftrightarrow> (\<exists>t. s = p @ t)"
  by (metis HasPrefix_def append_eq_conv_conj append_take_drop_id)

lemma HasSuffix_snoc [simp]: "HasSuffix (s @ [b]) [c] \<longleftrightarrow> b = c"
  by (simp add: HasSuffix_def)

lemma HasSuffix_Nil [simp]: "\<not> HasSuffix [] [c]"
  by (simp add: HasSuffix_def)

lemma ContainsAny_iff: "ContainsAny s chars \<longleftrightarrow> set s \<inter> set chars \<noteq> {}"
  by (auto simp: ContainsAny_def list_ex_iff)

section \<open>Decoding across an ASCII byte\<close>

lemma decodeAll_Nil [simp]: "decodeAll [] = Some []"
  by (simp add: decodeAll.simps)

lemma decodeAll_ascii [simp]:
  "a < 0x80 \<Longrightarrow> decodeAll (a # s) = map_option (\<lambda>rs. unat a # rs) (decodeAll s)"
  by (simp add: decodeAll.simps [of "a # s"])

lemma decodeRune_append:
  assumes "decodeRune s = Some (r, s')"
  shows "decodeRune (s @ t) = Some (r, s' @ t)"
proof -
  obtain a s0 where s: "s = a # s0" using assms by (cases s) auto
  show ?thesis
  proof (cases "a < 0x80")
    case True
    with assms s show ?thesis by simp
  next
    case False
    with assms s obtain b s1 where s0: "s0 = b # s1" by (cases s0) auto
    show ?thesis
    proof (cases "0xC2 \<le> a \<and> a \<le> 0xDF \<and> cont b")
      case True
      with assms s s0 False show ?thesis by simp
    next
      case two: False
      from assms False two have "s1 \<noteq> []" unfolding s s0 by (intro notI) simp
      then obtain c s2 where s1: "s1 = c # s2" by (cases s1) auto
      show ?thesis
      proof (cases "0xE0 \<le> a \<and> a \<le> 0xEF \<and> cont b \<and> (a = 0xE0 \<longrightarrow> 0xA0 \<le> b) \<and>
          (a = 0xED \<longrightarrow> b \<le> 0x9F) \<and> cont c")
        case True
        with assms False two show ?thesis unfolding s s0 s1 by (simp only: decodeRune.simps append_Cons list.case if_False if_True) simp
      next
        case three: False
        from assms False two three have "s2 \<noteq> []" unfolding s s0 s1 
          by (intro notI) (simp only: decodeRune.simps list.case if_False option.distinct)
        then obtain d s3 where s2: "s2 = d # s3" by (cases s2) auto
        from assms False two three show ?thesis
          unfolding s s0 s1 s2
          by (simp only: decodeRune.simps append_Cons list.case if_False split: if_splits) simp_all
      qed
    qed
  qed
qed

lemma decodeAll_append:
  "decodeAll s = Some rs \<Longrightarrow> decodeAll (s @ t) = map_option (\<lambda>ts. rs @ ts) (decodeAll t)"
proof (induction s arbitrary: rs rule: decodeAll.induct)
  case (1 s)
  show ?case
  proof (cases "s = []")
    case True
    with "1.prems" show ?thesis by (cases "decodeAll t") auto
  next
    case False
    with "1.prems" obtain r s' qs where d: "decodeRune s = Some (r, s')"
      and q: "decodeAll s' = Some qs" and rs: "rs = r # qs"
      by (auto simp: decodeAll.simps [of s] split: option.splits)
    have "decodeAll (s @ t) = map_option (\<lambda>ts. r # ts) (decodeAll (s' @ t))"
      using decodeRune_append [OF d] False by (simp add: decodeAll.simps [of "s @ t"])
    also have "decodeAll (s' @ t) = map_option (\<lambda>ts. qs @ ts) (decodeAll t)"
      by (rule "1.IH" [OF False d refl q])
    finally show ?thesis by (simp add: rs option.map_comp comp_def)
  qed
qed

end
