(* ===== verification/Metainfo.thy ===== *)
theory Metainfo
  imports Bencode GoStrings
begin

text \<open>
  \<open>internal/torrent/metadata.go\<close>: from a parsed metainfo file to a \<open>TorrentMeta\<close>.

  Every error return of \<open>ExtractMeta\<close> and its helpers is a constructor of \<open>metaError\<close>. The loops over
  announce tiers, files and path components are recursive functions that stop at the first error, as
  the loops return. Path components are checked as on Unix, where \<open>filepath.IsAbs\<close> is "starts with a
  slash" and \<open>filepath.VolumeName\<close> is empty; \<open>int\<close> has 64 bits. The functions that fold letter case
  take the tables of package \<open>unicode\<close> as their argument \<open>u\<close>.
\<close>

section \<open>Errors and data\<close>

datatype pathError =
    PathEmptyOrRelative
  | PathInvalidUTF8
  | PathControlCharacter
  | PathSeparatorOrNUL
  | PathAbsoluteOrVolume
  | PathWindowsUnsafeSuffix
  | PathReservedDevice

datatype metaError =
    MetaRootNil
  | MetaRootErr bencodeError
  | AnnounceErr bencodeError
  | AnnounceListErr bencodeError
  | TierErr nat bencodeError
  | TierEntryErr nat nat bencodeError
  | NoTrackerURL
  | MissingInfoDictionary
  | InfoErr bencodeError
  | MissingKey bytes
  | KeyErr bytes bencodeError
  | InvalidName pathError
  | PieceLengthOutOfRange
  | PiecesNotDivisible nat
  | BothLengthAndFiles
  | NegativeLength
  | PieceCountMismatch int int
  | InfoHashErr bencodeError
  | FilesErr bencodeError
  | NoFiles
  | FileErr nat bencodeError
  | FileLengthErr nat metaError
  | FileNegativeLength nat
  | FileMissingPath nat
  | FileInvalidPath nat
  | ComponentErr nat nat bencodeError
  | ComponentPathErr nat nat pathError
  | DuplicateFilePath "bytes list"
  | TotalLengthOverflow
  | FileAlsoDirectory

record FileInfo =
  fileLength :: int
  filePath :: "bytes list"

record TorrentMeta =
  Announce :: bytes
  AnnounceList :: "bytes list list"
  Name :: bytes
  Length :: int
  PieceLength :: int
  Pieces :: "bytes list"
  InfoHash :: bytes
  Files :: "FileInfo list"
  MultiFile :: bool

definition MaxPieceLength :: int where "MaxPieceLength = 64 * 2 ^ 20"

definition sha1Size :: nat where "sha1Size = 20"

section \<open>Trackers\<close>

text \<open>The closure \<open>add\<close> of \<open>TrackerURLs\<close>, on the state \<open>(seen, urls)\<close>.\<close>

definition addURL :: "bytes set \<times> bytes list \<Rightarrow> bytes \<Rightarrow> bytes set \<times> bytes list" where
  "addURL st raw =
     (case st of (seen, urls) \<Rightarrow>
        if raw = [] then (seen, urls)
        else if raw \<in> seen then (seen, urls)
        else (insert raw seen, urls @ [raw]))"

definition TrackerURLs :: "TorrentMeta \<Rightarrow> bytes list" where
  "TrackerURLs m =
     snd (foldl (\<lambda>st tier. foldl addURL st tier) (addURL ({}, []) (Announce m)) (AnnounceList m))"

fun extractTier :: "nat \<Rightarrow> nat \<Rightarrow> bvalue list \<Rightarrow> metaError + bytes list" where
  "extractTier i j [] = Inr []"
| "extractTier i j (trackerValue # rest) =
     andThen (wrapErr (TierEntryErr i j) (AsString trackerValue)) (\<lambda>trackerURL.
     andThen (extractTier i (Suc j) rest) (\<lambda>tier.
       Inr (if trackerURL \<noteq> [] then trackerURL # tier else tier)))"

fun extractTiers :: "nat \<Rightarrow> bvalue list \<Rightarrow> metaError + bytes list list" where
  "extractTiers i [] = Inr []"
| "extractTiers i (tierValue # rest) =
     andThen (wrapErr (TierErr i) (AsList tierValue)) (\<lambda>tierList.
     andThen (extractTier i 0 tierList) (\<lambda>tier.
     andThen (extractTiers (Suc i) rest) (\<lambda>result.
       Inr (if tier \<noteq> [] then tier # result else result))))"

definition extractAnnounceList :: "bdict \<Rightarrow> metaError + bytes list list" where
  "extractAnnounceList root =
     (case dictGet root (str ''announce-list'') of
        None \<Rightarrow> Inr []
      | Some value \<Rightarrow>
          andThen (wrapErr AnnounceListErr (AsList value)) (\<lambda>tiers. extractTiers 0 tiers))"

section \<open>Path components\<close>

definition IsAbs :: "bytes \<Rightarrow> bool" where
  "IsAbs s \<longleftrightarrow> HasPrefix s (str ''/'')"

definition VolumeName :: "bytes \<Rightarrow> bytes" where
  "VolumeName s = []"

text \<open>\<open>strings.SplitN(s, ".", 2)[0]\<close>.\<close>

definition beforeDot :: "bytes \<Rightarrow> bytes" where
  "beforeDot s = takeWhile (\<lambda>b. b \<noteq> 46) s"

definition reservedStem :: "bytes \<Rightarrow> bool" where
  "reservedStem stem \<longleftrightarrow>
     stem = str ''CON'' \<or> stem = str ''PRN'' \<or> stem = str ''AUX'' \<or> stem = str ''NUL'' \<or>
     (length stem = 4 \<and> (HasPrefix stem (str ''COM'') \<or> HasPrefix stem (str ''LPT'')) \<and>
      49 \<le> stem ! 3 \<and> stem ! 3 \<le> 57)"

definition ValidatePathComponent :: "unicode \<Rightarrow> bytes \<Rightarrow> pathError + unit" where
  "ValidatePathComponent u component =
     (if component = [] \<or> component = str ''.'' \<or> component = str ''..''
      then Inl PathEmptyOrRelative
      else if \<not> ValidString component then Inl PathInvalidUTF8
      else if list_ex IsControl (runes component) then Inl PathControlCharacter
      else if ContainsAny component [0] \<or> ContainsAny component [47, 92, 92]
      then Inl PathSeparatorOrNUL
      else if ContainsAny component [58, 60, 62, 34, 124, 63, 42] \<or> IsAbs component
              \<or> VolumeName component \<noteq> []
      then Inl PathAbsoluteOrVolume
      else if HasSuffix component (str '' '') \<or> HasSuffix component (str ''.'')
      then Inl PathWindowsUnsafeSuffix
      else if reservedStem (ToUpper u (beforeDot component)) then Inl PathReservedDevice
      else Inr ())"

section \<open>Required keys and numbers\<close>

definition requiredString :: "bdict \<Rightarrow> bytes \<Rightarrow> metaError + bytes" where
  "requiredString dict key =
     (case dictGet dict key of
        None \<Rightarrow> Inl (MissingKey key)
      | Some value \<Rightarrow> wrapErr (KeyErr key) (AsString value))"

definition requiredBytes :: "bdict \<Rightarrow> bytes \<Rightarrow> metaError + bytes" where
  "requiredBytes dict key =
     (case dictGet dict key of
        None \<Rightarrow> Inl (MissingKey key)
      | Some value \<Rightarrow> wrapErr (KeyErr key) (AsBytes value))"

definition requiredInt64 :: "bdict \<Rightarrow> bytes \<Rightarrow> metaError + int" where
  "requiredInt64 dict key =
     (case dictGet dict key of
        None \<Rightarrow> Inl (MissingKey key)
      | Some value \<Rightarrow> wrapErr (KeyErr key) (AsInt64 value))"

definition boolToInt64 :: "bool \<Rightarrow> int" where
  "boolToInt64 value = (if value then 1 else 0)"

definition pieceCount :: "int \<Rightarrow> int \<Rightarrow> int" where
  "pieceCount len pieceLen =
     (if len = 0 then 0
      else i64 (len sdiv pieceLen + boolToInt64 (len smod pieceLen \<noteq> 0)))"

definition maxInt :: int where "maxInt = MaxInt64"

section \<open>Files\<close>

fun extractComponents :: "unicode \<Rightarrow> nat \<Rightarrow> nat \<Rightarrow> bvalue list \<Rightarrow> metaError + bytes list" where
  "extractComponents u i j [] = Inr []"
| "extractComponents u i j (componentValue # rest) =
     andThen (wrapErr (ComponentErr i j) (AsString componentValue)) (\<lambda>component.
     andThen (wrapErr (ComponentPathErr i j) (ValidatePathComponent u component)) (\<lambda>_.
     andThen (extractComponents u i (Suc j) rest) (\<lambda>components.
       Inr (component # components))))"

definition pathKey :: "unicode \<Rightarrow> bytes list \<Rightarrow> bytes" where
  "pathKey u components = ToLower u (Join components [0])"

definition extractPath :: "unicode \<Rightarrow> nat \<Rightarrow> bdict \<Rightarrow> metaError + bytes list" where
  "extractPath u i dict =
     (case dictGet dict (str ''path'') of
        None \<Rightarrow> Inl (FileMissingPath i)
      | Some pathValue \<Rightarrow>
          (case AsList pathValue of
             Inl _ \<Rightarrow> Inl (FileInvalidPath i)
           | Inr pathList \<Rightarrow>
               if pathList = [] then Inl (FileInvalidPath i)
               else extractComponents u i 0 pathList))"

definition extractFile :: "unicode \<Rightarrow> nat \<Rightarrow> bvalue \<Rightarrow> metaError + FileInfo" where
  "extractFile u i fileValue =
     andThen (wrapErr (FileErr i) (AsDict fileValue)) (\<lambda>dict.
     andThen (wrapErr (FileLengthErr i) (requiredInt64 dict (str ''length''))) (\<lambda>len.
     andThen (guardR (\<not> len < 0) (FileNegativeLength i)) (\<lambda>_.
     andThen (extractPath u i dict) (\<lambda>components.
       Inr \<lparr>fileLength = len, filePath = components\<rparr>))))"

text \<open>
  The loop over the files, with its variables \<open>seen\<close> (the keys of the map), \<open>pathKeys\<close>, \<open>total\<close> (here \<open>tot\<close>) and
  \<open>files\<close>.
\<close>

fun extractFilesLoop :: "unicode \<Rightarrow> nat \<Rightarrow> bytes set \<Rightarrow> bytes list \<Rightarrow> int \<Rightarrow> FileInfo list \<Rightarrow>
    bvalue list \<Rightarrow> metaError + (bytes list \<times> int \<times> FileInfo list)" where
  "extractFilesLoop u i seen pathKeys tot files [] = Inr (pathKeys, tot, files)"
| "extractFilesLoop u i seen pathKeys tot files (fileValue # rest) =
     andThen (extractFile u i fileValue) (\<lambda>info.
       let key = pathKey u (filePath info)
       in if key \<in> seen then Inl (DuplicateFilePath (filePath info))
          else if i64 (MaxInt64 - tot) < fileLength info then Inl TotalLengthOverflow
          else extractFilesLoop u (Suc i) (insert key seen) (pathKeys @ [key])
                 (i64 (tot + fileLength info)) (files @ [info]) rest)"

text \<open>The scan of the sorted keys for a key that, followed by NUL, is a prefix of the next one.\<close>

fun prefixConflict :: "bytes list \<Rightarrow> bool" where
  "prefixConflict (a # b # ks) \<longleftrightarrow> HasPrefix b (a @ [0]) \<or> prefixConflict (b # ks)"
| "prefixConflict _ \<longleftrightarrow> False"

definition extractFiles :: "unicode \<Rightarrow> bvalue \<Rightarrow> metaError + (FileInfo list \<times> int)" where
  "extractFiles u value =
     andThen (wrapErr FilesErr (AsList value)) (\<lambda>list.
     if list = [] then Inl NoFiles
     else andThen (extractFilesLoop u 0 {} [] 0 [] list) (\<lambda>(pathKeys, tot, files).
       if prefixConflict (sort pathKeys) then Inl FileAlsoDirectory
       else Inr (files, tot)))"

section \<open>\<open>ExtractMeta\<close>\<close>

definition splitPieces :: "bytes \<Rightarrow> nat \<Rightarrow> bytes list" where
  "splitPieces pieceBytes n =
     map (\<lambda>i. sliceOf pieceBytes (i * sha1Size) ((i + 1) * sha1Size)) [0..<n]"

definition extractAnnounce :: "bdict \<Rightarrow> metaError + bytes" where
  "extractAnnounce rootDict =
     (case dictGet rootDict (str ''announce'') of
        None \<Rightarrow> Inr []
      | Some announceValue \<Rightarrow> wrapErr AnnounceErr (AsString announceValue))"

text \<open>The \<open>files\<close> / \<open>length\<close> alternative: whether there are several files, the files, the length.\<close>

definition extractLayout :: "unicode \<Rightarrow> bdict \<Rightarrow> metaError + (bool \<times> FileInfo list \<times> int)" where
  "extractLayout u info =
     (case dictGet info (str ''files'') of
        Some filesValue \<Rightarrow>
          if dictGet info (str ''length'') \<noteq> None then Inl BothLengthAndFiles
          else andThen (extractFiles u filesValue) (\<lambda>(files, len). Inr (True, files, len))
      | None \<Rightarrow>
          andThen (requiredInt64 info (str ''length'')) (\<lambda>len.
            if len < 0 then Inl NegativeLength else Inr (False, [], len)))"

definition ExtractMeta :: "unicode \<Rightarrow> bvalue option \<Rightarrow> bytes \<Rightarrow> metaError + TorrentMeta" where
  "ExtractMeta u root rawData =
     (case root of
        None \<Rightarrow> Inl MetaRootNil
      | Some rootValue \<Rightarrow>
     andThen (wrapErr MetaRootErr (AsDict rootValue)) (\<lambda>rootDict.
     andThen (extractAnnounce rootDict) (\<lambda>announce.
     andThen (extractAnnounceList rootDict) (\<lambda>announceList.
     andThen (guardR (\<not> (announce = [] \<and> length announceList = 0)) NoTrackerURL) (\<lambda>_.
     andThen (case dictGet rootDict (str ''info'') of
                None \<Rightarrow> Inl MissingInfoDictionary
              | Some infoValue \<Rightarrow> wrapErr InfoErr (AsDict infoValue)) (\<lambda>info.
     andThen (requiredString info (str ''name'')) (\<lambda>name.
     andThen (wrapErr InvalidName (ValidatePathComponent u name)) (\<lambda>_.
     andThen (requiredInt64 info (str ''piece length'')) (\<lambda>pieceLength64.
     andThen (guardR (\<not> (pieceLength64 \<le> 0 \<or> MaxPieceLength < pieceLength64
                          \<or> maxInt < pieceLength64)) PieceLengthOutOfRange) (\<lambda>_.
     andThen (requiredBytes info (str ''pieces'')) (\<lambda>pieceBytes.
     andThen (guardR (length pieceBytes mod sha1Size = 0)
                (PiecesNotDivisible (length pieceBytes))) (\<lambda>_.
     andThen (extractLayout u info) (\<lambda>(multiFile, files, len).
     let expectedPieces = pieceCount len pieceLength64;
         actualPieces = length pieceBytes div sha1Size
     in andThen (guardR (int actualPieces = expectedPieces)
                   (PieceCountMismatch (int actualPieces) expectedPieces)) (\<lambda>_.
        andThen (wrapErr InfoHashErr (ExtractInfoHash root rawData)) (\<lambda>infoHash.
          Inr \<lparr>Announce = announce, AnnounceList = announceList, Name = name, Length = len,
                PieceLength = pieceLength64, Pieces = splitPieces pieceBytes actualPieces,
                InfoHash = infoHash, Files = files, MultiFile = multiFile\<rparr>)))))))))))))))"

end
