(* ===== verification/MetainfoSpec.thy ===== *)
theory MetainfoSpec
  imports Metainfo BencodeSpec
begin

text \<open>
  What \<open>ExtractMeta\<close> guarantees about the metadata it returns: \<open>metaWf\<close>, the well-formedness that the
  storage and the piece manager rely on. The lemmas go bottom up: the tracker list, path components,
  the scan of the sorted path keys, the file loop, the piece count, the whole function.
\<close>

section \<open>Tracker URLs\<close>

text \<open>The first occurrence of every element, in order.\<close>

definition firsts :: "'a list \<Rightarrow> 'a list" where
  "firsts xs = rev (remdups (rev xs))"

lemma firsts_snoc [simp]: "firsts (xs @ [x]) = (if x \<in> set xs then firsts xs else firsts xs @ [x])"
  by (simp add: firsts_def)

lemma set_firsts [simp]: "set (firsts xs) = set xs"
  by (simp add: firsts_def)

lemma distinct_firsts [simp]: "distinct (firsts xs)"
  by (simp add: firsts_def)

lemma firsts_Nil [simp]: "firsts [] = []"
  by (simp add: firsts_def)

lemma foldl_addURL:
  "foldl addURL ({}, []) xs =
     (set (firsts (filter (\<lambda>x. x \<noteq> []) xs)), firsts (filter (\<lambda>x. x \<noteq> []) xs))"
  by (induction xs rule: rev_induct) (auto simp: addURL_def)

lemma foldl_tiers: "foldl (\<lambda>st tier. foldl f st tier) s tiers = foldl f s (concat tiers)"
  by (induction tiers arbitrary: s) auto

lemma TrackerURLs_eq:
  "TrackerURLs m = firsts (filter (\<lambda>x. x \<noteq> []) (Announce m # concat (AnnounceList m)))"
  using foldl_addURL[of "Announce m # concat (AnnounceList m)"]
  by (simp only: TrackerURLs_def foldl_tiers foldl.simps snd_conv)

section \<open>Path components\<close>

text \<open>What makes a path component safe to append to a directory.\<close>

definition safeComponent :: "bytes \<Rightarrow> bool" where
  "safeComponent c \<longleftrightarrow>
     c \<noteq> [] \<and> c \<noteq> str ''.'' \<and> c \<noteq> str ''..'' \<and> ValidString c \<and>
     0 \<notin> set c \<and> 47 \<notin> set c \<and> 92 \<notin> set c \<and> last c \<noteq> 46 \<and> last c \<noteq> 32"

lemma HasSuffix_last: "c \<noteq> [] \<Longrightarrow> HasSuffix c [b] \<longleftrightarrow> last c = b"
  by (cases c rule: rev_cases) auto

lemma ValidatePathComponent_safe:
  "ValidatePathComponent u c = Inr () \<Longrightarrow> safeComponent c"
  by (auto simp: ValidatePathComponent_def safeComponent_def ContainsAny_iff HasSuffix_last
      split: if_splits)

text \<open>
  The names of the DOS devices, and the upper case of an ASCII letter. A device name is one in any letter case,
  and whatever stands behind a dot.
\<close>

definition deviceNames :: "bytes list" where
  "deviceNames = [str ''CON'', str ''PRN'', str ''AUX'', str ''NUL''] @
     map (\<lambda>c. str ''COM'' @ [c]) [49, 50, 51, 52, 53, 54, 55, 56, 57] @
     map (\<lambda>c. str ''LPT'' @ [c]) [49, 50, 51, 52, 53, 54, 55, 56, 57]"

definition asciiUpper :: "byte \<Rightarrow> byte" where
  "asciiUpper b = (if 97 \<le> b \<and> b \<le> 122 then b - 32 else b)"

definition namesDevice :: "bytes \<Rightarrow> bool" where
  "namesDevice c \<longleftrightarrow> (\<exists>stem. map asciiUpper stem \<in> set deviceNames \<and> (c = stem \<or> (\<exists>ext. c = stem @ 46 # ext)))"

lemma asciiUpper_ascii: "asciiUpper b < 128 \<Longrightarrow> b < 128"
  by (auto simp: asciiUpper_def word_less_nat_alt word_le_nat_alt split: if_splits)

lemma upper_ascii:
  assumes "b < (128 :: byte)"
  shows "encodeRune (upperRune u (unat b)) = [asciiUpper b]"
proof -
  have less: "unat b < 128" using assms by (simp add: word_less_nat_alt)
  have "of_nat (unat b - 32) = b - 32" if "97 \<le> b"
  proof -
    have "(32 :: byte) \<le> b" using that by (simp add: word_le_nat_alt)
    then have "unat b - 32 = unat (b - 32)" by (simp add: unat_sub)
    then show ?thesis by simp
  qed
  then show ?thesis using less
    by (auto simp: encodeRune_def upperRune_def asciiUpper_def word_le_nat_alt Let_def)
qed

lemma ToUpper_ascii: "\<forall>b\<in>set s. b < 128 \<Longrightarrow> ToUpper u s = map asciiUpper s"
proof -
  assume "\<forall>b\<in>set s. b < 128"
  then have "decodeAll s = Some (map unat s) \<and> concat (map (\<lambda>b. encodeRune (upperRune u (unat b))) s) = map asciiUpper s"
    by (induction s) (auto simp: upper_ascii)
  then show ?thesis by (simp add: ToUpper_def runes_def comp_def)
qed

lemma deviceNames_reserved:
  assumes "d \<in> set deviceNames"
  shows "reservedStem d" "\<forall>b\<in>set d. b < 128 \<and> b \<noteq> 46"
proof -
  have "list_all (\<lambda>d. reservedStem d \<and> list_all (\<lambda>b. b < 128 \<and> b \<noteq> 46) d) deviceNames" by code_simp
  then show "reservedStem d" "\<forall>b\<in>set d. b < 128 \<and> b \<noteq> 46" using assms by (simp_all add: list_all_iff)
qed

lemma ValidatePathComponent_device:
  assumes "ValidatePathComponent u c = Inr ()"
  shows "\<not> namesDevice c"
proof
  assume "namesDevice c"
  then obtain stem where d: "map asciiUpper stem \<in> set deviceNames" and c: "c = stem \<or> (\<exists>ext. c = stem @ 46 # ext)"
    by (auto simp: namesDevice_def)
  have b: "asciiUpper b < 128 \<and> asciiUpper b \<noteq> 46" if "b \<in> set stem" for b
    using deviceNames_reserved(2) [OF d] that by auto
  then have ascii: "\<forall>b\<in>set stem. b < 128" using asciiUpper_ascii by blast
  have "asciiUpper 46 = 46" by (simp add: asciiUpper_def)
  then have "\<forall>b\<in>set stem. b \<noteq> 46" using b by metis
  then have "beforeDot c = stem" using c by (auto simp: beforeDot_def takeWhile_eq_all_conv takeWhile_append2)
  then have "reservedStem (ToUpper u (beforeDot c))" using ToUpper_ascii [OF ascii] deviceNames_reserved(1) [OF d] by simp
  then show False using assms by (auto simp: ValidatePathComponent_def split: if_splits)
qed

section \<open>The scan for a file that is also a directory\<close>

lemma between_prefix: "a < c \<Longrightarrow> c \<le> a @ 0 # t \<Longrightarrow> \<exists>t'. c = a @ (0::byte) # t'"
proof (induction a arbitrary: c)
  case Nil
  then show ?case by (cases c) (auto simp: word_gt_0 le_less)
next
  case (Cons x a)
  then obtain c' where c: "c = x # c'" by (cases c) auto
  with Cons show ?case by auto
qed

lemma prefixConflict_sorted:
  assumes "sorted_wrt (<) ks"
  shows "prefixConflict ks \<longleftrightarrow> (\<exists>a \<in> set ks. \<exists>b \<in> set ks. HasPrefix b (a @ [0]))"
  using assms
proof (induction ks rule: prefixConflict.induct)
  case (1 a b ks)
  let ?l = "a # b # ks"
  have not_back: "\<not> HasPrefix a (c @ [0])" if "c \<in> set ?l" for c
  proof
    assume "HasPrefix a (c @ [0])"
    then obtain t where "a = c @ 0 # t" by (auto simp: HasPrefix_iff)
    moreover have "c < c @ 0 # t" by (induction c) auto
    ultimately have "c < a" by simp
    with "1.prems" that show False by (auto simp: order.asym)
  qed
  have first: "HasPrefix b (a @ [0])" if "c \<in> set (b # ks)" "HasPrefix c (a @ [0])" for c
  proof -
    have "\<exists>t. c = a @ 0 # t" using that(2) by (auto simp: HasPrefix_iff)
    then obtain t where c: "c = a @ 0 # t" ..
    have "a < b" "b \<le> c" using "1.prems" that(1) by auto
    with c between_prefix[of a b t] show ?thesis by (auto simp: HasPrefix_iff)
  qed
  have IH: "prefixConflict (b # ks) \<longleftrightarrow> (\<exists>x \<in> set (b # ks). \<exists>y \<in> set (b # ks). HasPrefix y (x @ [0]))"
    using "1.prems" by (intro "1.IH") simp
  show ?case
  proof
    assume "prefixConflict ?l"
    then show "\<exists>x \<in> set ?l. \<exists>y \<in> set ?l. HasPrefix y (x @ [0])"
      using IH by auto
  next
    assume "\<exists>x \<in> set ?l. \<exists>y \<in> set ?l. HasPrefix y (x @ [0])"
    then obtain x y where xy: "x \<in> set ?l" "y \<in> set ?l" "HasPrefix y (x @ [0])" by blast
    then have y: "y \<in> set (b # ks)" using not_back by auto
    show "prefixConflict ?l"
    proof (cases "x = a")
      case True
      with first [OF y] xy(3) show ?thesis by simp
    next
      case False
      with xy y IH show ?thesis by auto
    qed
  qed
qed (auto simp: HasPrefix_iff)

section \<open>Path keys\<close>

lemma runes_append: "ValidString s \<Longrightarrow> ValidString t \<Longrightarrow> runes (s @ t) = runes s @ runes t"
  by (auto simp: ValidString_def runes_def decodeAll_append)

lemma ValidString_append: "ValidString s \<Longrightarrow> ValidString t \<Longrightarrow> ValidString (s @ t)"
  by (auto simp: ValidString_def decodeAll_append)

lemma ValidString_NUL: "ValidString t \<Longrightarrow> ValidString (0 # t)"
  by (auto simp: ValidString_def)

lemma ToLower_append:
  "ValidString s \<Longrightarrow> ValidString t \<Longrightarrow> ToLower u (s @ 0 # t) = ToLower u s @ 0 # ToLower u t"
  by (simp add: ToLower_def runes_append ValidString_NUL)
     (auto simp: runes_def ValidString_def lowerRune_def encodeRune_def)

lemma ValidString_Join: "\<forall>c \<in> set p. ValidString c \<Longrightarrow> ValidString (Join p [0])"
  by (induction p "[0::byte]" rule: Join.induct)
     (auto intro: ValidString_append ValidString_NUL simp: ValidString_def [of "[]"])

lemma pathKey_Join:
  "\<forall>c \<in> set p. ValidString c \<Longrightarrow> pathKey u p = Join (map (ToLower u) p) [0]"
  unfolding pathKey_def
proof (induction p "[0::byte]" rule: Join.induct)
  case (3 s t ss)
  then show ?case using ValidString_Join[of "t # ss"] by (simp add: ToLower_append)
qed (auto simp: ToLower_def runes_def)

lemma Join_append: "p \<noteq> [] \<Longrightarrow> q \<noteq> [] \<Longrightarrow> Join (p @ q) sep = Join p sep @ sep @ Join q sep"
proof (induction p sep rule: Join.induct)
  case (2 s sep)
  then show ?case by (cases q) auto
qed auto

section \<open>The file loop\<close>

definition fileOk :: "unicode \<Rightarrow> FileInfo \<Rightarrow> bool" where
  "fileOk u f \<longleftrightarrow>
     0 \<le> fileLength f \<and> filePath f \<noteq> [] \<and>
     (\<forall>c \<in> set (filePath f). ValidatePathComponent u c = Inr ())"

definition totalLength :: "FileInfo list \<Rightarrow> int" where
  "totalLength fs = sum_list (map fileLength fs)"

lemma totalLength_simps [simp]:
  "totalLength [] = 0" "totalLength (f # fs) = fileLength f + totalLength fs"
  "totalLength (fs @ gs) = totalLength fs + totalLength gs"
  by (simp_all add: totalLength_def)

lemma extractComponents_Inr:
  "extractComponents u i j vs = Inr cs \<Longrightarrow>
     length cs = length vs \<and> (\<forall>c \<in> set cs. ValidatePathComponent u c = Inr ())"
  by (induction u i j vs arbitrary: cs rule: extractComponents.induct) auto

lemma extractPath_Inr:
  "extractPath u i d = Inr p \<Longrightarrow> p \<noteq> [] \<and> (\<forall>c \<in> set p. ValidatePathComponent u c = Inr ())"
  by (auto simp: extractPath_def split: option.splits sum.splits if_splits dest!: extractComponents_Inr)

lemma extractFile_Inr: "extractFile u i v = Inr f \<Longrightarrow> fileOk u f"
  by (auto simp: extractFile_def fileOk_def dest!: extractPath_Inr)

lemma MaxInt64_minus: "0 \<le> t \<Longrightarrow> t \<le> MaxInt64 \<Longrightarrow> i64 (MaxInt64 - t) = MaxInt64 - t"
  by (rule i64_nonneg_id) auto

lemma extractFilesLoop_Inr:
  assumes "extractFilesLoop u i seen pk t files vs = Inr (pk', t', files')"
    and "seen = set pk" "distinct pk" "0 \<le> t" "t \<le> MaxInt64"
  shows "\<exists>new. files' = files @ new \<and> length new = length vs \<and>
      pk' = pk @ map (\<lambda>f. pathKey u (filePath f)) new \<and> distinct pk' \<and>
      t' = t + totalLength new \<and> 0 \<le> t' \<and> t' \<le> MaxInt64 \<and> (\<forall>f \<in> set new. fileOk u f)"
  using assms
proof (induction u i seen pk t files vs rule: extractFilesLoop.induct)
  case (2 u i seen pk t files v vs)
  then obtain f where f: "extractFile u i v = Inr f"
    and new: "pathKey u (filePath f) \<notin> set pk" and len: "fileLength f \<le> MaxInt64 - t"
    and rest: "extractFilesLoop u (Suc i) (insert (pathKey u (filePath f)) seen)
      (pk @ [pathKey u (filePath f)]) (i64 (t + fileLength f)) (files @ [f]) vs = Inr (pk', t', files')"
    by (auto simp: Let_def MaxInt64_minus split: if_splits)
  have ok: "fileOk u f" by (rule extractFile_Inr [OF f])
  then have "0 \<le> fileLength f" by (simp add: fileOk_def)
  with len "2.prems" have t: "i64 (t + fileLength f) = t + fileLength f"
    by (intro i64_nonneg_id) auto
  have "\<exists>new. files' = (files @ [f]) @ new \<and> length new = length vs \<and>
      pk' = (pk @ [pathKey u (filePath f)]) @ map (\<lambda>f. pathKey u (filePath f)) new \<and> distinct pk' \<and>
      t' = i64 (t + fileLength f) + totalLength new \<and> 0 \<le> t' \<and> t' \<le> MaxInt64 \<and>
      (\<forall>f \<in> set new. fileOk u f)"
    using new len "2.prems"(2-5) \<open>0 \<le> fileLength f\<close> t
    by (intro "2.IH" [OF f refl _ _ rest]) (auto simp: MaxInt64_minus)
  then obtain new where "files' = (files @ [f]) @ new" "length new = length vs"
    "pk' = (pk @ [pathKey u (filePath f)]) @ map (\<lambda>f. pathKey u (filePath f)) new" "distinct pk'"
    "t' = t + fileLength f + totalLength new" "0 \<le> t'" "t' \<le> MaxInt64" "\<forall>f \<in> set new. fileOk u f"
    unfolding t by blast
  with ok show ?case by (intro exI[of _ "f # new"]) auto
qed auto

text \<open>
  No path is the same as, or a directory of, another one, even where letter case is ignored.
\<close>

definition pathsApart :: "unicode \<Rightarrow> FileInfo list \<Rightarrow> bool" where
  "pathsApart u files \<longleftrightarrow>
     (\<forall>i < length files. \<forall>j < length files. i \<noteq> j \<longrightarrow>
        \<not> prefix (map (ToLower u) (filePath (files ! i))) (map (ToLower u) (filePath (files ! j))))"

lemma fileOk_ValidString: "fileOk u f \<Longrightarrow> \<forall>c \<in> set (filePath f). ValidString c"
  using ValidatePathComponent_safe by (fastforce simp: fileOk_def safeComponent_def)

lemma pathsApartI:
  assumes ok: "\<forall>f \<in> set files. fileOk u f"
    and ks: "ks = map (\<lambda>f. pathKey u (filePath f)) files" "distinct ks" "\<not> prefixConflict (sort ks)"
  shows "pathsApart u files"
  unfolding pathsApart_def
proof (intro allI impI notI)
  fix i j assume ij: "i < length files" "j < length files" "i \<noteq> j"
  let ?p = "\<lambda>i. map (ToLower u) (filePath (files ! i))"
  assume "prefix (?p i) (?p j)"
  then obtain r where r: "?p j = ?p i @ r" by (auto simp: prefix_def)
  have key: "ks ! k = Join (?p k) [0]" "?p k \<noteq> []" if "k < length files" for k
  proof -
    have f: "fileOk u (files ! k)" using ok that by simp
    then show "ks ! k = Join (?p k) [0]"
      using pathKey_Join [OF fileOk_ValidString [OF f]] that ks(1) by simp
    from f show "?p k \<noteq> []" by (simp add: fileOk_def)
  qed
  have "ks ! i \<noteq> ks ! j" using nth_eq_iff_index_eq [OF ks(2), of i j] ij ks(1) by simp
  then have "r \<noteq> []" using r key ij by auto
  then have "ks ! j = (ks ! i @ [0]) @ Join r [0]"
    using r key ij by (simp add: Join_append)
  then have pre: "HasPrefix (ks ! j) (ks ! i @ [0])" by (auto simp: HasPrefix_iff)
  have "sorted_wrt (<) (sort ks)" using ks(2) by (simp add: strict_sorted_iff)
  from prefixConflict_sorted [OF this] pre ks(1,3) ij show False by force
qed

lemma extractFiles_Inr:
  assumes "extractFiles u v = Inr (files, n)"
  shows "files \<noteq> [] \<and> (\<forall>f \<in> set files. fileOk u f) \<and> pathsApart u files \<and>
    n = totalLength files \<and> 0 \<le> n \<and> n \<le> MaxInt64"
proof -
  obtain vs ks where vs: "vs \<noteq> []" and loop: "extractFilesLoop u 0 {} [] 0 [] vs = Inr (ks, n, files)"
    and nc: "\<not> prefixConflict (sort ks)"
    using assms by (auto simp: extractFiles_def split: if_splits)
  from extractFilesLoop_Inr [OF loop] have
    "length files = length vs" "ks = map (\<lambda>f. pathKey u (filePath f)) files" "distinct ks"
    "n = totalLength files" "0 \<le> n" "n \<le> MaxInt64" "\<forall>f \<in> set files. fileOk u f"
    by (auto simp: MaxInt64_def)
  with vs nc show ?thesis by (auto intro!: pathsApartI)
qed

section \<open>The piece count\<close>

lemma pieceCount_eq:
  assumes "0 \<le> len" "len \<le> MaxInt64" "0 < pl"
  shows "pieceCount len pl = (len + pl - 1) div pl"
proof (cases "len = 0")
  case True
  with assms show ?thesis by (simp add: pieceCount_def div_pos_pos_trivial)
next
  case False
  with assms have pos: "0 < len" by simp
  have sd: "len sdiv pl = len div pl" "len smod pl = len mod pl"
    using assms pos by (simp_all add: signed_divide_int_def signed_modulo_int_def)
  have eq: "len div pl + boolToInt64 (len mod pl \<noteq> 0) = (len + pl - 1) div pl"
  proof (cases "len mod pl = 0")
    case True
    then obtain q where q: "len = pl * q" by auto
    have "(pl * q + pl - 1) div pl = q + (pl - 1) div pl"
      using assms(3) div_mult_self2[of pl "pl - 1" q] by (simp add: algebra_simps)
    with assms(3) q show ?thesis by (simp add: boolToInt64_def div_pos_pos_trivial)
  next
    case False
    define q r where "q = len div pl" and "r = len mod pl"
    have "len = pl * q + r" "0 < r" "r < pl"
      using False assms(3) pos_mod_sign[of pl len] by (auto simp: q_def r_def le_less)
    then have "len + pl - 1 = (r - 1) + pl * (q + 1)" by (simp add: algebra_simps)
    then have "(len + pl - 1) div pl = (q + 1) + (r - 1) div pl"
      using assms(3) by (simp only: div_mult_self2)
    with \<open>0 < r\<close> \<open>r < pl\<close> show ?thesis
      using False by (simp add: boolToInt64_def q_def div_pos_pos_trivial)
  qed
  have "0 \<le> (len + pl - 1) div pl" using assms pos by (simp add: pos_imp_zdiv_nonneg_iff)
  moreover have "(len + pl - 1) div pl \<le> MaxInt64"
  proof -
    have "(len + pl - 1) div pl \<le> len"
    proof -
      have "len + pl - 1 \<le> pl * len"
        using mult_nonneg_nonneg[of "pl - 1" "len - 1"] assms(3) pos by (simp add: algebra_simps)
      then have "(len + pl - 1) div pl \<le> (pl * len) div pl" using assms(3) by (rule zdiv_mono1)
      then show ?thesis using assms(3) by simp
    qed
    with assms(2) show ?thesis by simp
  qed
  ultimately show ?thesis
    using False by (simp add: pieceCount_def sd eq i64_nonneg_id)
qed

section \<open>Well-formed metadata\<close>

definition layoutOk :: "unicode \<Rightarrow> bool \<Rightarrow> FileInfo list \<Rightarrow> int \<Rightarrow> bool" where
  "layoutOk u multi files len \<longleftrightarrow>
     0 \<le> len \<and> len \<le> MaxInt64 \<and>
     (if multi
      then files \<noteq> [] \<and> (\<forall>f \<in> set files. fileOk u f) \<and> pathsApart u files \<and> len = totalLength files
      else files = [])"

definition metaWf :: "unicode \<Rightarrow> TorrentMeta \<Rightarrow> bool" where
  "metaWf u m \<longleftrightarrow>
     TrackerURLs m \<noteq> [] \<and> ValidatePathComponent u (Name m) = Inr () \<and>
     0 < PieceLength m \<and> PieceLength m \<le> MaxPieceLength \<and>
     layoutOk u (MultiFile m) (Files m) (Length m) \<and>
     int (length (Pieces m)) = (Length m + PieceLength m - 1) div PieceLength m \<and>
     (\<forall>h \<in> set (Pieces m). length h = sha1Size) \<and> length (InfoHash m) = sha1Size"

lemma extractTier_Inr: "extractTier i j vs = Inr tier \<Longrightarrow> [] \<notin> set tier"
  by (induction i j vs arbitrary: tier rule: extractTier.induct) (auto split: if_splits)

lemma extractTiers_Inr:
  "extractTiers i vs = Inr tiers \<Longrightarrow> [] \<notin> set tiers \<and> (\<forall>tier \<in> set tiers. [] \<notin> set tier)"
  by (induction i vs arbitrary: tiers rule: extractTiers.induct)
     (auto split: if_splits dest: extractTier_Inr)

lemma extractAnnounceList_Inr:
  "extractAnnounceList d = Inr tiers \<Longrightarrow> [] \<notin> set tiers \<and> (\<forall>tier \<in> set tiers. [] \<notin> set tier)"
  by (auto simp: extractAnnounceList_def split: option.splits dest: extractTiers_Inr)

lemma TrackerURLs_not_Nil:
  assumes "extractAnnounceList d = Inr (AnnounceList m)"
    and "\<not> (Announce m = [] \<and> length (AnnounceList m) = 0)"
  shows "TrackerURLs m \<noteq> []"
proof (cases "Announce m = []")
  case True
  with assms(2) obtain tier tiers where t: "AnnounceList m = tier # tiers"
    by (cases "AnnounceList m") auto
  with extractAnnounceList_Inr [OF assms(1)] obtain url where "url \<in> set tier" "url \<noteq> []"
    by (cases tier) auto
  then have "url \<in> set (TrackerURLs m)" using t by (simp add: TrackerURLs_eq)
  then show ?thesis by auto
next
  case False
  then have "Announce m \<in> set (TrackerURLs m)" by (simp add: TrackerURLs_eq)
  then show ?thesis by auto
qed

lemma requiredInt64_isInt64:
  assumes "requiredInt64 d key = Inr n" "\<forall>v \<in> snd ` set d. spansV data v"
  shows "isInt64 n"
proof -
  from assms(1) obtain v where v: "map_of d key = Some v" "Value v = BInt n"
    by (auto simp: requiredInt64_def dictGet_def split: option.splits)
  with assms(2) have "spansV data v" by (auto dest!: map_of_SomeD)
  with v(2) show ?thesis by (cases v) auto
qed

lemma extractLayout_Inr:
  assumes "extractLayout u info = Inr (multi, files, len)" "\<forall>v \<in> snd ` set info. spansV data v"
  shows "layoutOk u multi files len"
  using assms requiredInt64_isInt64 [OF _ assms(2)]
  by (auto simp: extractLayout_def layoutOk_def isInt64_def split: option.splits if_splits
      dest: extractFiles_Inr)

lemma length_splitPieces: "length (splitPieces b n) = n"
  by (simp add: splitPieces_def)

lemma splitPieces_length:
  assumes "h \<in> set (splitPieces b (length b div sha1Size))"
  shows "length h = sha1Size"
proof -
  from assms obtain i where i: "i < length b div sha1Size"
    and h: "h = sliceOf b (i * sha1Size) ((i + 1) * sha1Size)"
    by (auto simp: splitPieces_def)
  from i have "(i + 1) * sha1Size \<le> (length b div sha1Size) * sha1Size"
    by (intro mult_right_mono) simp_all
  also have "\<dots> \<le> length b" by (simp add: div_times_less_eq_dividend)
  finally show ?thesis using h by (simp add: length_sliceOf)
qed

lemma ExtractInfoHash_length: "ExtractInfoHash root raw = Inr h \<Longrightarrow> length h = sha1Size"
  by (auto simp: ExtractInfoHash_def sha1Size_def split: option.splits bval.splits if_splits)

lemma ExtractMeta_metaWf:
  assumes "ExtractMeta u (Some root) raw = Inr m" "spansV data root"
  shows "metaWf u m"
proof -
  from assms(1) obtain rootDict announce announceList infoValue info name pl pb multi files len h where
    root: "Value root = BDict rootDict"
    and al: "extractAnnounceList rootDict = Inr announceList"
    and tr: "\<not> (announce = [] \<and> length announceList = 0)"
    and iv: "dictGet rootDict (str ''info'') = Some infoValue" "Value infoValue = BDict info"
    and name: "ValidatePathComponent u name = Inr ()"
    and pl: "\<not> (pl \<le> 0 \<or> MaxPieceLength < pl \<or> maxInt < pl)"
    and lay: "extractLayout u info = Inr (multi, files, len)"
    and pc: "int (length pb div sha1Size) = pieceCount len pl"
    and hash: "ExtractInfoHash (Some root) raw = Inr h"
    and m: "m = \<lparr>Announce = announce, AnnounceList = announceList, Name = name, Length = len,
                PieceLength = pl, Pieces = splitPieces pb (length pb div sha1Size),
                InfoHash = h, Files = files, MultiFile = multi\<rparr>"
    by (auto simp: ExtractMeta_def Let_def simp del: str_Cons split: option.splits)
  have "spansV data infoValue" by (rule spans_dict [OF assms(2) root iv(1)])
  then have "\<forall>v \<in> snd ` set info. spansV data v" using iv(2) by (cases infoValue) auto
  from extractLayout_Inr [OF lay this] have lo: "layoutOk u multi files len" .
  then have "pieceCount len pl = (len + pl - 1) div pl"
    using pl by (intro pieceCount_eq) (auto simp: layoutOk_def)
  with lo pl pc name hash TrackerURLs_not_Nil [of rootDict m] al tr show ?thesis
    by (auto simp: metaWf_def m length_splitPieces ExtractInfoHash_length dest: splitPieces_length)
qed

section \<open>Properties\<close>

text \<open>The equations that let the simplifier run the extraction on a concrete input.\<close>

lemmas meta_eval = ExtractMeta_def extractAnnounce_def extractAnnounceList_def extractLayout_def
  extractFiles_def extractFile_def extractPath_def requiredString_def requiredBytes_def
  requiredInt64_def dictGet_def ValidatePathComponent_def ValidString_def runes_def ToUpper_def
  ToLower_def pathKey_def beforeDot_def reservedStem_def lowerRune_def upperRune_def encodeRune_def
  IsControl_def ContainsAny_def HasSuffix_def HasPrefix_def IsAbs_def VolumeName_def guardR_def
  MaxPieceLength_def maxInt_def MaxInt64_def sha1Size_def pieceCount_def boolToInt64_def i64_def
  ExtractInfoHash_def Let_def

text \<open>
  C11. Whatever bytes the metainfo file holds: if it is parsed and its metadata extracted, the metadata
  is well formed. It names a tracker; the torrent name is a valid path component; the piece length is
  between 1 and 64 MiB; the length is a non-negative \<open>int64\<close> and, for several files, the exact sum of
  their lengths, which are non-negative, with valid paths apart from each other; there are as many
  20-byte piece hashes as pieces are needed to cover the length.
\<close>

theorem ExtractMeta_wellformed:
  assumes "Parse (NewParser raw) = Inr (root, p')" "ExtractMeta u (Some root) raw = Inr m"
  shows "metaWf u m"
  using assms(2) Parse_NewParser_sound(1) [OF assms(1)] by (rule ExtractMeta_metaWf)

definition sampleTorrent :: bytes where
  "sampleTorrent =
     str ''d8:announce3:u:t4:infod6:lengthi5e4:name3:a.b12:piece lengthi8e6:pieces20:aaaaaaaaaaaaaaaaaaaaee''"

theorem ExtractMeta_wellformed_witness:
  "\<exists>root p' m. Parse (NewParser sampleTorrent) = Inr (root, p') \<and>
     ExtractMeta \<lparr>uniLower = id, uniUpper = id\<rparr> (Some root) sampleTorrent = Inr m \<and>
     metaWf \<lparr>uniLower = id, uniUpper = id\<rparr> m \<and> Name m = str ''a.b'' \<and> Length m = 5"
proof -
  let ?u = "\<lparr>uniLower = id, uniUpper = id\<rparr>"
  have "\<exists>root p'. Parse (NewParser sampleTorrent) = Inr (root, p') \<and>
      (\<exists>m. ExtractMeta ?u (Some root) sampleTorrent = Inr m \<and> Name m = str ''a.b'' \<and> Length m = 5)"
    by (simp add: sampleTorrent_def parse_eval cong: andThen_weak_cong)
       (simp add: meta_eval cong: andThen_weak_cong)
  then obtain root p' m where p: "Parse (NewParser sampleTorrent) = Inr (root, p')"
    and m: "ExtractMeta ?u (Some root) sampleTorrent = Inr m" "Name m = str ''a.b''" "Length m = 5"
    by blast
  with ExtractMeta_wellformed [OF p m(1)] show ?thesis by blast
qed

text \<open>
  C23. A path component that \<open>ValidatePathComponent\<close> accepts cannot leave its directory and means the same on
  Windows: it is not empty, not \<open>.\<close> or \<open>..\<close>, holds no slash, backslash, control character or any of
  \<open>: < > " | ? *\<close>, does not end in a dot or a space, is valid UTF-8, and does not name a device: it is not
  \<open>CON\<close>, \<open>PRN\<close>, \<open>AUX\<close>, \<open>NUL\<close>, \<open>COM1\<close> to \<open>COM9\<close> or \<open>LPT1\<close> to \<open>LPT9\<close> in any letter case, alone or before
  a dot, whatever the case tables of \<open>unicode\<close> are.
\<close>

theorem ValidatePathComponent_sound:
  assumes "ValidatePathComponent u c = Inr ()"
  shows "safeComponent c \<and> list_all (\<lambda>r. \<not> IsControl r) (runes c) \<and>
    set c \<inter> {58, 60, 62, 34, 124, 63, 42} = {} \<and> \<not> namesDevice c"
  using ValidatePathComponent_safe [OF assms] ValidatePathComponent_device [OF assms] assms
  by (auto simp: ValidatePathComponent_def ContainsAny_iff list_all_iff list_ex_iff split: if_splits)

theorem ValidatePathComponent_sound_witness:
  "ValidatePathComponent \<lparr>uniLower = id, uniUpper = id\<rparr> (str ''com10.txt'') = Inr () \<and>
   safeComponent (str ''com10.txt'') \<and> \<not> namesDevice (str ''com10.txt'') \<and> namesDevice (str ''com1.txt'')"
proof -
  have v: "ValidatePathComponent \<lparr>uniLower = id, uniUpper = id\<rparr> (str ''com10.txt'') = Inr ()"
    by (simp add: meta_eval decodeAll.simps)
  have "map asciiUpper (str ''com1'') \<in> set deviceNames" by (simp add: deviceNames_def asciiUpper_def)
  moreover have "str ''com1.txt'' = str ''com1'' @ 46 # str ''txt''" by simp
  ultimately have "namesDevice (str ''com1.txt'')" unfolding namesDevice_def by blast
  with v ValidatePathComponent_sound [OF v] show ?thesis by blast
qed

text \<open>
  The tracker URLs are the non-empty URLs of the metainfo file, the \<open>announce\<close> URL first and then
  the tiers in order, each at its first occurrence only.
\<close>

theorem TrackerURLs_spec:
  "TrackerURLs m = firsts (filter (\<lambda>x. x \<noteq> []) (Announce m # concat (AnnounceList m)))"
  by (rule TrackerURLs_eq)

text \<open>
  C38. The scan of neighbours in the sorted list of path keys finds a conflict exactly when any two
  keys of the torrent conflict, one followed by NUL being a prefix of the other.
\<close>

theorem prefixConflict_complete:
  assumes "distinct ks"
  shows "prefixConflict (sort ks) \<longleftrightarrow> (\<exists>a \<in> set ks. \<exists>b \<in> set ks. HasPrefix b (a @ [0]))"
  using prefixConflict_sorted [of "sort ks"] assms by (simp add: strict_sorted_iff)

theorem prefixConflict_complete_witness:
  "distinct [str ''b'', str ''a'' @ 0 # str ''c'', str ''a!'', str ''a''] \<and>
   prefixConflict (sort [str ''b'', str ''a'' @ 0 # str ''c'', str ''a!'', str ''a''])"
proof -
  let ?ks = "[str ''b'', str ''a'' @ 0 # str ''c'', str ''a!'', str ''a'']"
  have d: "distinct ?ks" by simp
  have "\<exists>a \<in> set ?ks. \<exists>b \<in> set ?ks. HasPrefix b (a @ [0])"
    by (simp add: HasPrefix_def)
  with d prefixConflict_complete [OF d] show ?thesis by blast
qed

text \<open>
  C22. In a torrent with several files no path is the same as another one or a directory of it, even on
  a file system that ignores letter case, and the total is the exact sum of the lengths.
\<close>

theorem extractFiles_apart:
  assumes "extractFiles u v = Inr (files, n)"
  shows "pathsApart u files \<and> n = totalLength files \<and> n \<le> MaxInt64"
  using extractFiles_Inr [OF assms] by blast

definition sampleFile :: "int \<Rightarrow> bytes list \<Rightarrow> bvalue" where
  "sampleFile n p = BValue (BDict [(str ''length'', BValue (BInt n) 0 0),
     (str ''path'', BValue (BList (map (\<lambda>s. BValue (BString s) 0 0) p)) 0 0)]) 0 0"

theorem extractFiles_apart_witness:
  "extractFiles \<lparr>uniLower = id, uniUpper = id\<rparr>
     (BValue (BList [sampleFile 2 [str ''b'', str ''A''], sampleFile 3 [str ''b!'']]) 0 0) =
     Inr ([\<lparr>fileLength = 2, filePath = [str ''b'', str ''A'']\<rparr>, \<lparr>fileLength = 3, filePath = [str ''b!'']\<rparr>], 5) \<and>
   pathsApart \<lparr>uniLower = id, uniUpper = id\<rparr>
     [\<lparr>fileLength = 2, filePath = [str ''b'', str ''A'']\<rparr>, \<lparr>fileLength = 3, filePath = [str ''b!'']\<rparr>] \<and>
   extractFiles \<lparr>uniLower = id, uniUpper = id\<rparr>
     (BValue (BList [sampleFile 2 [str ''b'', str ''A''], sampleFile 3 [str ''B'']]) 0 0) = Inl FileAlsoDirectory"
proof -
  let ?u = "\<lparr>uniLower = id, uniUpper = id\<rparr>"
  let ?v = "BValue (BList [sampleFile 2 [str ''b'', str ''A''], sampleFile 3 [str ''b!'']]) 0 0"
  let ?fs = "[\<lparr>fileLength = 2, filePath = [str ''b'', str ''A'']\<rparr>, \<lparr>fileLength = 3, filePath = [str ''b!'']\<rparr>]"
  have e: "extractFiles ?u ?v = Inr (?fs, 5)"
    by (simp add: sampleFile_def meta_eval decodeAll.simps cong: andThen_weak_cong)
  moreover have "extractFiles ?u (BValue (BList [sampleFile 2 [str ''b'', str ''A''], sampleFile 3 [str ''B'']]) 0 0) =
      Inl FileAlsoDirectory"
    by (simp add: sampleFile_def meta_eval decodeAll.simps cong: andThen_weak_cong)
  moreover have "pathsApart ?u ?fs" using extractFiles_apart [OF e] by blast
  ultimately show ?thesis by blast
qed

text \<open>
  The pieces cover the torrent with no piece to spare: all but the last piece lie strictly inside
  its length, and the last one reaches its end.
\<close>

theorem pieceCount_covers:
  assumes "0 < len" "len \<le> MaxInt64" "0 < pl"
  shows "(pieceCount len pl - 1) * pl < len \<and> len \<le> pieceCount len pl * pl"
proof -
  define q r where "q = (len + pl - 1) div pl" and "r = (len + pl - 1) mod pl"
  have "len + pl - 1 = q * pl + r" "0 \<le> r" "r < pl"
    using assms(3) by (simp_all add: q_def r_def)
  moreover have "(q - 1) * pl = q * pl - pl" by (simp add: left_diff_distrib)
  ultimately have "(q - 1) * pl < len \<and> len \<le> q * pl" by linarith
  moreover have "pieceCount len pl = q"
    unfolding q_def using assms by (intro pieceCount_eq) auto
  ultimately show ?thesis by simp
qed

theorem pieceCount_covers_witness:
  "(0::int) < 5 \<and> 5 \<le> MaxInt64 \<and> (pieceCount 5 2 - 1) * 2 < 5 \<and> 5 \<le> pieceCount 5 2 * 2"
proof -
  have h: "(0::int) < 5" "5 \<le> MaxInt64" "(0::int) < 2" by (simp_all add: MaxInt64_def)
  from h pieceCount_covers [OF h] show ?thesis by blast
qed

end
