(* ===== verification/Codec.thy ===== *)
theory Codec
  imports Prelude
begin

text \<open>
  The contract of a binary protocol: \<open>enc\<close> lays a frame out as bytes, \<open>dec\<close> reads one frame off
  the front of a stream, \<open>wf\<close> are the frames that have an encoding. From the two laws (a frame is read
  back whatever follows it, and nothing else is ever read) follow that frames are prefix free, that a
  truncated frame is refused and that a sequence of frames is cut in exactly one way. The peer messages,
  the handshake and the compact peer entries are instances.
\<close>

text \<open>Read \<open>n\<close> frames in a row.\<close>

primrec decodeMany :: "(bytes \<Rightarrow> 'e + ('a \<times> bytes)) \<Rightarrow> nat \<Rightarrow> bytes \<Rightarrow> 'e + ('a list \<times> bytes)" where
  "decodeMany dec 0 bs = Inr ([], bs)"
| "decodeMany dec (Suc n) bs =
     andThen (dec bs) (\<lambda>(a, rest).
       andThen (decodeMany dec n rest) (\<lambda>(as, rest'). Inr (a # as, rest')))"

locale codec =
  fixes enc :: "'a \<Rightarrow> bytes"
    and dec :: "bytes \<Rightarrow> 'e + ('a \<times> bytes)"
    and wf :: "'a \<Rightarrow> bool"
  assumes dec_enc: "wf a \<Longrightarrow> dec (enc a @ rest) = Inr (a, rest)"
    and dec_sound: "dec bs = Inr (a, rest) \<Longrightarrow> wf a \<and> bs = enc a @ rest"
begin

lemma prefix_free:
  assumes "wf a" "wf b" "enc a @ xs = enc b @ ys"
  shows "a = b \<and> xs = ys"
proof -
  have "Inr (a, xs) = dec (enc a @ xs)" using assms(1) by (simp add: dec_enc)
  also have "\<dots> = Inr (b, ys)" using assms(2,3) by (simp add: dec_enc)
  finally show ?thesis by simp
qed

lemma enc_inj: "wf a \<Longrightarrow> wf b \<Longrightarrow> enc a = enc b \<Longrightarrow> a = b"
  using prefix_free [of a b "[]" "[]"] by simp

lemma truncated:
  assumes "wf a" "enc a = xs @ ys" "ys \<noteq> []"
  shows "\<exists>e. dec xs = Inl e"
proof (cases "dec xs")
  case (Inr r)
  obtain b rest where r: "r = (b, rest)" by (cases r)
  with Inr have "wf b" "xs = enc b @ rest" using dec_sound by auto
  with assms prefix_free [of a b "[]" "rest @ ys"] show ?thesis by simp
qed simp

lemma decodeMany_concat:
  "(\<And>a. a \<in> set as \<Longrightarrow> wf a) \<Longrightarrow>
     decodeMany dec (length as) (concat (map enc as) @ rest) = Inr (as, rest)"
  by (induction as) (simp_all add: dec_enc)

lemma decodeMany_sound:
  "decodeMany dec n bs = Inr (as, rest) \<Longrightarrow>
     length as = n \<and> (\<forall>a\<in>set as. wf a) \<and> bs = concat (map enc as) @ rest"
  by (induction n arbitrary: bs as) (auto dest!: dec_sound)

lemma dec_iff: "dec bs = Inr (a, rest) \<longleftrightarrow> wf a \<and> bs = enc a @ rest"
  by (auto simp: dec_enc dest: dec_sound)

lemma concat_inj:
  assumes "\<And>a. a \<in> set as \<Longrightarrow> wf a" "\<And>a. a \<in> set bs \<Longrightarrow> wf a" "length as = length bs"
    "concat (map enc as) = concat (map enc bs)"
  shows "as = bs"
  using decodeMany_concat [of as "[]"] decodeMany_concat [of bs "[]"] assms by simp

end

end
