(* ===== verification/Wire.thy ===== *)
theory Wire
  imports Codec Binary
begin

text \<open>
  The peer wire protocol of \<open>internal/peer\<close>: length-prefixed messages (\<open>message.go\<close>), the handshake
  (\<open>handshake.go\<close>), the bitfield (\<open>bitfield.go\<close>) and the peer id (\<open>generate_id.go\<close>). A reader is
  the list of the bytes that still arrive before the end of the stream. The random source of
  \<open>crypto/rand\<close> is a parameter. A nil pointer is \<open>None\<close>, and an operation that may panic returns
  \<open>None\<close> when it does.
\<close>

section \<open>Reading\<close>

datatype ioError = EOF | ErrUnexpectedEOF

text \<open>\<open>io.ReadFull\<close> into a buffer of \<open>n\<close> bytes: the bytes read and the rest of the stream.\<close>

definition ReadFull :: "nat \<Rightarrow> bytes \<Rightarrow> ioError + (bytes \<times> bytes)" where
  "ReadFull n r =
     (if n = 0 then Inr ([], r)
      else if r = [] then Inl EOF
      else if length r < n then Inl ErrUnexpectedEOF
      else Inr (take n r, drop n r))"

section \<open>Messages\<close>

definition MsgChoke :: byte where "MsgChoke = 0"
definition MsgUnchoke :: byte where "MsgUnchoke = 1"
definition MsgInterested :: byte where "MsgInterested = 2"
definition MsgNotInterested :: byte where "MsgNotInterested = 3"
definition MsgHave :: byte where "MsgHave = 4"
definition MsgBitfield :: byte where "MsgBitfield = 5"
definition MsgRequest :: byte where "MsgRequest = 6"
definition MsgPiece :: byte where "MsgPiece = 7"
definition MsgCancel :: byte where "MsgCancel = 8"

lemmas msg_ids = MsgChoke_def MsgUnchoke_def MsgInterested_def MsgNotInterested_def MsgHave_def
  MsgBitfield_def MsgRequest_def MsgPiece_def MsgCancel_def

definition DefaultMaxMessageSize :: "32 word" where
  "DefaultMaxMessageSize = push_bit 20 4"

record Message =
  ID :: "byte option"
  Payload :: bytes

datatype messageError =
    MaxLengthNotPositive
  | MessageIO ioError
  | MessageTooLong "32 word" "32 word"
  | InvalidHaveLength
  | HaveIndexTooLarge
  | InvalidPiecePayload
  | PiecePositionTooLarge

definition ReadMessageWithLimit :: "32 word \<Rightarrow> bytes \<Rightarrow> messageError + (Message \<times> bytes)" where
  "ReadMessageWithLimit maxLength r =
     (if maxLength = 0 then Inl MaxLengthNotPositive
      else andThen (wrapErr MessageIO (ReadFull 4 r)) (\<lambda>(lengthBuffer, r1).
        let len = Uint32 lengthBuffer in
        if len = 0 then Inr (\<lparr>ID = None, Payload = []\<rparr>, r1)
        else if len > maxLength then Inl (MessageTooLong len maxLength)
        else andThen (wrapErr MessageIO (ReadFull (unat len) r1)) (\<lambda>(messageBuffer, r2).
          Inr (\<lparr>ID = Some (hd messageBuffer), Payload = tl messageBuffer\<rparr>, r2))))"

definition ReadMessage :: "bytes \<Rightarrow> messageError + (Message \<times> bytes)" where
  "ReadMessage = ReadMessageWithLimit DefaultMaxMessageSize"

text \<open>
  \<open>Serialize\<close> of a possibly nil message. The length is an \<open>uint32\<close>: a payload of 4 GiB - 1 bytes makes it
  0 and the store to \<open>buffer[4]\<close> panics; a longer one is cut off by \<open>copy\<close>.
\<close>

definition Serialize :: "Message option \<Rightarrow> bytes option" where
  "Serialize m =
     (case m of
        None \<Rightarrow> Some [0, 0, 0, 0]
      | Some msg \<Rightarrow>
          (case ID msg of
             None \<Rightarrow> Some [0, 0, 0, 0]
           | Some i \<Rightarrow>
               let len = of_nat (length (Payload msg) + 1) :: 32 word in
               if unat len = 0 then None
               else Some (PutUint32 len @ i # take (unat len - 1) (Payload msg))))"

definition NewInterested :: Message where
  "NewInterested = \<lparr>ID = Some MsgInterested, Payload = []\<rparr>"

definition NewRequest :: "int \<Rightarrow> int \<Rightarrow> int \<Rightarrow> Message" where
  "NewRequest index begin len =
     \<lparr>ID = Some MsgRequest,
      Payload = PutUint32 (of_int index) @ PutUint32 (of_int begin) @ PutUint32 (of_int len)\<rparr>"

definition NewHave :: "int \<Rightarrow> Message" where
  "NewHave index = \<lparr>ID = Some MsgHave, Payload = PutUint32 (of_int index)\<rparr>"

definition peerMaxInt :: int where
  "peerMaxInt = uint (drop_bit 1 (NOT 0) :: 64 word)"

definition ParseHave :: "bytes \<Rightarrow> messageError + int" where
  "ParseHave payload =
     (if length payload \<noteq> 4 then Inl InvalidHaveLength
      else let v = Uint32 payload in
        if uint v > peerMaxInt then Inl HaveIndexTooLarge else Inr (uint v))"

definition ParsePiece :: "bytes \<Rightarrow> messageError + (int \<times> int \<times> bytes)" where
  "ParsePiece payload =
     (if length payload < 8 then Inl InvalidPiecePayload
      else let indexValue = Uint32 (sliceOf payload 0 4); beginValue = Uint32 (sliceOf payload 4 8) in
        if uint indexValue > peerMaxInt \<or> uint beginValue > peerMaxInt then Inl PiecePositionTooLarge
        else Inr (uint indexValue, uint beginValue, drop 8 payload))"

section \<open>Handshake\<close>

definition protocolString :: bytes where
  "protocolString = str ''BitTorrent protocol''"

record Handshake =
  Reserved :: bytes
  HsInfoHash :: bytes
  HsPeerID :: bytes

datatype handshakeError =
    HandshakeTooShort
  | InvalidHandshakeLength
  | UnexpectedProtocol bytes
  | HandshakeNil
  | InfoHashMismatch
  | HandshakeIO ioError
  | InvalidProtocolLength

definition SerializeHandshake :: "Handshake \<Rightarrow> bytes" where
  "SerializeHandshake h =
     of_nat (length protocolString) # protocolString @ Reserved h @ HsInfoHash h @ HsPeerID h"

definition ParseHandshake :: "bytes \<Rightarrow> handshakeError + Handshake" where
  "ParseHandshake d =
     (if length d < 49 then Inl HandshakeTooShort
      else let protocolLength = unat (d ! 0) in
        if protocolLength = 0 \<or> length d \<noteq> 49 + protocolLength then Inl InvalidHandshakeLength
        else if sliceOf d 1 (1 + protocolLength) \<noteq> protocolString
          then Inl (UnexpectedProtocol (sliceOf d 1 (1 + protocolLength)))
        else let reservedStart = 1 + protocolLength in
          Inr \<lparr>Reserved = sliceOf d reservedStart (reservedStart + 8),
               HsInfoHash = sliceOf d (reservedStart + 8) (reservedStart + 28),
               HsPeerID = sliceOf d (reservedStart + 28) (reservedStart + 48)\<rparr>)"

definition Validate :: "Handshake option \<Rightarrow> bytes \<Rightarrow> handshakeError + unit" where
  "Validate h expectedInfoHash =
     (case h of
        None \<Rightarrow> Inl HandshakeNil
      | Some hs \<Rightarrow> guardR (HsInfoHash hs = expectedInfoHash) InfoHashMismatch)"

section \<open>Bitfield\<close>

text \<open>A \<open>Bitfield\<close> is the list of its \<open>Pieces\<close>; a nil pointer is \<open>None\<close>.\<close>

datatype bitfieldError =
    NegativePieceCount
  | BitfieldLength nat int
  | NonZeroSpareBits
  | PieceIndexOutside int

definition NewBitfield :: "int \<Rightarrow> bool list" where
  "NewBitfield totalPieces = replicate (nat (if totalPieces < 0 then 0 else totalPieces)) False"

definition payloadBit :: "bytes \<Rightarrow> nat \<Rightarrow> bool" where
  "payloadBit payload i \<longleftrightarrow> payload ! (i div 8) AND push_bit (7 - i mod 8) 1 \<noteq> 0"

definition ParseBitfield :: "bytes \<Rightarrow> int \<Rightarrow> bitfieldError + bool list" where
  "ParseBitfield payload totalPieces =
     (if totalPieces < 0 then Inl NegativePieceCount
      else let expectedLength = i64 (totalPieces + 7) sdiv 8 in
        if int (length payload) \<noteq> expectedLength
          then Inl (BitfieldLength (length payload) expectedLength)
        else if totalPieces mod 8 \<noteq> 0 \<and> length payload > 0 \<and>
            last payload AND (push_bit (nat (8 - totalPieces mod 8)) 1 - 1) \<noteq> 0
          then Inl NonZeroSpareBits
        else Inr (map (payloadBit payload) [0..<length (NewBitfield totalPieces)]))"

definition HasPiece :: "bool list option \<Rightarrow> int \<Rightarrow> bool" where
  "HasPiece b index =
     (case b of
        None \<Rightarrow> False
      | Some pieces \<Rightarrow> 0 \<le> index \<and> index < int (length pieces) \<and> pieces ! nat index)"

definition SetPiece :: "bool list option \<Rightarrow> int \<Rightarrow> bitfieldError + bool list" where
  "SetPiece b index =
     (case b of
        None \<Rightarrow> Inl (PieceIndexOutside index)
      | Some pieces \<Rightarrow>
          if index < 0 \<or> index \<ge> int (length pieces) then Inl (PieceIndexOutside index)
          else Inr (pieces[nat index := True]))"

section \<open>Peer id\<close>

datatype 'r peerIDError =
    RandFailed 'r
  | NegativeRandomLength
  | InvalidPeerIDLength nat

definition clientPrefix :: bytes where "clientPrefix = str ''-GO0001-''"
definition randomLength :: int where "randomLength = 12"
definition totalPeerIDLength :: nat where "totalPeerIDLength = 20"
definition charset :: bytes where "charset = str ''abcdefghijklmnopqrstuvwxyz0123456789''"

text \<open>
  The \<open>i\<close>-th \<open>rand.Int(rand.Reader, 36)\<close> is \<open>rnd i\<close>: an error, or a number below 36 (so that
  indexing the charset does not panic).
\<close>

fun randomChars :: "(nat \<Rightarrow> 'r + nat) \<Rightarrow> nat \<Rightarrow> nat \<Rightarrow> 'r peerIDError + bytes" where
  "randomChars rnd i 0 = Inr []"
| "randomChars rnd i (Suc n) =
     andThen (wrapErr RandFailed (rnd i)) (\<lambda>index.
       andThen (randomChars rnd (Suc i) n) (\<lambda>rest. Inr (charset ! index # rest)))"

definition generateRandomString :: "(nat \<Rightarrow> 'r + nat) \<Rightarrow> int \<Rightarrow> 'r peerIDError + bytes" where
  "generateRandomString rnd len =
     (if len < 0 then Inl NegativeRandomLength else randomChars rnd 0 (nat len))"

definition GeneratePeerID :: "(nat \<Rightarrow> 'r + nat) \<Rightarrow> 'r peerIDError + bytes" where
  "GeneratePeerID rnd =
     andThen (generateRandomString rnd randomLength) (\<lambda>randomPart.
       let fullID = clientPrefix @ randomPart in
       if length fullID \<noteq> totalPeerIDLength then Inl (InvalidPeerIDLength (length fullID))
       else Inr fullID)"

end
