(* ===== verification/WireSpec.thy ===== *)
theory WireSpec
  imports Wire
begin

text \<open>
  What the peer protocol promises: messages and handshakes are prefix-free codes (instances of \<open>codec\<close>),
  a bitfield is accepted exactly when it is the packing of its bits, requests, have and piece payloads
  round-trip, and peer ids have the documented shape.
\<close>

section \<open>Messages\<close>

text \<open>The frame of a message, and the messages a reader with a given limit can return.\<close>

definition messageFrame :: "Message \<Rightarrow> bytes" where
  "messageFrame m =
     (case ID m of
        None \<Rightarrow> [0, 0, 0, 0]
      | Some i \<Rightarrow> PutUint32 (of_nat (length (Payload m) + 1)) @ i # Payload m)"

definition wfMessage :: "32 word \<Rightarrow> Message \<Rightarrow> bool" where
  "wfMessage maxLength m \<longleftrightarrow> 0 < maxLength \<and>
     (case ID m of None \<Rightarrow> Payload m = [] | Some i \<Rightarrow> length (Payload m) < unat maxLength)"

lemma unat_of_nat_32: "n \<le> unat (w :: 32 word) \<Longrightarrow> unat (of_nat n :: 32 word) = n"
  using unsigned_less [where w = w and ?'a = nat] by (simp add: unat_of_nat take_bit_nat_eq_self)

lemma Uint32_four:
  "length b = 4 \<Longrightarrow> Uint32 b = w \<longleftrightarrow> b = PutUint32 w"
  using PutUint32_Uint32 by (auto simp: be_simps)

lemma PutUint32_0: "PutUint32 0 = [0, 0, 0, 0]"
  by (simp add: PutUint32_def)

lemma Uint32_0: "Uint32 [0, 0, 0, 0] = 0"
  by (simp add: Uint32_def)

lemma ReadFull_Inr [simp]:
  "ReadFull n r = Inr (b, rest) \<longleftrightarrow> length b = n \<and> r = b @ rest"
  by (auto simp: ReadFull_def)

lemma ReadFull_append: "length b = n \<Longrightarrow> ReadFull n (b @ rest) = Inr (b, rest)"
  by simp

lemma ReadMessage_step:
  "length b = 4 \<Longrightarrow> maxLength \<noteq> 0 \<Longrightarrow> ReadMessageWithLimit maxLength (b @ r1) =
     (let len = Uint32 b in
      if len = 0 then Inr (\<lparr>ID = None, Payload = []\<rparr>, r1)
      else if len > maxLength then Inl (MessageTooLong len maxLength)
      else andThen (wrapErr MessageIO (ReadFull (unat len) r1)) (\<lambda>(messageBuffer, r2).
        Inr (\<lparr>ID = Some (hd messageBuffer), Payload = tl messageBuffer\<rparr>, r2)))"
  by (simp only: ReadMessageWithLimit_def ReadFull_append wrapErr_simps andThen_simps prod.case if_False)

lemma Serialize_frame:
  assumes "wfMessage maxLength m" shows "Serialize (Some m) = Some (messageFrame m)"
proof (cases "ID m")
  case None with assms show ?thesis by (simp add: Serialize_def messageFrame_def)
next
  case (Some i)
  let ?n = "length (Payload m) + 1"
  have "unat (of_nat ?n :: 32 word) = ?n"
    using assms Some by (intro unat_of_nat_32 [of _ maxLength]) (simp add: wfMessage_def)
  then show ?thesis using Some by (simp add: Serialize_def messageFrame_def del: of_nat_Suc)
qed

lemma read_frame:
  assumes "wfMessage maxLength m"
  shows "ReadMessageWithLimit maxLength (messageFrame m @ rest) = Inr (m, rest)"
proof (cases "ID m")
  case None
  with assms have "m = \<lparr>ID = None, Payload = []\<rparr>" "maxLength \<noteq> 0"
    by (auto simp: wfMessage_def)
  then show ?thesis
    using ReadMessage_step [of "PutUint32 0" maxLength rest]
    by (simp add: messageFrame_def PutUint32_0 Uint32_0)
next
  case (Some i)
  let ?n = "length (Payload m) + 1"
  let ?w = "of_nat ?n :: 32 word"
  have len: "?n \<le> unat maxLength" "maxLength \<noteq> 0"
    using assms Some by (auto simp: wfMessage_def)
  then have w: "unat ?w = ?n" by (intro unat_of_nat_32)
  then have "?w \<noteq> 0" by (metis Suc_eq_plus1 nat.distinct(1) unat_0)
  moreover have "\<not> maxLength < ?w" using len w by (simp add: word_less_nat_alt)
  moreover have "ReadFull ?n ((i # Payload m) @ rest) = Inr (i # Payload m, rest)"
    by (rule ReadFull_append) simp
  ultimately show ?thesis
    using Some len(2) w ReadMessage_step [of "PutUint32 ?w" maxLength "(i # Payload m) @ rest"]
    by (simp add: messageFrame_def be_simps del: of_nat_Suc of_nat_add)
qed

lemma read_sound:
  assumes "ReadMessageWithLimit maxLength r = Inr (m, rest)"
  shows "wfMessage maxLength m \<and> r = messageFrame m @ rest"
proof -
  from assms have max0: "maxLength \<noteq> 0" by (auto simp: ReadMessageWithLimit_def split: if_splits)
  from assms max0 obtain b r1 where b: "length b = 4" "r = b @ r1"
    by (auto simp: ReadMessageWithLimit_def)
  note step = assms [unfolded b(2) ReadMessage_step [OF b(1) max0]]
  show ?thesis
  proof (cases "Uint32 b = 0")
    case True
    then have "m = \<lparr>ID = None, Payload = []\<rparr>" "rest = r1" using step by auto
    moreover have "b = PutUint32 0" using True b(1) Uint32_four by blast
    ultimately show ?thesis using b(2) max0
      by (simp add: wfMessage_def messageFrame_def word_gt_0 PutUint32_0)
  next
    case False
    with step obtain mb where mb: "length mb = unat (Uint32 b)" "r1 = mb @ rest"
      "m = \<lparr>ID = Some (hd mb), Payload = tl mb\<rparr>" and le: "\<not> maxLength < Uint32 b"
      by (auto simp: Let_def split: if_splits)
    from False mb(1) obtain i p where ip: "mb = i # p"
      by (cases mb) (auto simp: unat_eq_0)
    have "Uint32 b = of_nat (length p + 1)" using mb(1) ip by (simp add: word_unat_eq_iff)
    then have "b = PutUint32 (of_nat (length p + 1))" using b(1) Uint32_four by blast
    with mb ip b(2) le max0 show ?thesis
      by (auto simp: be_simps wfMessage_def messageFrame_def word_gt_0 word_less_nat_alt)
  qed
qed

interpretation wire: codec messageFrame "ReadMessageWithLimit maxLength" "wfMessage maxLength" for maxLength
  by unfold_locales (simp_all add: read_frame read_sound)

section \<open>Handshake\<close>

definition wfHandshake :: "Handshake \<Rightarrow> bool" where
  "wfHandshake h \<longleftrightarrow> length (Reserved h) = 8 \<and> length (HsInfoHash h) = 20 \<and> length (HsPeerID h) = 20"

lemma length_protocolString [simp]: "length protocolString = 19"
  by (simp add: protocolString_def)

lemma sliceOf_Cons_Suc: "sliceOf (x # xs) (Suc i) (Suc j) = sliceOf xs i j"
  by (simp add: sliceOf_def)

lemma ParseHandshake_iff:
  "ParseHandshake d = Inr h \<longleftrightarrow> wfHandshake h \<and> d = SerializeHandshake h"
proof
  assume h: "ParseHandshake d = Inr h"
  then obtain x xs where d: "d = x # xs" by (cases d) (auto simp: ParseHandshake_def)
  let ?n = "unat x"
  have n: "length xs = 48 + ?n" and p: "take ?n xs = protocolString"
    using h d by (auto simp: ParseHandshake_def Let_def sliceOf_def split: if_splits)
  have "?n = 19" using n p length_protocolString by (metis length_take min.absorb2 le_add2)
  then have x: "x = 19" by (simp add: word_unat_eq_iff)
  from h d x have hs: "h = \<lparr>Reserved = sliceOf xs 19 27, HsInfoHash = sliceOf xs 27 47, HsPeerID = sliceOf xs 47 67\<rparr>"
    by (auto simp: ParseHandshake_def Let_def sliceOf_def split: if_splits)
  have xs: "length xs = 67" "sliceOf xs 0 19 = protocolString"
    using n p \<open>?n = 19\<close> by (simp_all add: sliceOf_def)
  have "xs = sliceOf xs 0 67" using xs(1) by (simp add: sliceOf_def)
  also have "\<dots> = sliceOf xs 0 19 @ sliceOf xs 19 27 @ sliceOf xs 27 47 @ sliceOf xs 47 67"
    using sliceOf_split [of 0 19 67 xs] sliceOf_split [of 19 27 67 xs] sliceOf_split [of 27 47 67 xs]
    by simp
  finally have "xs = protocolString @ Reserved h @ HsInfoHash h @ HsPeerID h"
    using xs(2) hs by simp
  then show "wfHandshake h \<and> d = SerializeHandshake h"
    using hs xs(1) d x by (simp add: wfHandshake_def SerializeHandshake_def length_sliceOf)
next
  assume "wfHandshake h \<and> d = SerializeHandshake h"
  then show "ParseHandshake d = Inr h"
    by (auto simp: ParseHandshake_def SerializeHandshake_def wfHandshake_def sliceOf_def)
qed

section \<open>Bitfield\<close>

text \<open>The packing of a bitfield: eight pieces to a byte, the first one in the highest bit, spare bits 0.\<close>

definition pieceBit :: "bool list \<Rightarrow> nat \<Rightarrow> bool" where
  "pieceBit ps i \<longleftrightarrow> i < length ps \<and> ps ! i"

definition packByte :: "bool list \<Rightarrow> nat \<Rightarrow> byte" where
  "packByte ps j = horner_sum of_bool 2 (map (\<lambda>k. pieceBit ps (8 * j + (7 - k))) [0..<8])"

definition packBits :: "bool list \<Rightarrow> bytes" where
  "packBits ps = map (packByte ps) [0..<(length ps + 7) div 8]"

lemma bit_packByte: "k < 8 \<Longrightarrow> bit (packByte ps j) k \<longleftrightarrow> pieceBit ps (8 * j + (7 - k))"
  by (auto simp: packByte_def bit_horner_sum_bit_iff simp del: upt_Suc)

lemma payloadBit_iff: "payloadBit p i \<longleftrightarrow> bit (p ! (i div 8)) (7 - i mod 8)"
  by (simp add: payloadBit_def bit_iff_and_push_bit_not_eq_0)

lemma spare_iff: "w AND (push_bit m 1 - 1) = 0 \<longleftrightarrow> (\<forall>k<m. \<not> bit (w :: byte) k)"
proof -
  have "push_bit m 1 - 1 = (mask m :: byte)" by (simp add: mask_eq_exp_minus_1 push_bit_eq_mult)
  then have w: "w AND (push_bit m 1 - 1) = take_bit m w" by (simp add: take_bit_eq_mask)
  show ?thesis unfolding w using bit_imp_le_length [of w] by (fastforce simp: bit_eq_iff bit_simps)
qed

lemma byte_index: "x < 8 \<Longrightarrow> (8 * j + x) div 8 = j \<and> (8 * j + x) mod 8 = (x :: nat)"
  by simp

lemma packBits_iff:
  "p = packBits ps \<longleftrightarrow> length p = (length ps + 7) div 8 \<and>
     (\<forall>i < 8 * length p. payloadBit p i = pieceBit ps i)"
proof
  assume p: "p = packBits ps"
  have "payloadBit p i = pieceBit ps i" if "i < 8 * length p" for i
  proof -
    have "p ! (i div 8) = packByte ps (i div 8)" using that by (auto simp: p packBits_def)
    then show ?thesis by (simp add: payloadBit_iff bit_packByte)
  qed
  then show "length p = (length ps + 7) div 8 \<and> (\<forall>i < 8 * length p. payloadBit p i = pieceBit ps i)"
    by (simp add: p packBits_def)
next
  assume h: "length p = (length ps + 7) div 8 \<and> (\<forall>i < 8 * length p. payloadBit p i = pieceBit ps i)"
  show "p = packBits ps"
  proof (rule nth_equalityI)
    fix j assume j: "j < length p"
    show "p ! j = packBits ps ! j"
    proof (rule bit_word_eqI)
      fix k assume "k < LENGTH(8)"
      then have k: "k < 8" by simp
      let ?i = "8 * j + (7 - k)"
      have "?i div 8 = j" "?i mod 8 = 7 - k" using byte_index [of "7 - k" j] by simp_all
      then have "?i div 8 = j" "7 - ?i mod 8 = k" "?i < 8 * length p" using k j by simp_all
      then have "bit (p ! j) k = pieceBit ps ?i" using h by (metis payloadBit_iff)
      then show "bit (p ! j) k = bit (packBits ps ! j) k"
        using j h k by (simp add: packBits_def bit_packByte)
    qed
  qed (use h in \<open>simp add: packBits_def\<close>)
qed

lemma ceil8:
  fixes n :: nat
  shows "n mod 8 = 0 \<Longrightarrow> 8 * ((n + 7) div 8) = n"
    and "n mod 8 \<noteq> 0 \<Longrightarrow> (n + 7) div 8 = n div 8 + 1"
    and "n \<le> 8 * ((n + 7) div 8)"
proof -
  define q r where "q = n div 8" and "r = n mod 8"
  have n: "n = 8 * q + r" "r < 8" by (simp_all add: q_def r_def)
  have "(n + 7) div 8 = q + (r + 7) div 8" using n(1) by (simp add: add.assoc)
  moreover have "(r + 7) div 8 = (if r = 0 then 0 else 1)" using n(2) by (auto intro: div_nat_eqI)
  ultimately have "(n + 7) div 8 = (if r = 0 then q else q + 1)" by simp
  then show "n mod 8 = 0 \<Longrightarrow> 8 * ((n + 7) div 8) = n"
    "n mod 8 \<noteq> 0 \<Longrightarrow> (n + 7) div 8 = n div 8 + 1" "n \<le> 8 * ((n + 7) div 8)"
    using n by (simp_all add: q_def [symmetric] r_def [symmetric])
qed

lemma spare_bits_iff:
  assumes len: "length p = (n + 7) div 8" and pos: "p \<noteq> []"
  shows "(n mod 8 \<noteq> 0 \<and> last p AND (push_bit (8 - n mod 8) 1 - 1) \<noteq> 0) \<longleftrightarrow>
     (\<exists>i. n \<le> i \<and> i < 8 * length p \<and> payloadBit p i)"
proof (cases "n mod 8 = 0")
  case True
  then have "8 * length p = n" using len ceil8(1) by simp
  with True show ?thesis by simp
next
  case False
  define j r where "j = length p - 1" and "r = n mod 8"
  have jr: "n = 8 * j + r" "0 < r" "r < 8" "last p = p ! j" "8 * length p = 8 * j + 8"
  proof -
    have "length p = n div 8 + 1" using len False ceil8(2) by simp
    then show "n = 8 * j + r" "8 * length p = 8 * j + 8" by (simp_all add: j_def r_def)
    show "0 < r" "r < 8" "last p = p ! j" using False pos by (simp_all add: r_def j_def last_conv_nth)
  qed
  have "(\<exists>k<8 - r. bit (last p) k) \<longleftrightarrow> (\<exists>i. n \<le> i \<and> i < 8 * length p \<and> payloadBit p i)"
  proof
    assume "\<exists>k<8 - r. bit (last p) k"
    then obtain k where k: "k < 8 - r" "bit (p ! j) k" using jr by auto
    let ?i = "8 * j + (7 - k)"
    have "?i div 8 = j" "?i mod 8 = 7 - k" using byte_index [of "7 - k" j] by simp_all
    moreover have "n \<le> ?i" "?i < 8 * length p" "7 - (7 - k) = k" using k jr by linarith+
    ultimately show "\<exists>i. n \<le> i \<and> i < 8 * length p \<and> payloadBit p i" using k jr
      by (intro exI [of _ ?i]) (simp add: payloadBit_iff)
  next
    assume "\<exists>i. n \<le> i \<and> i < 8 * length p \<and> payloadBit p i"
    then obtain i where i: "n \<le> i" "i < 8 * length p" "payloadBit p i" by auto
    then have "i = 8 * j + (i - 8 * j)" "i - 8 * j < 8" "r \<le> i - 8 * j" using jr by simp_all
    then have "i div 8 = j" "r \<le> i mod 8" using byte_index by metis+
    with i jr show "\<exists>k<8 - r. bit (last p) k"
      by (intro exI [of _ "7 - i mod 8"]) (auto simp: payloadBit_iff)
  qed
  then show ?thesis using False spare_iff [of "last p" "8 - r"] by (simp add: r_def [symmetric])
qed

lemma ParseBitfield_nat:
  assumes "int n \<le> MaxInt64 - 7"
  shows "ParseBitfield p (int n) =
    (if length p \<noteq> (n + 7) div 8 then Inl (BitfieldLength (length p) (int ((n + 7) div 8)))
     else if \<exists>i. n \<le> i \<and> i < 8 * length p \<and> payloadBit p i then Inl NonZeroSpareBits
     else Inr (map (payloadBit p) [0..<n]))"
proof -
  have "i64 (int n + 7) sdiv 8 = int ((n + 7) div 8)"
    using assms by (simp add: i64_nonneg_id signed_divide_int_def sgn_if zdiv_int)
  moreover have "int n mod 8 = int (n mod 8)" by (simp add: zmod_int)
  moreover from this have "nat (8 - int n mod 8) = 8 - n mod 8" by linarith
  ultimately show ?thesis
    using spare_bits_iff [of p n]
    by (cases "p = []") (auto simp: ParseBitfield_def NewBitfield_def Let_def)
qed

lemma ParseBitfield_nat_iff:
  assumes "int n \<le> MaxInt64 - 7"
  shows "ParseBitfield p (int n) = Inr ps \<longleftrightarrow> length ps = n \<and> p = packBits ps"
proof -
  have "ParseBitfield p (int n) = Inr ps \<longleftrightarrow> length p = (n + 7) div 8 \<and>
      (\<forall>i. n \<le> i \<longrightarrow> i < 8 * length p \<longrightarrow> \<not> payloadBit p i) \<and> ps = map (payloadBit p) [0..<n]"
    using assms by (auto simp: ParseBitfield_nat)
  also have "\<dots> \<longleftrightarrow> length ps = n \<and> p = packBits ps"
    (is "?l \<longleftrightarrow> ?r")
  proof
    assume l: ?l
    then have "payloadBit p i = pieceBit ps i" if "i < 8 * length p" for i
      using that by (cases "i < n") (auto simp: pieceBit_def)
    with l show ?r unfolding packBits_iff by auto
  next
    assume ?r
    then have r: "length ps = n" "length p = (n + 7) div 8"
        "\<And>i. i < 8 * length p \<Longrightarrow> payloadBit p i = pieceBit ps i"
      unfolding packBits_iff by auto
    have "n \<le> 8 * length p" using r(2) ceil8(3) by simp
    then have "ps = map (payloadBit p) [0..<n]"
      using r(1,3) by (intro nth_equalityI) (auto simp: pieceBit_def)
    then show ?l using r by (auto simp: pieceBit_def)
  qed
  finally show ?thesis .
qed

lemma ParseBitfield_length:
  assumes "ParseBitfield p n = Inr ps" shows "int (length ps) = n"
  using assms by (auto simp: ParseBitfield_def NewBitfield_def Let_def split: if_splits)

section \<open>Have, request and piece payloads\<close>

lemma peerMaxInt: "peerMaxInt = 2 ^ 63 - 1"
  by (simp add: peerMaxInt_def mask_eq_exp_minus_1)

lemma uint32_le: "uint (w :: 32 word) \<le> peerMaxInt" "uint w < 2 ^ 32"
  using uint_lt2p [of w] by (simp_all add: peerMaxInt)

lemma uint_of_int_32: "0 \<le> i \<Longrightarrow> i < 2 ^ 32 \<Longrightarrow> uint (of_int i :: 32 word) = i"
  by (simp add: uint_word_of_int)

lemma uint_32_iff: "uint (w :: 32 word) = i \<longleftrightarrow> 0 \<le> i \<and> i < 2 ^ 32 \<and> w = of_int i"
  using uint32_le(2) [of w] uint_of_int_32 [of i] by auto

lemma Uint32_uint: "length b = 4 \<Longrightarrow> PutUint32 (of_int (uint (Uint32 b))) = b"
  by (simp add: PutUint32_Uint32)

section \<open>Peer ids\<close>

lemma randomChars_length: "randomChars rnd i n = Inr cs \<Longrightarrow> length cs = n"
  by (induction n arbitrary: i cs) auto

lemma randomChars_charset:
  assumes rnd: "\<And>j x. rnd j = Inr x \<Longrightarrow> x < length charset"
  shows "randomChars rnd i n = Inr cs \<Longrightarrow> set cs \<subseteq> set charset"
proof (induction n arbitrary: i cs)
  case (Suc n)
  then obtain x ds where x: "rnd i = Inr x" and ds: "randomChars rnd (Suc i) n = Inr ds"
    and cs: "cs = charset ! x # ds" by auto
  have "charset ! x \<in> set charset" by (rule nth_mem [OF rnd [OF x]])
  with Suc.IH [OF ds] cs show ?case by simp
qed simp

lemma randomChars_error:
  "randomChars rnd i n = Inl e \<Longrightarrow> \<exists>j x. i \<le> j \<and> j < i + n \<and> rnd j = Inl x \<and> e = RandFailed x"
proof (induction n arbitrary: i)
  case (Suc n)
  show ?case
  proof (cases "rnd i")
    case (Inl a)
    with Suc.prems show ?thesis by (intro exI [of _ i]) auto
  next
    case (Inr b)
    with Suc.prems have "randomChars rnd (Suc i) n = Inl e"
      by (cases "randomChars rnd (Suc i) n") auto
    with Suc.IH [of "Suc i"] obtain j x where "Suc i \<le> j" "j < Suc i + n" "rnd j = Inl x" "e = RandFailed x"
      by auto
    then show ?thesis by (intro exI [of _ j]) simp
  qed
qed simp

section \<open>Properties\<close>

text \<open>
  C18. A reader returns a message exactly when the stream starts with the serialization of that message
  and the message respects the limit: what \<open>Serialize\<close> writes is read back, and nothing else is ever
  read.
\<close>

theorem ReadMessage_iff_Serialize:
  "ReadMessageWithLimit maxLength r = Inr (m, rest) \<longleftrightarrow>
     wfMessage maxLength m \<and> (\<exists>bs. Serialize (Some m) = Some bs \<and> r = bs @ rest)"
  using wire.dec_iff [of maxLength r m rest] Serialize_frame [of maxLength m] by auto

text \<open>
  C26. A stream of messages is cut in exactly one way: after the serializations of \<open>ms\<close>, as many reads
  return \<open>ms\<close> in order, leave what follows untouched, and no proper prefix of one serialization is
  read as a message.
\<close>

theorem message_stream:
  assumes "\<forall>m\<in>set ms. wfMessage maxLength m"
  shows "decodeMany (ReadMessageWithLimit maxLength) (length ms)
           (concat (map (\<lambda>m. the (Serialize (Some m))) ms) @ rest) = Inr (ms, rest) \<and>
         (\<forall>m\<in>set ms. \<forall>xs ys. Serialize (Some m) = Some (xs @ ys) \<and> ys \<noteq> [] \<longrightarrow>
            (\<exists>e. ReadMessageWithLimit maxLength xs = Inl e))"
proof
  have "the (Serialize (Some m)) = messageFrame m" if "m \<in> set ms" for m
    using assms Serialize_frame [of maxLength m] that by simp
  then have eq: "map (\<lambda>m. the (Serialize (Some m))) ms = map messageFrame ms"
    by (intro map_cong refl)
  show "decodeMany (ReadMessageWithLimit maxLength) (length ms)
      (concat (map (\<lambda>m. the (Serialize (Some m))) ms) @ rest) = Inr (ms, rest)"
    unfolding eq using assms by (intro wire.decodeMany_concat) blast
  show "\<forall>m\<in>set ms. \<forall>xs ys. Serialize (Some m) = Some (xs @ ys) \<and> ys \<noteq> [] \<longrightarrow>
      (\<exists>e. ReadMessageWithLimit maxLength xs = Inl e)"
    using assms wire.truncated [of maxLength] Serialize_frame by fastforce
qed

theorem message_stream_witness:
  "decodeMany (ReadMessageWithLimit 16) 2
     (concat (map (\<lambda>m. the (Serialize (Some m))) [NewInterested, NewHave 7]) @ [1]) =
       Inr ([NewInterested, NewHave 7], [1])"
proof -
  have "\<forall>m\<in>set [NewInterested, NewHave 7]. wfMessage 16 m"
    by (simp add: wfMessage_def NewInterested_def NewHave_def)
  from message_stream [OF this, of "[1]"] show ?thesis by (simp only: list.size numeral_2_eq_2 One_nat_def add_0_right plus_nat.simps)
qed

text \<open>
  C34. \<open>ParseHandshake\<close> accepts exactly the serializations of handshakes with the reserved bytes, the info
  hash and the peer id at their fixed widths, and gives that handshake back.
\<close>

theorem ParseHandshake_exact:
  "ParseHandshake d = Inr h \<longleftrightarrow>
     length (Reserved h) = 8 \<and> length (HsInfoHash h) = 20 \<and> length (HsPeerID h) = 20 \<and>
     d = SerializeHandshake h"
  using ParseHandshake_iff by (auto simp: wfHandshake_def)

text \<open>
  C35. \<open>ParseBitfield\<close> accepts a payload exactly when it is the packing of as many bits as the torrent has
  pieces, first piece in the highest bit and spare bits zero, and gives those bits back.
\<close>

theorem ParseBitfield_exact:
  assumes "0 \<le> n" "n \<le> MaxInt64 - 7"
  shows "ParseBitfield p n = Inr ps \<longleftrightarrow> int (length ps) = n \<and> p = packBits ps"
  using ParseBitfield_nat_iff [of "nat n" p ps] assms by auto

theorem ParseBitfield_exact_witness:
  "packBits [True, False, False, False, False, False, False, False, True, True] = [128, 192] \<and>
   ParseBitfield [128, 192] 10 =
     Inr [True, False, False, False, False, False, False, False, True, True]"
proof -
  let ?ps = "[True, False, False, False, False, False, False, False, True, True]"
  have "packBits ?ps = [128, 192]"
    by code_simp
  moreover have "(0::int) \<le> 10" "10 \<le> MaxInt64 - 7" by (simp_all add: MaxInt64_def)
  note ParseBitfield_exact [OF this, of "packBits ?ps" ?ps]
  ultimately show ?thesis by simp
qed

text \<open>
  C36. The payloads of have and piece messages are decoded exactly: \<open>ParseHave\<close> accepts the payloads that
  \<open>NewHave\<close> builds, and \<open>ParsePiece\<close> those made of two big-endian 32-bit numbers and the block.
\<close>

theorem payloads_exact:
  "(ParseHave p = Inr i \<longleftrightarrow> 0 \<le> i \<and> i < 2 ^ 32 \<and> p = Payload (NewHave i)) \<and>
   (ParsePiece p = Inr (i, b, blk) \<longleftrightarrow> 0 \<le> i \<and> i < 2 ^ 32 \<and> 0 \<le> b \<and> b < 2 ^ 32 \<and>
      p = PutUint32 (of_int i) @ PutUint32 (of_int b) @ blk)"
proof
  show "ParseHave p = Inr i \<longleftrightarrow> 0 \<le> i \<and> i < 2 ^ 32 \<and> p = Payload (NewHave i)"
  proof (cases "length p = 4")
    case True
    then obtain w where p: "p = PutUint32 w" using Uint32_four by blast
    have "ParseHave p = Inr (uint w)"
      using uint32_le(1) [of w] by (simp add: p ParseHave_def be_simps not_less)
    moreover have "p = Payload (NewHave i) \<longleftrightarrow> w = of_int i"
      using inj_PutUint(2) by (simp add: p NewHave_def inj_eq)
    ultimately show ?thesis using uint_32_iff [of w i] by auto
  qed (auto simp: ParseHave_def NewHave_def)
  show "ParsePiece p = Inr (i, b, blk) \<longleftrightarrow> 0 \<le> i \<and> i < 2 ^ 32 \<and> 0 \<le> b \<and> b < 2 ^ 32 \<and>
      p = PutUint32 (of_int i) @ PutUint32 (of_int b) @ blk" (is "?l \<longleftrightarrow> ?r")
  proof
    assume l: ?l
    then have len: "8 \<le> length p" by (auto simp: ParsePiece_def split: if_splits)
    let ?x = "sliceOf p 0 4" and ?y = "sliceOf p 4 8"
    have "p = ?x @ ?y @ drop 8 p"
      using len sliceOf_split [of 0 4 8 p] by (simp add: sliceOf_def) (metis append.assoc append_take_drop_id)
    moreover have "length ?x = 4" "length ?y = 4" using len by (simp_all add: length_sliceOf)
    moreover have "i = uint (Uint32 ?x)" "b = uint (Uint32 ?y)" "blk = drop 8 p"
      using l len by (auto simp: ParsePiece_def Let_def split: if_splits)
    ultimately show ?r
      using uint32_le [of "Uint32 ?x"] uint32_le [of "Uint32 ?y"] by (simp add: PutUint32_Uint32)
  next
    assume r: ?r
    then have "sliceOf p 0 4 = PutUint32 (of_int i)" "sliceOf p 4 8 = PutUint32 (of_int b)"
      by (simp_all add: sliceOf_def)
    with r show ?l
      using uint32_le [of "of_int i"] uint32_le [of "of_int b"]
      by (simp add: ParsePiece_def be_simps uint_of_int_32 not_less)
  qed
qed

text \<open>
  If the random source keeps to its range, \<open>GeneratePeerID\<close> returns the client prefix followed by
  twelve letters or digits, twenty bytes in all, and it fails only with an error of the random source.
\<close>

theorem GeneratePeerID_shape:
  assumes "\<And>j x. rnd j = Inr x \<Longrightarrow> x < 36"
  shows "(\<exists>cs. GeneratePeerID rnd = Inr (clientPrefix @ cs) \<and> length cs = 12 \<and>
            set cs \<subseteq> set charset \<and> length (clientPrefix @ cs) = 20) \<or>
         (\<exists>j x. j < 12 \<and> rnd j = Inl x \<and> GeneratePeerID rnd = Inl (RandFailed x))"
proof (cases "randomChars rnd 0 12")
  case (Inl e)
  then show ?thesis using randomChars_error [OF Inl]
    by (auto simp: GeneratePeerID_def generateRandomString_def randomLength_def)
next
  case (Inr cs)
  have "length charset = 36" by (simp add: charset_def)
  then have "set cs \<subseteq> set charset" using randomChars_charset [OF _ Inr] assms by simp
  moreover have "length cs = 12" using Inr by (rule randomChars_length)
  ultimately show ?thesis using Inr
    by (simp add: GeneratePeerID_def generateRandomString_def randomLength_def
        clientPrefix_def totalPeerIDLength_def)
qed

theorem GeneratePeerID_shape_witness:
  "\<exists>cs. GeneratePeerID (\<lambda>_. Inr 35 :: unit + nat) = Inr (clientPrefix @ cs) \<and> length cs = 12"
proof -
  let ?rnd = "\<lambda>_. Inr 35 :: unit + nat"
  have "\<And>j x. ?rnd j = Inr x \<Longrightarrow> x < 36" by simp
  from GeneratePeerID_shape [of ?rnd, OF this] show ?thesis by auto
qed

end
