(* ===== verification/Actions.thy ===== *)
theory Actions
  imports Prelude
begin

text \<open>
  Go code that changes a state and may return an error: an action maps a state to a result and the next
  state. \<open>bindA\<close> is the sequence with its \<open>if err != nil { return err }\<close>, \<open>errA\<close> wraps an error
  on its way out, \<open>catchA\<close> looks at the error instead of returning it. \<open>keepsA I m\<close> says that \<open>m\<close>
  preserves \<open>I\<close> whatever it returns, so an error path is covered as well; its rules are in \<open>keeps\<close>.
\<close>

named_theorems keeps

type_synonym ('s, 'e, 'a) act = "'s \<Rightarrow> ('e + 'a) \<times> 's"

definition retA :: "'a \<Rightarrow> ('s, 'e, 'a) act" where
  "retA x s = (Inr x, s)"

definition failA :: "'e \<Rightarrow> ('s, 'e, 'a) act" where
  "failA e s = (Inl e, s)"

definition bindA :: "('s, 'e, 'a) act \<Rightarrow> ('a \<Rightarrow> ('s, 'e, 'b) act) \<Rightarrow> ('s, 'e, 'b) act" where
  "bindA m f s = (case m s of (Inl e, t) \<Rightarrow> (Inl e, t) | (Inr x, t) \<Rightarrow> f x t)"

definition seqA :: "('s, 'e, 'a) act \<Rightarrow> ('s, 'e, 'b) act \<Rightarrow> ('s, 'e, 'b) act" where
  "seqA m n = bindA m (\<lambda>_. n)"

definition liftA :: "'e + 'a \<Rightarrow> ('s, 'e, 'a) act" where
  "liftA r s = (r, s)"

definition errA :: "('e \<Rightarrow> 'f) \<Rightarrow> ('s, 'e, 'a) act \<Rightarrow> ('s, 'f, 'a) act" where
  "errA w m s = (case m s of (r, t) \<Rightarrow> (wrapErr w r, t))"

definition catchA :: "('s, 'e, 'a) act \<Rightarrow> ('e + 'a \<Rightarrow> ('s, 'f, 'b) act) \<Rightarrow> ('s, 'f, 'b) act" where
  "catchA m f s = (case m s of (r, t) \<Rightarrow> f r t)"

definition guardA :: "bool \<Rightarrow> 'e \<Rightarrow> ('s, 'e, unit) act" where
  "guardA c e = (if c then retA () else failA e)"

lemmas act_defs = retA_def failA_def bindA_def seqA_def liftA_def errA_def catchA_def guardA_def

lemma retA_iff [simp]: "retA x s = (r, t) \<longleftrightarrow> r = Inr x \<and> t = s"
  by (auto simp: retA_def)

lemma failA_iff [simp]: "failA e s = (r, t) \<longleftrightarrow> r = Inl e \<and> t = s"
  by (auto simp: failA_def)

lemma liftA_iff [simp]: "liftA v s = (r, t) \<longleftrightarrow> v = r \<and> t = s"
  by (auto simp: liftA_def)

lemma guardA_iff [simp]: "guardA c e s = (Inr u, t) \<longleftrightarrow> c \<and> t = s"
  by (auto simp: guardA_def retA_def failA_def)

lemma bindA_Inr [simp]:
  "bindA m f s = (Inr y, t) \<longleftrightarrow> (\<exists>x u. m s = (Inr x, u) \<and> f x u = (Inr y, t))"
  by (auto simp: bindA_def split: prod.splits sum.splits)

lemma seqA_Inr [simp]:
  "seqA m n s = (Inr y, t) \<longleftrightarrow> (\<exists>x u. m s = (Inr x, u) \<and> n u = (Inr y, t))"
  by (simp add: seqA_def)

lemma errA_Inr [simp]: "errA w m s = (Inr y, t) \<longleftrightarrow> m s = (Inr y, t)"
  by (auto simp: errA_def split: prod.splits)

lemma catchA_iff: "catchA m f s = (r, t) \<longleftrightarrow> (\<exists>v u. m s = (v, u) \<and> f v u = (r, t))"
  by (auto simp: catchA_def split: prod.splits)

lemma bindA_cong [fundef_cong]:
  assumes "m s = m' s'" "\<And>x u. m' s' = (Inr x, u) \<Longrightarrow> f x u = f' x u"
  shows "bindA m f s = bindA m' f' s'"
  using assms by (auto simp: bindA_def split: prod.splits sum.splits)

definition keepsA :: "('s \<Rightarrow> bool) \<Rightarrow> ('s, 'e, 'a) act \<Rightarrow> bool" where
  "keepsA I m \<longleftrightarrow> (\<forall>s. I s \<longrightarrow> I (snd (m s)))"

lemma keepsAD: "keepsA I m \<Longrightarrow> I s \<Longrightarrow> m s = (r, t) \<Longrightarrow> I t"
  by (metis keepsA_def snd_conv)

lemma keepsA_ret [keeps]: "keepsA I (retA x)" "keepsA I (failA e)" "keepsA I (liftA r)"
    "keepsA I (guardA c e')"
  by (auto simp: keepsA_def act_defs)

lemma keepsA_bind [keeps]:
  "keepsA I m \<Longrightarrow> (\<And>x. keepsA I (f x)) \<Longrightarrow> keepsA I (bindA m f)"
  by (auto simp: keepsA_def bindA_def split: prod.splits sum.splits)

lemma keepsA_seq [keeps]: "keepsA I m \<Longrightarrow> keepsA I n \<Longrightarrow> keepsA I (seqA m n)"
  by (simp add: seqA_def keepsA_bind)

lemma keepsA_err [keeps]: "keepsA I m \<Longrightarrow> keepsA I (errA w m)"
  by (auto simp: keepsA_def errA_def split: prod.splits)

lemma keepsA_catch [keeps]:
  "keepsA I m \<Longrightarrow> (\<And>x. keepsA I (f x)) \<Longrightarrow> keepsA I (catchA m f)"
  by (auto simp: keepsA_def catchA_def split: prod.splits)

lemma keepsA_if [keeps]: "keepsA I m \<Longrightarrow> keepsA I n \<Longrightarrow> keepsA I (if c then m else n)"
  by simp

section \<open>Evaluation\<close>

text \<open>
  Running an action on a concrete state with the simplifier: \<open>act_eval\<close> unfolds one step, \<open>act_cong\<close> keeps
  the continuation as it is until its argument is known.
\<close>

definition contA :: "('e + 'a) \<times> 's \<Rightarrow> ('a \<Rightarrow> ('s, 'e, 'b) act) \<Rightarrow> ('e + 'b) \<times> 's" where
  "contA p f = (case p of (Inl e, t) \<Rightarrow> (Inl e, t) | (Inr x, t) \<Rightarrow> f x t)"

definition alwaysA :: "('e + 'a) \<times> 's \<Rightarrow> ('e + 'a \<Rightarrow> ('s, 'f, 'b) act) \<Rightarrow> ('f + 'b) \<times> 's" where
  "alwaysA p f = (case p of (r, t) \<Rightarrow> f r t)"

lemma act_eval:
  "bindA m f s = contA (m s) f" "seqA m n s = contA (m s) (\<lambda>_. n)"
  "contA (Inl e, t) f = (Inl e, t)" "contA (Inr x, t) f = f x t"
  "catchA m h s = alwaysA (m s) h" "alwaysA (r, t) h = h r t"
  "errA w m s = alwaysA (m s) (\<lambda>r. liftA (wrapErr w r))"
  "retA x s = (Inr x, s)" "failA e' s = (Inl e', s)" "liftA r' s = (r', s)"
  "guardA c e' s = (if c then Inr () else Inl e', s)"
  by (simp_all add: act_defs contA_def alwaysA_def split: prod.splits)

lemma act_cong:
  "bindA m f s = bindA m f s" "seqA m n s = seqA m n s" "catchA m h s = catchA m h s"
  "errA w m s = errA w m s" "p = q \<Longrightarrow> contA p f = contA q f" "p' = q' \<Longrightarrow> alwaysA p' h' = alwaysA q' h'"
  by simp_all

end
