(* ===== verification/FileSys.thy ===== *)
theory FileSys
  imports Actions GoStrings
begin

text \<open>
  The part of \<open>os\<close> and \<open>path/filepath\<close> that the storage uses, on a Unix system.

  \<^item> A path is a cleaned path: whether it is rooted, and its components.
  \<^item> The file system maps paths to nodes. A symlink is a node that says whether it leads to a
    directory; what is reached through it stands below its own path, so two names of one directory
    are two subtrees. No operation here opens a file through a symlink.
  \<^item> Every system call may fail: \<open>faults\<close> lists the outcome of the calls to come, \<open>Some (n, e)\<close>
    for a call that fails with the error number \<open>e\<close> (a write may have stored \<open>n\<close> bytes by then, every other call has
    had no effect), \<open>None\<close> or the end of the list for one that works.
\<close>

section \<open>Paths\<close>

datatype path = Path (rooted: bool) (parts: "bytes list")

definition sep :: byte where "sep = 47"

fun splitSep :: "bytes \<Rightarrow> bytes list" where
  "splitSep [] = [[]]"
| "splitSep (c # cs) =
     (if c = sep then [] # splitSep cs
      else case splitSep cs of [] \<Rightarrow> [[c]] | x # xs \<Rightarrow> (c # x) # xs)"

text \<open>\<open>filepath.Clean\<close> on components; the accumulator is reversed.\<close>

fun cleanParts :: "bool \<Rightarrow> bytes list \<Rightarrow> bytes list \<Rightarrow> bytes list" where
  "cleanParts r acc [] = rev acc"
| "cleanParts r acc (c # cs) =
     (if c = [] \<or> c = str ''.'' then cleanParts r acc cs
      else if c = str ''..'' then
        (case acc of
           [] \<Rightarrow> cleanParts r (if r then [] else [c]) cs
         | a # as \<Rightarrow> if a = str ''..'' then cleanParts r (c # acc) cs else cleanParts r as cs)
      else cleanParts r (c # acc) cs)"

definition parsePath :: "bytes \<Rightarrow> path" where
  "parsePath s = (let r = (s \<noteq> [] \<and> hd s = sep) in Path r (cleanParts r [] (splitSep s)))"

definition joinPath :: "path \<Rightarrow> bytes list \<Rightarrow> path" where
  "joinPath p cs = Path (rooted p) (cleanParts (rooted p) (rev (parts p)) (concat (map splitSep cs)))"

definition dirPath :: "path \<Rightarrow> path" where
  "dirPath p = Path (rooted p) (butlast (parts p))"

fun relParts :: "bytes list \<Rightarrow> bytes list \<Rightarrow> bytes list \<times> bytes list" where
  "relParts (b # bs) (t # ts) = (if b = t then relParts bs ts else (b # bs, t # ts))"
| "relParts bs ts = (bs, ts)"

text \<open>\<open>filepath.Rel\<close>; the empty list is ".".\<close>

definition relPath :: "path \<Rightarrow> path \<Rightarrow> bytes list option" where
  "relPath base targ =
     (if rooted base \<noteq> rooted targ then None
      else case relParts (parts base) (parts targ) of (bs, ts) \<Rightarrow>
        if str ''..'' \<in> set bs then None else Some (replicate (length bs) (str ''..'') @ ts))"

definition below :: "path \<Rightarrow> bytes list \<Rightarrow> path" where
  "below p cs = Path (rooted p) (parts p @ cs)"

section \<open>The file system\<close>

datatype node = FileN bytes | DirN | SymlinkN bool

datatype osError = ErrNotExist | ErrNotDirectory | ErrIsDirectory | ErrExist | ErrInvalid | ErrEOF | ErrIO nat

record os =
  nodes :: "path \<Rightarrow> node option"
  faults :: "(nat \<times> nat) option list"

text \<open>One system call: take its outcome off \<open>faults\<close>.\<close>

definition sysCall :: "(os, osError, 'a) act \<Rightarrow> (os, osError, 'a) act" where
  "sysCall m s =
     (case faults s of
        [] \<Rightarrow> m s
      | None # fs \<Rightarrow> m (s\<lparr>faults := fs\<rparr>)
      | Some (n, e) # fs \<Rightarrow> (Inl (ErrIO e), s\<lparr>faults := fs\<rparr>))"

definition getNode :: "path \<Rightarrow> os \<Rightarrow> node option" where
  "getNode p s = (if parts p = [] then Some DirN else nodes s p)"

definition setNode :: "path \<Rightarrow> node \<Rightarrow> os \<Rightarrow> os" where
  "setNode p n s = s\<lparr>nodes := (nodes s)(p := Some n)\<rparr>"

definition isDirAt :: "path \<Rightarrow> os \<Rightarrow> bool" where
  "isDirAt p s \<longleftrightarrow> getNode p s = Some DirN \<or> getNode p s = Some (SymlinkN True)"

definition Lstat :: "path \<Rightarrow> (os, osError, node) act" where
  "Lstat p = sysCall (\<lambda>s. (case getNode p s of None \<Rightarrow> Inl ErrNotExist | Some n \<Rightarrow> Inr n, s))"

text \<open>\<open>os.MkdirAll\<close>: every missing prefix becomes a directory.\<close>

fun mkdirParts :: "bool \<Rightarrow> bytes list \<Rightarrow> bytes list \<Rightarrow> (os, osError, unit) act" where
  "mkdirParts r dn [] s = (Inr (), s)"
| "mkdirParts r dn (c # cs) s =
     (let p = Path r (dn @ [c]) in
      case getNode p s of
        None \<Rightarrow> mkdirParts r (dn @ [c]) cs (setNode p DirN s)
      | Some n \<Rightarrow>
          if isDirAt p s then mkdirParts r (dn @ [c]) cs s else (Inl ErrNotDirectory, s))"

definition MkdirAll :: "path \<Rightarrow> (os, osError, unit) act" where
  "MkdirAll p = sysCall (mkdirParts (rooted p) [] (parts p))"

text \<open>\<open>os.OpenFile\<close> for reading and writing, with or without \<open>O_CREATE\<close>. The handle is the path.\<close>

definition OpenFile :: "bool \<Rightarrow> path \<Rightarrow> (os, osError, path) act" where
  "OpenFile create p = sysCall (\<lambda>s.
     (case getNode p s of
        Some (FileN d) \<Rightarrow> (Inr p, s)
      | Some DirN \<Rightarrow> (Inl ErrIsDirectory, s)
      | Some (SymlinkN b) \<Rightarrow> (Inl ErrInvalid, s)
      | None \<Rightarrow>
          if create \<and> isDirAt (dirPath p) s then (Inr p, setNode p (FileN []) s)
          else (Inl ErrNotExist, s)))"

definition fileData :: "os \<Rightarrow> path \<Rightarrow> bytes" where
  "fileData s p = (case nodes s p of Some (FileN d) \<Rightarrow> d | _ \<Rightarrow> [])"

definition resize :: "nat \<Rightarrow> bytes \<Rightarrow> bytes" where
  "resize n d = take n d @ replicate (n - length d) 0"

definition Truncate :: "path \<Rightarrow> int \<Rightarrow> (os, osError, unit) act" where
  "Truncate p sz = sysCall (\<lambda>s.
     if sz < 0 then (Inl ErrInvalid, s)
     else (Inr (), setNode p (FileN (resize (nat sz) (fileData s p))) s))"

definition CloseFile :: "path \<Rightarrow> (os, osError, unit) act" where
  "CloseFile p = sysCall (retA ())"

definition Sync :: "path \<Rightarrow> (os, osError, unit) act" where
  "Sync p = sysCall (retA ())"

text \<open>The bytes of \<open>d\<close> with \<open>xs\<close> written at \<open>i\<close>; a gap is filled with zeros.\<close>

definition overwrite :: "bytes \<Rightarrow> nat \<Rightarrow> bytes \<Rightarrow> bytes" where
  "overwrite d i xs = take i (resize (max i (length d)) d) @ xs @ drop (i + length xs) d"

text \<open>
  \<open>file.WriteAt\<close> and \<open>file.ReadAt\<close> return a count and possibly an error. A short read at the end of the
  file is \<open>io.EOF\<close>.
\<close>

definition WriteFileAt :: "path \<Rightarrow> bytes \<Rightarrow> int \<Rightarrow> os \<Rightarrow> (nat \<times> osError option) \<times> os" where
  "WriteFileAt p xs i s =
     (if i < 0 then ((0, Some ErrInvalid), s)
      else case faults s of
        [] \<Rightarrow> ((length xs, None), setNode p (FileN (overwrite (fileData s p) (nat i) xs)) s)
      | None # fs \<Rightarrow>
          ((length xs, None), setNode p (FileN (overwrite (fileData s p) (nat i) xs)) (s\<lparr>faults := fs\<rparr>))
      | Some (n, e) # fs \<Rightarrow>
          let ys = take n xs in
          ((length ys, Some (ErrIO e)), setNode p (FileN (overwrite (fileData s p) (nat i) ys)) (s\<lparr>faults := fs\<rparr>)))"

definition ReadFileAt :: "path \<Rightarrow> nat \<Rightarrow> int \<Rightarrow> os \<Rightarrow> (bytes \<times> osError option) \<times> os" where
  "ReadFileAt p n i s =
     (if i < 0 then (([], Some ErrInvalid), s)
      else let ys = take n (drop (nat i) (fileData s p)) in
        case faults s of
          Some (k, e) # fs \<Rightarrow> ((take k ys, Some (ErrIO e)), s\<lparr>faults := fs\<rparr>)
        | fs \<Rightarrow> ((ys, if length ys < n then Some ErrEOF else None), s\<lparr>faults := tl fs\<rparr>))"

text \<open>\<open>os.Rename\<close>: the subtree moves. An existing destination is only replaced file by file.\<close>

definition stripPrefix :: "path \<Rightarrow> path \<Rightarrow> bytes list option" where
  "stripPrefix p q =
     (if rooted p = rooted q \<and> take (length (parts p)) (parts q) = parts p
      then Some (drop (length (parts p)) (parts q)) else None)"

definition Rename :: "path \<Rightarrow> path \<Rightarrow> (os, osError, unit) act" where
  "Rename a b = sysCall (\<lambda>s.
     if getNode a s = None \<or> \<not> isDirAt (dirPath b) s then (Inl ErrNotExist, s)
     else if getNode a s = Some DirN \<and> getNode b s \<noteq> None \<or> getNode b s = Some DirN then (Inl ErrExist, s)
     else if stripPrefix a b \<noteq> None then (Inl ErrInvalid, s)
     else (Inr (), s\<lparr>nodes := (\<lambda>q.
        case stripPrefix b q of
          Some cs \<Rightarrow> nodes s (below a cs)
        | None \<Rightarrow> if stripPrefix a q \<noteq> None then None else nodes s q)\<rparr>))"

section \<open>Facts about bytes and paths\<close>

lemma length_resize [simp]: "length (resize n d) = n"
  by (simp add: resize_def)

lemma resize_same [simp]: "resize (length d) d = d"
  by (simp add: resize_def)

lemma length_overwrite [simp]: "length (overwrite d i xs) = max (length d) (i + length xs)"
  by (simp add: overwrite_def max_def)

lemma overwrite_in: "i \<le> length d \<Longrightarrow> overwrite d i xs = take i d @ xs @ drop (i + length xs) d"
  by (simp add: overwrite_def max_def resize_def)

lemma overwrite_Nil [simp]: "i \<le> length d \<Longrightarrow> overwrite d i [] = d"
  by (simp add: overwrite_in)

lemma overwrite_append_left:
  "i + length xs \<le> length d \<Longrightarrow> overwrite (d @ e) i xs = overwrite d i xs @ e"
  by (simp add: overwrite_in)

lemma overwrite_append_right:
  "length d \<le> i \<Longrightarrow> i \<le> length d + length e \<Longrightarrow> overwrite (d @ e) i xs = d @ overwrite e (i - length d) xs"
  by (simp add: overwrite_in)

lemma overwrite_append_both:
  assumes "i \<le> length d" "length d \<le> i + length xs"
  shows "overwrite (d @ e) i xs =
    overwrite d i (take (length d - i) xs) @ overwrite e 0 (drop (length d - i) xs)"
proof -
  have "i + length xs - length d = length xs - (length d - i)" using assms by simp
  then show ?thesis using assms by (simp add: overwrite_in)
qed

lemma sliceOf_overwrite:
  "i \<le> length d \<Longrightarrow> sliceOf (overwrite d i xs) i (i + length xs) = xs"
  by (simp add: overwrite_in sliceOf_def)

lemma nth_overwrite:
  "i \<le> length d \<Longrightarrow> j < length d \<Longrightarrow> j < i \<or> i + length xs \<le> j \<Longrightarrow> overwrite d i xs ! j = d ! j"
  by (auto simp: overwrite_in nth_append)

lemma below_inj [simp]: "below p cs = below p ds \<longleftrightarrow> cs = ds"
  by (simp add: below_def)

lemma stripPrefix_below [simp]: "stripPrefix p (below p cs) = Some cs"
  by (simp add: stripPrefix_def below_def)

lemma stripPrefix_Some: "stripPrefix p q = Some cs \<longleftrightarrow> q = below p cs"
  by (cases q) (auto simp: stripPrefix_def below_def, metis append_take_drop_id)

end
