(* ===== verification/FileStore.thy ===== *)
theory FileStore
  imports FileSys Metainfo
begin

text \<open>
  \<open>internal/storage/storage.go\<close>: a torrent laid out over the files of the in-progress directory.
  The operations are actions on the file system of \<open>FileSys\<close>; the \<open>Storage\<close> record is the Go struct
  without its lock, under which every operation runs. A read returns the bytes it puts into the caller's
  buffer, an error leaves that buffer to be discarded.
\<close>

record fileSpan =
  spanPath :: path
  spanStart :: int
  spanEnd :: int

record Storage =
  spans :: "fileSpan list"
  storageTotal :: int
  closed :: bool
  InProgressPath :: path
  CompletedPath :: path

datatype storageError =
    MetaNil
  | InvalidTorrentName pathError
  | NegativeTorrentLength
  | StorageOS osError
  | CreateInProgress osError
  | CreateCompleted osError
  | CreatePartialDirectory osError
  | CreateParent osError
  | OpenPartial osError
  | SizePartial osError
  | SymlinkPath path
  | SymlinkPartial path
  | PathEscapes
  | NoFilesInTorrent
  | InvalidFileMetadata nat
  | InvalidFilePathAt nat pathError
  | LengthOverflow
  | LengthMismatch int int
  | InvalidPiecePosition
  | PieceOffsetOverflow
  | StorageClosed
  | WriteOutside int int
  | ReadOutside
  | ErrShortWrite
  | UnexpectedEOF
  | CompletedExists path
  | SyncPartial osError
  | FinalizeFailed osError

type_synonym 'a storageAct = "(os, storageError, 'a) act"

section \<open>Opening\<close>

definition minInt64 :: "int \<Rightarrow> int \<Rightarrow> int" where
  "minInt64 a b = (if a < b then a else b)"

definition rejectSymlink :: "path \<Rightarrow> unit storageAct" where
  "rejectSymlink p =
     bindA (errA StorageOS (Lstat p)) (\<lambda>info.
       case info of SymlinkN b \<Rightarrow> failA (SymlinkPath p) | _ \<Rightarrow> retA ())"

fun rejectSymlinksLoop :: "path \<Rightarrow> bytes list \<Rightarrow> unit storageAct" where
  "rejectSymlinksLoop cur [] = retA ()"
| "rejectSymlinksLoop cur (c # cs) =
     (let cur' = joinPath cur [c] in
      catchA (rejectSymlink cur') (\<lambda>r.
        case r of
          Inl e \<Rightarrow> if e = StorageOS ErrNotExist then retA () else failA e
        | Inr _ \<Rightarrow> rejectSymlinksLoop cur' cs))"

text \<open>The relative path leaves the directory it is relative to.\<close>

definition escapes :: "bytes list \<Rightarrow> bool" where
  "escapes rel \<longleftrightarrow> rel \<noteq> [] \<and> hd rel = str ''..''"

definition rejectSymlinksBetween :: "path \<Rightarrow> path \<Rightarrow> unit storageAct" where
  "rejectSymlinksBetween root targ =
     (case relPath root targ of
        None \<Rightarrow> failA PathEscapes
      | Some rel \<Rightarrow>
          if escapes rel then failA PathEscapes
          else seqA (rejectSymlink root) (rejectSymlinksLoop root rel))"

definition joinInside :: "path \<Rightarrow> bytes list \<Rightarrow> storageError + path" where
  "joinInside root components =
     (let p = joinPath root components in
      case relPath root p of
        None \<Rightarrow> Inl PathEscapes
      | Some rel \<Rightarrow> if escapes rel then Inl PathEscapes else Inr p)"

text \<open>The part of \<open>openSizedFile\<close> after the symlink check.\<close>

definition openAndSize :: "path \<Rightarrow> int \<Rightarrow> path storageAct" where
  "openAndSize p sz =
     bindA (errA OpenPartial (OpenFile True p)) (\<lambda>file.
       catchA (Truncate file sz) (\<lambda>r.
         case r of
           Inl e \<Rightarrow> catchA (CloseFile file) (\<lambda>_. failA (SizePartial e))
         | Inr _ \<Rightarrow> retA file))"

definition openSizedFile :: "path \<Rightarrow> int \<Rightarrow> path storageAct" where
  "openSizedFile p sz =
     catchA (Lstat p) (\<lambda>info.
       case info of
         Inr (SymlinkN b) \<Rightarrow> failA (SymlinkPartial p)
       | Inl e \<Rightarrow> if e \<noteq> ErrNotExist then failA (StorageOS e) else openAndSize p sz
       | Inr _ \<Rightarrow> openAndSize p sz)"

fun validateComponents :: "unicode \<Rightarrow> nat \<Rightarrow> bytes list \<Rightarrow> storageError + unit" where
  "validateComponents u i [] = Inr ()"
| "validateComponents u i (c # cs) =
     andThen (wrapErr (InvalidFilePathAt i) (ValidatePathComponent u c)) (\<lambda>_. validateComponents u i cs)"

text \<open>One file of \<open>openMultiFile\<close>: its span.\<close>

definition openFileSpan :: "unicode \<Rightarrow> path \<Rightarrow> nat \<Rightarrow> int \<Rightarrow> FileInfo \<Rightarrow> fileSpan storageAct" where
  "openFileSpan u root i offset info =
     seqA (guardA (\<not> (fileLength info < 0 \<or> filePath info = [])) (InvalidFileMetadata i))
    (seqA (liftA (validateComponents u i (filePath info)))
    (bindA (liftA (joinInside root (filePath info))) (\<lambda>p.
     let parent = dirPath p in
     seqA (rejectSymlinksBetween root parent)
    (seqA (errA CreateParent (MkdirAll parent))
    (seqA (rejectSymlinksBetween root parent)
    (seqA (guardA (\<not> fileLength info > i64 (MaxInt64 - offset)) LengthOverflow)
    (bindA (openSizedFile p (fileLength info)) (\<lambda>file.
     seqA (errA StorageOS (CloseFile file))
       (retA \<lparr>spanPath = p, spanStart = offset, spanEnd = i64 (offset + fileLength info)\<rparr>)))))))))"

fun openFilesLoop :: "unicode \<Rightarrow> path \<Rightarrow> nat \<Rightarrow> int \<Rightarrow> FileInfo list \<Rightarrow> (fileSpan list \<times> int) storageAct" where
  "openFilesLoop u root i offset [] = retA ([], offset)"
| "openFilesLoop u root i offset (info # infos) =
     bindA (openFileSpan u root i offset info) (\<lambda>span.
     bindA (openFilesLoop u root (Suc i) (i64 (offset + fileLength info)) infos) (\<lambda>(ss, total').
       retA (span # ss, total')))"

definition openMultiFile :: "unicode \<Rightarrow> path \<Rightarrow> TorrentMeta \<Rightarrow> fileSpan list storageAct" where
  "openMultiFile u root meta =
     seqA (guardA (Files meta \<noteq> []) NoFilesInTorrent)
    (bindA (openFilesLoop u root 0 0 (Files meta)) (\<lambda>(ss, offset).
     seqA (guardA (offset = Length meta) (LengthMismatch offset (Length meta)))
       (retA ss)))"

definition NewStorageAt :: "unicode \<Rightarrow> TorrentMeta option \<Rightarrow> bytes \<Rightarrow> Storage storageAct" where
  "NewStorageAt u metaPtr baseDir =
     (case metaPtr of
        None \<Rightarrow> failA MetaNil
      | Some meta \<Rightarrow>
          seqA (liftA (wrapErr InvalidTorrentName (ValidatePathComponent u (Name meta))))
         (seqA (guardA (\<not> Length meta < 0) NegativeTorrentLength)
         (let inProgressDir = joinPath (parsePath baseDir) [str ''in-progress''];
              completedDir = joinPath (parsePath baseDir) [str ''completed''];
              inProgress = joinPath inProgressDir [Name meta @ str ''.part''];
              completed = joinPath completedDir [Name meta] in
          seqA (errA CreateInProgress (MkdirAll inProgressDir))
         (seqA (errA CreateCompleted (MkdirAll completedDir))
         (seqA (rejectSymlink inProgressDir)
         (seqA (rejectSymlink completedDir)
         (bindA
           (if MultiFile meta then
              seqA (errA CreatePartialDirectory (MkdirAll inProgress))
             (seqA (rejectSymlink inProgress)
                (openMultiFile u inProgress meta))
            else
              bindA (openSizedFile inProgress (Length meta)) (\<lambda>file.
              seqA (errA StorageOS (CloseFile file))
                (retA [\<lparr>spanPath = inProgress, spanStart = 0, spanEnd = Length meta\<rparr>])))
           (\<lambda>ss. retA \<lparr>spans = ss, storageTotal = Length meta, closed = False,
                         InProgressPath = inProgress, CompletedPath = completed\<rparr>))))))))"

definition NewStorage :: "unicode \<Rightarrow> TorrentMeta option \<Rightarrow> Storage storageAct" where
  "NewStorage u meta = NewStorageAt u meta (str ''./torrents'')"

section \<open>Writing and reading\<close>

text \<open>
  One chunk: open, write, close, and the checks in the order of the source. The result is the number of
  bytes written.
\<close>

definition writeChunk :: "fileSpan \<Rightarrow> bytes \<Rightarrow> int \<Rightarrow> nat storageAct" where
  "writeChunk span chunk position =
     bindA (errA StorageOS (OpenFile False (spanPath span))) (\<lambda>file s.
       case WriteFileAt file chunk (i64 (position - spanStart span)) s of
         ((n, writeErr), s1) \<Rightarrow>
           catchA (CloseFile file) (\<lambda>closeErr.
             case writeErr of
               Some e \<Rightarrow> failA (StorageOS e)
             | None \<Rightarrow>
                 seqA (liftA (wrapErr StorageOS closeErr))
                (seqA (guardA (n = length chunk) ErrShortWrite) (retA n))) s1)"

fun writeLoop :: "fileSpan list \<Rightarrow> bytes \<Rightarrow> int \<Rightarrow> nat \<Rightarrow> nat storageAct" where
  "writeLoop [] d offset written = retA written"
| "writeLoop (span # ss) d offset written =
     (if written = length d then retA written
      else let position = i64 (offset + int written) in
        if position < spanStart span \<or> position \<ge> spanEnd span then writeLoop ss d offset written
        else let chunkLength = minInt64 (int (length d - written)) (i64 (spanEnd span - position)) in
          bindA (writeChunk span (sliceOf d written (written + nat chunkLength)) position) (\<lambda>n.
            writeLoop ss d offset (written + n)))"

definition writeAtLocked :: "Storage \<Rightarrow> bytes \<Rightarrow> int \<Rightarrow> unit storageAct" where
  "writeAtLocked st d offset =
     bindA (writeLoop (spans st) d offset 0) (\<lambda>written. guardA (written = length d) ErrShortWrite)"

definition WriteAt :: "Storage \<Rightarrow> bytes \<Rightarrow> int \<Rightarrow> unit storageAct" where
  "WriteAt st d offset =
     (if closed st then failA StorageClosed
      else if offset < 0 \<or> offset > storageTotal st \<or> int (length d) > i64 (storageTotal st - offset)
        then failA (WriteOutside offset (i64 (offset + int (length d))))
      else writeAtLocked st d offset)"

definition WritePiece :: "Storage \<Rightarrow> int \<Rightarrow> int \<Rightarrow> bytes \<Rightarrow> unit storageAct" where
  "WritePiece st index standardPieceLength d =
     (if index < 0 \<or> standardPieceLength \<le> 0 then failA InvalidPiecePosition
      else let offset = i64 (index * standardPieceLength) in
        if index \<noteq> 0 \<and> offset sdiv index \<noteq> standardPieceLength then failA PieceOffsetOverflow
        else WriteAt st d offset)"

definition readChunk :: "fileSpan \<Rightarrow> nat \<Rightarrow> int \<Rightarrow> bytes storageAct" where
  "readChunk span n position =
     bindA (errA StorageOS (OpenFile False (spanPath span))) (\<lambda>file s.
       case ReadFileAt file n (i64 (position - spanStart span)) s of
         ((ys, readErr), s1) \<Rightarrow>
           catchA (CloseFile file) (\<lambda>closeErr.
             if readErr \<noteq> None \<and> readErr \<noteq> Some ErrEOF then failA (StorageOS (the readErr))
             else seqA (liftA (wrapErr StorageOS closeErr))
                 (seqA (guardA (length ys = n) UnexpectedEOF) (retA ys))) s1)"

fun readLoop :: "fileSpan list \<Rightarrow> nat \<Rightarrow> int \<Rightarrow> bytes \<Rightarrow> bytes storageAct" where
  "readLoop [] n offset acc = retA acc"
| "readLoop (span # ss) n offset acc =
     (if length acc = n then retA acc
      else let position = i64 (offset + int (length acc)) in
        if position < spanStart span \<or> position \<ge> spanEnd span then readLoop ss n offset acc
        else let chunkLength = minInt64 (int (n - length acc)) (i64 (spanEnd span - position)) in
          bindA (readChunk span (nat chunkLength) position) (\<lambda>ys. readLoop ss n offset (acc @ ys)))"

definition ReadAt :: "Storage \<Rightarrow> nat \<Rightarrow> int \<Rightarrow> bytes storageAct" where
  "ReadAt st n offset =
     (if closed st then failA StorageClosed
      else if offset < 0 \<or> offset > storageTotal st \<or> int n > i64 (storageTotal st - offset)
        then failA ReadOutside
      else bindA (readLoop (spans st) n offset []) (\<lambda>ys.
        seqA (guardA (length ys = n) UnexpectedEOF) (retA ys)))"

section \<open>Completing and closing\<close>

definition syncSpan :: "fileSpan \<Rightarrow> unit storageAct" where
  "syncSpan span =
     bindA (errA StorageOS (OpenFile False (spanPath span))) (\<lambda>file.
       catchA (Sync file) (\<lambda>syncErr.
         catchA (CloseFile file) (\<lambda>closeErr.
           seqA (liftA (wrapErr SyncPartial syncErr)) (liftA (wrapErr StorageOS closeErr)))))"

fun syncLoop :: "fileSpan list \<Rightarrow> unit storageAct" where
  "syncLoop [] = retA ()"
| "syncLoop (span # ss) = seqA (syncSpan span) (syncLoop ss)"

text \<open>The result is the storage after the call; on an error it is unchanged.\<close>

definition Complete :: "Storage \<Rightarrow> Storage storageAct" where
  "Complete st =
     (if closed st then failA StorageClosed
      else catchA (Lstat (CompletedPath st)) (\<lambda>r.
        case r of
          Inr _ \<Rightarrow> failA (CompletedExists (CompletedPath st))
        | Inl e \<Rightarrow>
            if e \<noteq> ErrNotExist then failA (StorageOS e)
            else seqA (syncLoop (spans st))
                (seqA (errA FinalizeFailed (Rename (InProgressPath st) (CompletedPath st)))
                   (retA (st\<lparr>closed := True\<rparr>)))))"

definition CloseStorage :: "Storage \<Rightarrow> Storage" where
  "CloseStorage st = (if closed st then st else st\<lparr>closed := True\<rparr>)"

end
