(* ===== verification/Pieces.thy ===== *)
theory Pieces
  imports FileStore Sha1
begin

text \<open>
  \<open>internal/download/manager.go\<close> and \<open>piece.go\<close>: the piece manager. Its state is the Go struct without the
  lock; the broadcast channel \<open>updates\<close> is the number of times it has been closed and replaced. The
  operations are actions on a \<open>world\<close>, the disk and the manager. \<open>CompletePiece\<close> holds the lock twice,
  before and after the check and the write: \<open>beginComplete\<close> and \<open>publish\<close> are those two critical sections,
  so that a swarm can interleave them.
\<close>

section \<open>Data\<close>

datatype PieceState = PieceMissing | PieceDownloading | PieceVerifying | PieceComplete

record Piece =
  Index :: int
  Hash :: bytes
  pieceLen :: int

record managedPiece = Piece +
  pstate :: PieceState

record PieceManager =
  pieces :: "managedPiece list"
  storage :: Storage
  standardPieceLength :: int
  updates :: nat

record world =
  disk :: os
  mgr :: PieceManager

datatype managerError =
    StorageFailed storageError
  | ReadExisting int storageError
  | MakeNegative
  | InvalidPieceIndex
  | PieceNotReserved int
  | PieceLengthMismatch int int int
  | HashVerificationFailed
  | IncompleteTorrent

type_synonym 'a managerAct = "(world, managerError, 'a) act"

definition newPiece :: "TorrentMeta \<Rightarrow> nat \<Rightarrow> managedPiece" where
  "newPiece meta i =
     \<lparr>Index = int i, Hash = Pieces meta ! i,
      pieceLen = (if i = length (Pieces meta) - 1
        then i64 (Length meta - i64 (int i * PieceLength meta)) else PieceLength meta),
      pstate = PieceMissing\<rparr>"

definition NewPieceManager :: "TorrentMeta \<Rightarrow> Storage \<Rightarrow> PieceManager" where
  "NewPieceManager meta store =
     \<lparr>pieces = map (newPiece meta) [0..<length (Pieces meta)], storage = store,
      standardPieceLength = PieceLength meta, updates = 0\<rparr>"

section \<open>State changes under the lock\<close>

definition notifyLocked :: "PieceManager \<Rightarrow> PieceManager" where
  "notifyLocked pm = pm\<lparr>updates := Suc (updates pm)\<rparr>"

definition stateAt :: "PieceManager \<Rightarrow> nat \<Rightarrow> PieceState" where
  "stateAt pm i = pstate (pieces pm ! i)"

definition setPieceState :: "nat \<Rightarrow> PieceState \<Rightarrow> PieceManager \<Rightarrow> PieceManager" where
  "setPieceState i st pm = pm\<lparr>pieces := (pieces pm)[i := (pieces pm ! i)\<lparr>pstate := st\<rparr>]\<rparr>"

definition validIndex :: "PieceManager \<Rightarrow> int \<Rightarrow> bool" where
  "validIndex pm index \<longleftrightarrow> 0 \<le> index \<and> index < int (length (pieces pm))"

definition onMgr :: "(PieceManager \<Rightarrow> PieceManager) \<Rightarrow> unit managerAct" where
  "onMgr f w = (Inr (), w\<lparr>mgr := f (mgr w)\<rparr>)"

definition onDisk :: "(storageError \<Rightarrow> managerError) \<Rightarrow> 'a storageAct \<Rightarrow> 'a managerAct" where
  "onDisk wrap m w = (case m (disk w) of (r, d) \<Rightarrow> (wrapErr wrap r, w\<lparr>disk := d\<rparr>))"

section \<open>Operations\<close>

text \<open>\<open>RestoreExisting\<close>: \<open>make([]byte, n)\<close> panics on a negative length.\<close>

definition restorePiece :: "nat \<Rightarrow> unit managerAct" where
  "restorePiece i w =
     (let piece = pieces (mgr w) ! i in
      if pieceLen piece < 0 then (Inl MakeNegative, w)
      else bindA (onDisk (ReadExisting (Index piece))
             (ReadAt (storage (mgr w)) (nat (pieceLen piece))
               (i64 (Index piece * standardPieceLength (mgr w))))) (\<lambda>d.
        if sha1 d = Hash piece
        then onMgr (\<lambda>pm. notifyLocked (setPieceState i PieceComplete pm)) else retA ()) w)"

fun restoreLoop :: "nat list \<Rightarrow> unit managerAct" where
  "restoreLoop [] = retA ()"
| "restoreLoop (i # is) = seqA (restorePiece i) (restoreLoop is)"

definition RestoreExisting :: "unit managerAct" where
  "RestoreExisting w = restoreLoop [0..<length (pieces (mgr w))] w"

fun nextPieceLoop :: "bool list \<Rightarrow> managedPiece list \<Rightarrow> Piece option \<times> managedPiece list" where
  "nextPieceLoop bitfield [] = (None, [])"
| "nextPieceLoop bitfield (p # ps) =
     (if pstate p \<noteq> PieceMissing \<or> Index p \<ge> int (length bitfield) \<or> \<not> bitfield ! nat (Index p)
      then (case nextPieceLoop bitfield ps of (r, ps') \<Rightarrow> (r, p # ps'))
      else (Some (Piece.truncate p), p\<lparr>pstate := PieceDownloading\<rparr> # ps))"

definition NextPieceForPeer :: "bool list \<Rightarrow> PieceManager \<Rightarrow> Piece option \<times> PieceManager" where
  "NextPieceForPeer bitfield pm =
     (case nextPieceLoop bitfield (pieces pm) of (r, ps) \<Rightarrow> (r, pm\<lparr>pieces := ps\<rparr>))"

definition resetAfterFailure :: "int \<Rightarrow> PieceManager \<Rightarrow> PieceManager" where
  "resetAfterFailure index pm =
     (if validIndex pm index \<and> stateAt pm (nat index) \<noteq> PieceComplete
      then notifyLocked (setPieceState (nat index) PieceMissing pm) else pm)"

text \<open>The first critical section of \<open>CompletePiece\<close>: the piece is reserved and becomes \<open>PieceVerifying\<close>.\<close>

definition beginComplete :: "int \<Rightarrow> (int \<times> bytes) managerAct" where
  "beginComplete index w =
     (let pm = mgr w; piece = pieces pm ! nat index in
      if \<not> validIndex pm index then (Inl InvalidPieceIndex, w)
      else if pstate piece \<noteq> PieceDownloading then (Inl (PieceNotReserved index), w)
      else (Inr (pieceLen piece, Hash piece), w\<lparr>mgr := setPieceState (nat index) PieceVerifying pm\<rparr>))"

definition failPiece :: "int \<Rightarrow> managerError \<Rightarrow> unit managerAct" where
  "failPiece index e = seqA (onMgr (resetAfterFailure index)) (failA e)"

text \<open>The second critical section.\<close>

definition publish :: "int \<Rightarrow> unit managerAct" where
  "publish index = onMgr (\<lambda>pm. notifyLocked (setPieceState (nat index) PieceComplete pm))"

text \<open>What happens between the two: length, hash, and the write to the storage.\<close>

definition finishComplete :: "int \<Rightarrow> bytes \<Rightarrow> int \<times> bytes \<Rightarrow> unit managerAct" where
  "finishComplete index d expected =
     (case expected of (expectedLength, expectedHash) \<Rightarrow>
      if int (length d) \<noteq> expectedLength
        then failPiece index (PieceLengthMismatch index (int (length d)) expectedLength)
      else if sha1 d \<noteq> expectedHash then failPiece index HashVerificationFailed
      else catchA (\<lambda>w. onDisk StorageFailed
             (WritePiece (storage (mgr w)) index (standardPieceLength (mgr w)) d) w)
           (\<lambda>r. case r of Inl e \<Rightarrow> failPiece index e | Inr _ \<Rightarrow> publish index))"

definition CompletePiece :: "int \<Rightarrow> bytes \<Rightarrow> unit managerAct" where
  "CompletePiece index d = bindA (beginComplete index) (finishComplete index d)"

definition MarkFailed :: "int \<Rightarrow> PieceManager \<Rightarrow> PieceManager" where
  "MarkFailed index pm =
     (if \<not> validIndex pm index \<or> stateAt pm (nat index) \<noteq> PieceDownloading then pm
      else notifyLocked (setPieceState (nat index) PieceMissing pm))"

section \<open>Queries\<close>

definition IsComplete :: "PieceManager \<Rightarrow> bool" where
  "IsComplete pm \<longleftrightarrow> list_all (\<lambda>p. pstate p = PieceComplete) (pieces pm)"

definition Progress :: "PieceManager \<Rightarrow> int \<times> int" where
  "Progress pm =
     (foldl (\<lambda>completed p. if pstate p = PieceComplete then completed + 1 else completed) 0 (pieces pm),
      int (length (pieces pm)))"

definition CompletedBytes :: "PieceManager \<Rightarrow> int" where
  "CompletedBytes pm =
     foldl (\<lambda>n p. if pstate p = PieceComplete then i64 (n + pieceLen p) else n) 0 (pieces pm)"

definition State :: "PieceManager \<Rightarrow> int \<Rightarrow> managerError + PieceState" where
  "State pm index =
     (if \<not> validIndex pm index then Inl InvalidPieceIndex else Inr (stateAt pm (nat index)))"

definition Updates :: "PieceManager \<Rightarrow> nat" where
  "Updates pm = updates pm"

definition Finalize :: "unit managerAct" where
  "Finalize w =
     (if \<not> IsComplete (mgr w) then (Inl IncompleteTorrent, w)
      else bindA (onDisk StorageFailed (Complete (storage (mgr w))))
        (\<lambda>st. onMgr (\<lambda>pm. pm\<lparr>storage := st\<rparr>)) w)"

end
