(* ===== verification/ByteStore.thy ===== *)
theory ByteStore
  imports FileSys
begin

text \<open>
  The contract between the storage and the piece manager: a store is one byte array \<open>bytesOf\<close>, an accepted
  write replaces a range of it, a failing write at most a prefix of that range, a read returns a slice
  and changes nothing. What the manager needs follows from these laws alone.
\<close>

locale byte_store =
  fixes inv :: "'s \<Rightarrow> bool"
    and bytesOf :: "'s \<Rightarrow> bytes"
    and wr :: "bytes \<Rightarrow> int \<Rightarrow> ('s, 'e, unit) act"
    and rd :: "nat \<Rightarrow> int \<Rightarrow> ('s, 'e, bytes) act"
  assumes wr_inv: "inv s \<Longrightarrow> wr xs i s = (r, t) \<Longrightarrow> inv t"
    and wr_prefix: "inv s \<Longrightarrow> wr xs i s = (r, t) \<Longrightarrow> bytesOf t = bytesOf s \<or>
      (0 \<le> i \<and> nat i + length xs \<le> length (bytesOf s) \<and>
        (\<exists>k. bytesOf t = overwrite (bytesOf s) (nat i) (take k xs)))"
    and wr_ok: "inv s \<Longrightarrow> wr xs i s = (Inr u, t) \<Longrightarrow>
      0 \<le> i \<and> nat i + length xs \<le> length (bytesOf s) \<and> bytesOf t = overwrite (bytesOf s) (nat i) xs"
    and rd_inv: "inv s \<Longrightarrow> rd n i s = (q, t) \<Longrightarrow> inv t \<and> bytesOf t = bytesOf s"
    and rd_ok: "inv s \<Longrightarrow> rd n i s = (Inr ys, t) \<Longrightarrow>
      0 \<le> i \<and> nat i + n \<le> length (bytesOf s) \<and> ys = sliceOf (bytesOf s) (nat i) (nat i + n)"
begin

lemma wr_length: "inv s \<Longrightarrow> wr xs i s = (r, t) \<Longrightarrow> length (bytesOf t) = length (bytesOf s)"
  by (drule (1) wr_prefix) (auto simp: max_def)

text \<open>Whatever a write returns, bytes outside its range are as before.\<close>

lemma wr_frame:
  assumes "inv s" "wr xs i s = (r, t)" "j < length (bytesOf s)" "int j < i \<or> i + int (length xs) \<le> int j"
  shows "bytesOf t ! j = bytesOf s ! j"
  using wr_prefix [OF assms(1,2)]
proof
  assume "0 \<le> i \<and> nat i + length xs \<le> length (bytesOf s) \<and>
    (\<exists>k. bytesOf t = overwrite (bytesOf s) (nat i) (take k xs))"
  then obtain k where "0 \<le> i" "nat i + length xs \<le> length (bytesOf s)"
    "bytesOf t = overwrite (bytesOf s) (nat i) (take k xs)" by blast
  then show ?thesis using assms(3,4) by (auto intro!: nth_overwrite)
qed simp

lemma wr_slice_frame:
  assumes "inv s" "wr xs i s = (r, t)" "b \<le> length (bytesOf s)" "int b \<le> i \<or> i + int (length xs) \<le> int a"
  shows "sliceOf (bytesOf t) a b = sliceOf (bytesOf s) a b"
proof (rule nth_equalityI)
  show "length (sliceOf (bytesOf t) a b) = length (sliceOf (bytesOf s) a b)"
    using wr_length [OF assms(1,2)] by (simp add: sliceOf_def)
  fix j assume "j < length (sliceOf (bytesOf t) a b)"
  then have j: "a + j < b" by (auto simp: sliceOf_def)
  then have "bytesOf t ! (a + j) = bytesOf s ! (a + j)"
    using assms(3,4) by (intro wr_frame [OF assms(1,2)]) auto
  then show "sliceOf (bytesOf t) a b ! j = sliceOf (bytesOf s) a b ! j"
    using j assms(3) wr_length [OF assms(1,2)] by (simp add: sliceOf_def)
qed

lemma read_after_write:
  assumes "inv s" "wr xs i s = (Inr u, t)" "rd (length xs) i t = (Inr ys, t')"
  shows "ys = xs"
  using wr_ok [OF assms(1,2)] rd_ok [OF wr_inv [OF assms(1,2)] assms(3)] by (simp add: sliceOf_overwrite)

lemma wr_slice:
  assumes "inv s" "wr xs i s = (Inr u, t)"
  shows "sliceOf (bytesOf t) (nat i) (nat i + length xs) = xs"
  using wr_ok [OF assms] by (simp add: sliceOf_overwrite)

end

end
