(* ===== verification/FileStoreSpec.thy ===== *)
theory FileStoreSpec
  imports FileStore MetainfoSpec ByteStore
begin

text \<open>
  What the storage promises. \<open>contentsOf\<close> concatenates the files of the spans: the storage refines one
  flat byte array. A write changes that array in place, by a prefix of its data when a system call fails
  half way and by all of it when it succeeds; a read returns a slice of it.
\<close>

section \<open>The invariant and the abstraction\<close>

fun spansFrom :: "int \<Rightarrow> fileSpan list \<Rightarrow> int \<Rightarrow> bool" where
  "spansFrom a [] b \<longleftrightarrow> a = b"
| "spansFrom a (s # ss) b \<longleftrightarrow> spanStart s = a \<and> a \<le> spanEnd s \<and> spansFrom (spanEnd s) ss b"

definition backed :: "os \<Rightarrow> fileSpan \<Rightarrow> bool" where
  "backed s sp \<longleftrightarrow> parts (spanPath sp) \<noteq> [] \<and>
     (\<exists>d. nodes s (spanPath sp) = Some (FileN d) \<and> int (length d) = spanEnd sp - spanStart sp)"

definition contentsOf :: "os \<Rightarrow> fileSpan list \<Rightarrow> bytes" where
  "contentsOf s ss = concat (map (\<lambda>sp. fileData s (spanPath sp)) ss)"

definition wfStorage :: "os \<Rightarrow> Storage \<Rightarrow> bool" where
  "wfStorage s st \<longleftrightarrow> spansFrom 0 (spans st) (storageTotal st) \<and> storageTotal st \<le> MaxInt64 \<and>
     distinct (map spanPath (spans st)) \<and> (\<forall>sp\<in>set (spans st). backed s sp)"

definition storeBytes :: "os \<Rightarrow> Storage \<Rightarrow> bytes" where
  "storeBytes s st = contentsOf s (spans st)"

lemma spansFrom_le: "spansFrom a ss b \<Longrightarrow> a \<le> b"
  by (induction ss arbitrary: a) fastforce+

lemma spansFrom_append: "spansFrom a (xs @ ys) c \<longleftrightarrow> (\<exists>b. spansFrom a xs b \<and> spansFrom b ys c)"
  by (induction xs arbitrary: a) auto

lemma contentsOf_simps [simp]:
  "contentsOf s [] = []"
  "contentsOf s (sp # ss) = fileData s (spanPath sp) @ contentsOf s ss"
  by (simp_all add: contentsOf_def)

lemma backed_length: "backed s sp \<Longrightarrow> int (length (fileData s (spanPath sp))) = spanEnd sp - spanStart sp"
  by (auto simp: backed_def fileData_def)

lemma length_contentsOf:
  "spansFrom a ss b \<Longrightarrow> \<forall>sp\<in>set ss. backed s sp \<Longrightarrow> int (length (contentsOf s ss)) = b - a"
  by (induction ss arbitrary: a) (auto simp: backed_length)

lemma contentsOf_cong:
  "(\<And>sp. sp \<in> set ss \<Longrightarrow> nodes s (spanPath sp) = nodes t (spanPath sp)) \<Longrightarrow> contentsOf s ss = contentsOf t ss"
  by (induction ss) (auto simp: fileData_def)

lemma backed_cong: "nodes s (spanPath sp) = nodes t (spanPath sp) \<Longrightarrow> backed s sp = backed t sp"
  by (simp add: backed_def)

lemma length_storeBytes: "wfStorage s st \<Longrightarrow> int (length (storeBytes s st)) = storageTotal st"
  unfolding wfStorage_def storeBytes_def using length_contentsOf [of 0 "spans st" "storageTotal st" s] by simp

section \<open>System calls\<close>

text \<open>Calls that only take their outcome off the list of faults.\<close>

definition onlyFaults :: "os \<Rightarrow> os \<Rightarrow> bool" where
  "onlyFaults s t \<longleftrightarrow> nodes t = nodes s \<and> (faults s = [] \<longrightarrow> faults t = [])"

lemma onlyFaults_trans: "onlyFaults s t \<Longrightarrow> onlyFaults t u \<Longrightarrow> onlyFaults s u"
  by (simp add: onlyFaults_def)

lemma onlyFaults_same:
  assumes "onlyFaults s t"
  shows "fileData t p = fileData s p" "contentsOf t ss = contentsOf s ss" "backed t sp = backed s sp"
  using assms contentsOf_cong [of ss t s] by (simp_all add: onlyFaults_def fileData_def backed_def)

lemma onlyFaults_refl [simp]: "onlyFaults s s"
  by (simp add: onlyFaults_def)

lemma CloseFile_pure: "CloseFile p s = (r, t) \<Longrightarrow> onlyFaults s t \<and> (faults s = [] \<longrightarrow> r = Inr ())"
  by (auto simp: CloseFile_def sysCall_def onlyFaults_def split: list.splits option.splits)

lemma Lstat_pure: "Lstat p s = (r, t) \<Longrightarrow> onlyFaults s t"
  by (auto simp: Lstat_def sysCall_def onlyFaults_def split: list.splits option.splits)

lemma Open_backed:
  assumes "backed s sp" "OpenFile False (spanPath sp) s = (r, t)"
  shows "onlyFaults s t \<and> (\<forall>p. r = Inr p \<longrightarrow> p = spanPath sp) \<and> (faults s = [] \<longrightarrow> r = Inr (spanPath sp))"
  using assms
  by (auto simp: OpenFile_def sysCall_def onlyFaults_def getNode_def backed_def
      split: list.splits option.splits)

section \<open>Writing\<close>

lemma minInt64_min: "minInt64 a b = min a b"
  by (simp add: minInt64_def min_def)

lemma fileData_setNode [simp]:
  "fileData (s\<lparr>nodes := (nodes s)(p := Some (FileN d))\<rparr>) p = d"
  by (simp add: fileData_def)

text \<open>A chunk that lies inside its span: a prefix of it is stored, all of it on success.\<close>

lemma WriteFileAt_effect:
  assumes "0 \<le> i" "WriteFileAt p xs i s = ((n, e), t)"
  shows "\<exists>k. nodes t = (nodes s)(p := Some (FileN (overwrite (fileData s p) (nat i) (take k xs)))) \<and>
    (e = None \<longrightarrow> n = length xs \<and> length xs \<le> k) \<and> (faults s = [] \<longrightarrow> faults t = [] \<and> e = None)"
  using assms
  by (auto simp: WriteFileAt_def setNode_def Let_def split: list.splits option.splits
      intro: exI [of _ "length xs"])

lemma writeChunk_effect:
  assumes b: "backed s sp" and pos: "spanStart sp \<le> pos" "pos + int (length xs) \<le> spanEnd sp"
    and range: "0 \<le> spanStart sp" "spanEnd sp \<le> MaxInt64"
    and run: "writeChunk sp xs pos s = (r, t)"
  shows "\<exists>k. nodes t = (nodes s)(spanPath sp :=
        Some (FileN (overwrite (fileData s (spanPath sp)) (nat (pos - spanStart sp)) (take k xs)))) \<and>
      (\<forall>n. r = Inr n \<longrightarrow> n = length xs \<and> length xs \<le> k) \<and>
      (faults s = [] \<longrightarrow> faults t = [] \<and> r = Inr (length xs))"
proof -
  let ?p = "spanPath sp" and ?i = "pos - spanStart sp"
  have i: "i64 ?i = ?i" "0 \<le> ?i" using pos range by (auto intro: i64_nonneg_id)
  have nop: "overwrite (fileData s ?p) (nat ?i) [] = fileData s ?p"
    using backed_length [OF b] pos i by simp
  have d: "nodes s ?p = Some (FileN (fileData s ?p))" using b by (auto simp: backed_def fileData_def)
  obtain o1 s1 where o1: "OpenFile False ?p s = (o1, s1)" by fastforce
  note op = Open_backed [OF b o1]
  show ?thesis
  proof (cases o1)
    case (Inl e)
    with run o1 have "t = s1" "r = Inl (StorageOS e)" by (auto simp: writeChunk_def bindA_def errA_def)
    with op Inl show ?thesis
      by (intro exI [of _ 0]) (auto simp: nop d onlyFaults_def simp flip: fun_upd_def)
  next
    case (Inr f)
    with op have f: "f = ?p" and n1: "nodes s1 = nodes s" by (auto simp: onlyFaults_def)
    obtain n e s2 where w: "WriteFileAt ?p xs ?i s1 = ((n, e), s2)" by (metis prod.exhaust)
    obtain c s3 where c: "CloseFile ?p s2 = (c, s3)" by fastforce
    from WriteFileAt_effect [OF i(2) w] n1
    obtain k where k: "nodes s2 = (nodes s)(?p := Some (FileN (overwrite (fileData s ?p) (nat ?i) (take k xs))))"
      "e = None \<longrightarrow> n = length xs \<and> length xs \<le> k" "faults s1 = [] \<longrightarrow> faults s2 = [] \<and> e = None"
      by (auto simp: fileData_def)
    have res: "r = (case e of Some e \<Rightarrow> Inl (StorageOS e) | None \<Rightarrow>
        (case c of Inl e \<Rightarrow> Inl (StorageOS e) | Inr _ \<Rightarrow>
          if n = length xs then Inr n else Inl ErrShortWrite))" and t: "t = s3"
      using run o1 Inr f w c i
      by (cases "n = length xs"; auto simp: writeChunk_def act_defs split: option.splits sum.splits)+
    have "nodes t = nodes s2" using CloseFile_pure [OF c] t by (simp add: onlyFaults_def)
    moreover have "n' = length xs \<and> length xs \<le> k" if "r = Inr n'" for n'
      using that res k(2) by (auto split: option.splits sum.splits if_splits)
    moreover have "faults t = [] \<and> r = Inr (length xs)" if "faults s = []"
    proof -
      have "faults s1 = []" using that op by (simp add: onlyFaults_def)
      then have "faults s2 = []" "e = None" using k(3) by auto
      moreover from this have "faults t = []" "c = Inr ()" using CloseFile_pure [OF c] t
        by (auto simp: onlyFaults_def)
      ultimately show ?thesis using res k(2) by simp
    qed
    ultimately show ?thesis using k(1) by metis
  qed
qed

lemma fileData_upd:
  "nodes t = (nodes s)(p := Some (FileN d)) \<Longrightarrow> fileData t q = (if q = p then d else fileData s q)"
  by (simp add: fileData_def)

text \<open>How a chunk continues with the rest of the data: the two cases of the next lemma.\<close>

lemma overwrite_chunk:
  assumes "i < length d" "c = min (length xs) (length d - i)"
  shows "overwrite (d @ e) i xs =
    overwrite d i (take c xs) @ overwrite e (nat (int i + int c - int (length d))) (drop c xs)"
proof (cases "length xs \<le> length d - i")
  case True
  then have "c = length xs" "nat (int i + int c - int (length d)) = 0" using assms by auto
  then show ?thesis using True assms(1) overwrite_append_left [of i xs d e] by simp
next
  case False
  then have "c = length d - i" "nat (int i + int c - int (length d)) = 0" using assms by auto
  then show ?thesis using False assms(1) overwrite_append_both [of i d xs e] by simp
qed

lemma overwrite_chunk_rest:
  assumes "i < length d" "c = min (length xs) (length d - i)" "c \<le> k"
  shows "overwrite d i (take k (take c xs)) @
      overwrite e (nat (int i + int c - int (length d))) (take m (drop c xs)) =
    overwrite (d @ e) i (take (c + m) xs)"
proof -
  let ?xs = "take (c + m) xs"
  have "c = min (length ?xs) (length d - i)" using assms(2) by (simp add: min_def)
  moreover have "drop c ?xs = take m (drop c xs)" by (simp add: drop_take)
  ultimately show ?thesis using overwrite_chunk [OF assms(1), of c ?xs e] assms(3) by (simp add: min_absorb2)
qed

definition inPlace :: "os \<Rightarrow> os \<Rightarrow> fileSpan list \<Rightarrow> bool" where
  "inPlace s t ss \<longleftrightarrow> (\<forall>q. q \<notin> spanPath ` set ss \<longrightarrow> nodes t q = nodes s q) \<and>
     (\<forall>sp\<in>set ss. backed t sp) \<and> (faults s = [] \<longrightarrow> faults t = [])"

text \<open>A chunk of \<open>c\<close> bytes inside the first file, and what it does to the whole array.\<close>

lemma chunk_effect:
  assumes "spanStart sp = a" "0 \<le> a" "spanEnd sp \<le> MaxInt64" "backed s sp"
    "\<forall>sp\<in>set ss. backed s sp" "spanPath sp \<notin> spanPath ` set ss"
    "a \<le> pos" "pos < spanEnd sp" "c = min (length xs) (nat (spanEnd sp - pos))"
    "writeChunk sp (take c xs) pos s = (r, t)"
  shows "\<exists>k. fileData t (spanPath sp) = overwrite (fileData s (spanPath sp)) (nat (pos - a)) (take k (take c xs)) \<and>
      contentsOf t ss = contentsOf s ss \<and> inPlace s t (sp # ss) \<and>
      (\<forall>n. r = Inr n \<longrightarrow> n = c \<and> c \<le> k) \<and> (faults s = [] \<longrightarrow> r = Inr c)"
proof -
  let ?p = "spanPath sp"
  let ?f = "fileData s ?p"
  have fl: "int (length ?f) = spanEnd sp - a" using backed_length assms(1,4) by simp
  have c: "pos + int c \<le> spanEnd sp" "length (take c xs) = c" using assms(8,9) by auto
  with writeChunk_effect [OF assms(4) _ _ _ _ assms(10)] assms(1-3,7)
  obtain k where k: "nodes t = (nodes s)(?p := Some (FileN (overwrite ?f (nat (pos - a)) (take k (take c xs)))))"
    "\<forall>n. r = Inr n \<longrightarrow> n = c \<and> c \<le> k" "faults s = [] \<longrightarrow> faults t = [] \<and> r = Inr c"
    by auto
  have same: "nodes t (spanPath q) = nodes s (spanPath q)" if "q \<in> set ss" for q
    using that k(1) assms(6) by (metis fun_upd_other image_eqI)
  have "length (overwrite ?f (nat (pos - a)) (take k (take c xs))) = length ?f"
    using fl c assms(7) by auto
  with fl assms(1,4) k(1) have "backed t sp" by (auto simp: backed_def)
  moreover have "contentsOf t ss = contentsOf s ss" using same by (rule contentsOf_cong)
  moreover have "\<forall>q\<in>set ss. backed t q" using same assms(5) backed_cong by blast
  moreover have "\<forall>q. q \<noteq> ?p \<longrightarrow> nodes t q = nodes s q" using k(1) by simp
  ultimately have "inPlace s t (sp # ss)" using k(3) by (auto simp: inPlace_def)
  moreover have "fileData t ?p = overwrite ?f (nat (pos - a)) (take k (take c xs))"
    using fileData_upd [OF k(1)] by simp
  ultimately show ?thesis using \<open>contentsOf t ss = contentsOf s ss\<close> k(2,3) by blast
qed

lemma inPlace_trans:
  "inPlace s t (sp # ss) \<Longrightarrow> inPlace t u ss \<Longrightarrow> spanPath sp \<notin> spanPath ` set ss \<Longrightarrow> inPlace s u (sp # ss)"
  using backed_cong [of u sp t] by (auto simp: inPlace_def)

text \<open>
  The array after a step of the loop on its first file: the data lies behind the file, the chunk failed, or
  the chunk is written and the loop goes on with the rest.
\<close>

lemma contents_past:
  assumes sp: "spanStart sp = a" "spansFrom (spanEnd sp) ss b" "backed s sp" "\<forall>sp\<in>set ss. backed s sp"
    and pos: "a \<le> pos" "spanEnd sp \<le> pos" "pos < b" and path: "spanPath sp \<notin> spanPath ` set ss"
    and t: "contentsOf t ss = overwrite (contentsOf s ss) (nat (pos - spanEnd sp)) xs" "inPlace s t ss"
  shows "contentsOf t (sp # ss) = overwrite (contentsOf s (sp # ss)) (nat (pos - a)) xs \<and> inPlace s t (sp # ss)"
proof
  let ?f = "fileData s (spanPath sp)"
  have same: "nodes t (spanPath sp) = nodes s (spanPath sp)" using t(2) path by (simp add: inPlace_def)
  have "int (length ?f) = spanEnd sp - a" using backed_length [OF sp(3)] sp(1) by simp
  then have "nat (pos - a) - length ?f = nat (pos - spanEnd sp)" "length ?f \<le> nat (pos - a)"
    "nat (pos - a) \<le> length ?f + length (contentsOf s ss)"
    using pos length_contentsOf [OF sp(2,4)] by auto
  then show "contentsOf t (sp # ss) = overwrite (contentsOf s (sp # ss)) (nat (pos - a)) xs"
    using t(1) same by (simp add: overwrite_append_right fileData_def)
  show "inPlace s t (sp # ss)" using t(2) same sp(3) backed_cong [of s sp t] by (auto simp: inPlace_def)
qed

lemma contents_failed:
  assumes "fileData t (spanPath sp) = overwrite (fileData s (spanPath sp)) i (take k (take c xs))" "contentsOf t ss = contentsOf s ss"
    "i + c \<le> length (fileData s (spanPath sp))"
  shows "contentsOf t (sp # ss) = overwrite (contentsOf s (sp # ss)) i (take (min k c) xs)"
proof -
  have "i + length (take (min k c) xs) \<le> length (fileData s (spanPath sp))" using assms(3) by simp
  from overwrite_append_left [OF this, of "contentsOf s ss"] assms(1,2)
  show ?thesis by (simp only: contentsOf_simps take_take)
qed

lemma contents_rest:
  assumes chunk: "fileData u (spanPath sp) = overwrite (fileData s (spanPath sp)) i (take k (take c xs))" "c \<le> k"
    and later: "fileData t (spanPath sp) = fileData u (spanPath sp)"
      "contentsOf t ss = overwrite (contentsOf s ss) (nat (int i + int c - int (length (fileData s (spanPath sp))))) (take m (drop c xs))"
    and i: "i < length (fileData s (spanPath sp))" "c = min (length xs) (length (fileData s (spanPath sp)) - i)"
  shows "contentsOf t (sp # ss) = overwrite (contentsOf s (sp # ss)) i (take (c + m) xs)"
  unfolding contentsOf_simps later chunk(1) using overwrite_chunk_rest [OF i chunk(2), of "contentsOf s ss" m] by argo

text \<open>One iteration that writes.\<close>

lemma writeLoop_chunk:
  assumes "writeLoop (sp # ss) d offset w s = (r, t)" "w < length d" "i64 (offset + int w) = offset + int w" "0 \<le> offset"
    "spanStart sp \<le> offset + int w" "offset + int w < spanEnd sp" "spanEnd sp \<le> MaxInt64"
    "c = min (length (drop w d)) (nat (spanEnd sp - (offset + int w)))"
  shows "\<exists>r1 s1. writeChunk sp (take c (drop w d)) (offset + int w) s = (r1, s1) \<and>
    (r, t) = (case r1 of Inl e \<Rightarrow> (Inl e, s1) | Inr n \<Rightarrow> writeLoop ss d offset (w + n) s1)"
proof -
  have slice: "sliceOf d w (w + c) = take c (drop w d)" by (simp add: sliceOf_def)
  have "nat (minInt64 (int (length d - w)) (i64 (spanEnd sp - (offset + int w)))) = c"
    using assms by (simp add: minInt64_min i64_nonneg_id)
  with assms slice show ?thesis by (auto simp: Let_def bindA_def split: prod.splits sum.splits)
qed

lemma writeLoop_effect:
  assumes "spansFrom a ss b" "0 \<le> a" "b \<le> MaxInt64" "0 \<le> offset"
    "distinct (map spanPath ss)" "\<forall>sp\<in>set ss. backed s sp"
    "w \<le> length d" "a \<le> offset + int w \<or> w = length d" "offset + int (length d) \<le> b"
    "writeLoop ss d offset w s = (r, t)"
  shows "\<exists>k. contentsOf t ss = overwrite (contentsOf s ss) (nat (offset + int w - a)) (take k (drop w d)) \<and>
     inPlace s t ss \<and> (\<forall>w'. r = Inr w' \<longrightarrow> w' = length d \<and> length d - w \<le> k) \<and>
     (faults s = [] \<longrightarrow> (\<exists>w'. r = Inr w'))"
  using assms
proof (induction ss arbitrary: a s w)
  case Nil
  then show ?case by (auto simp: inPlace_def overwrite_def resize_def)
next
  case (Cons sp ss)
  let ?p = "spanPath sp" and ?pos = "offset + int w"
  let ?f = "fileData s ?p" and ?i = "nat (?pos - a)"
  from Cons.prems have sp: "spanStart sp = a" "a \<le> spanEnd sp" "spansFrom (spanEnd sp) ss b" "backed s sp"
    and rest: "distinct (map spanPath ss)" "\<forall>sp\<in>set ss. backed s sp" "?p \<notin> spanPath ` set ss" by auto
  have eb: "spanEnd sp \<le> b" using sp(3) by (rule spansFrom_le)
  have fl: "int (length ?f) = spanEnd sp - a" using backed_length [OF sp(4)] sp(1) by simp
  have i64: "i64 ?pos = ?pos" using Cons.prems by (intro i64_nonneg_id) auto
  consider "w = length d" | "w < length d" "spanEnd sp \<le> ?pos" | "w < length d" "?pos < spanEnd sp"
    using Cons.prems(7) by linarith
  then show ?case
  proof cases
    case 1
    with Cons.prems(10) have "t = s" "r = Inr w" by auto
    then show ?thesis using 1 Cons.prems(6) fl length_contentsOf [OF sp(3) rest(2)] Cons.prems(9)
      by (intro exI [of _ 0]) (auto simp: inPlace_def nat_le_iff)
  next
    case 2
    with Cons.prems have apos: "a \<le> ?pos" "?pos < b" by auto
    from 2 Cons.prems(10) i64 have "writeLoop ss d offset w s = (r, t)" by simp
    with Cons.IH [of "spanEnd sp" s w] sp rest Cons.prems 2
    obtain k where k: "contentsOf t ss = overwrite (contentsOf s ss) (nat (?pos - spanEnd sp)) (take k (drop w d))"
      "inPlace s t ss" "\<forall>w'. r = Inr w' \<longrightarrow> w' = length d \<and> length d - w \<le> k" "faults s = [] \<longrightarrow> (\<exists>w'. r = Inr w')"
      by auto
    then show ?thesis using contents_past [OF sp(1,3,4) rest(2) apos(1) 2(2) apos(2) rest(3) k(1,2)] by blast
  next
    case 3
    with Cons.prems have apos: "a \<le> ?pos" by auto
    have max: "spanEnd sp \<le> MaxInt64" using eb Cons.prems(3) by simp
    define c where "c = min (length (drop w d)) (nat (spanEnd sp - ?pos))"
    have start: "spanStart sp \<le> ?pos" using apos sp(1) by simp
    obtain r1 s1 where chunk: "writeChunk sp (take c (drop w d)) ?pos s = (r1, s1)"
      and cont: "(r, t) = (case r1 of Inl e \<Rightarrow> (Inl e, s1) | Inr n \<Rightarrow> writeLoop ss d offset (w + n) s1)"
      using writeLoop_chunk [OF Cons.prems(10) 3(1) i64 Cons.prems(4) start 3(2) max c_def] by blast
    from chunk_effect [OF sp(1) Cons.prems(2) max sp(4) rest(2,3) apos 3(2) c_def chunk]
    obtain k where k: "fileData s1 ?p = overwrite ?f ?i (take k (take c (drop w d)))"
      "contentsOf s1 ss = contentsOf s ss" "inPlace s s1 (sp # ss)"
      "\<forall>n. r1 = Inr n \<longrightarrow> n = c \<and> c \<le> k" "faults s = [] \<longrightarrow> r1 = Inr c" by blast
    have pos: "?i + c \<le> length ?f" "?i < length ?f" "c = min (length (drop w d)) (length ?f - ?i)"
      "nat (offset + int (w + c) - spanEnd sp) = nat (int ?i + int c - int (length ?f))"
      using fl apos 3 by (auto simp: c_def)
    show ?thesis
    proof (cases r1)
      case (Inl e)
      then have "r = Inl e" "t = s1" "faults s \<noteq> []" using cont k(5) by auto
      then show ?thesis using contents_failed [OF k(1,2) pos(1)] k(3) by (intro exI [of _ "min k c"]) simp
    next
      case (Inr n)
      with k(4) have n: "n = c" "c \<le> k" by auto
      with cont Inr have rec: "writeLoop ss d offset (w + c) s1 = (r, t)" by simp
      have pre: "spanEnd sp \<le> offset + int (w + c) \<or> w + c = length d" "w + c \<le> length d" "0 \<le> spanEnd sp"
        using 3 Cons.prems sp by (auto simp: c_def)
      have bk: "\<forall>sp\<in>set ss. backed s1 sp" using k(3) by (simp add: inPlace_def)
      have dr: "drop (w + c) d = drop c (drop w d)" by (simp add: add.commute)
      from Cons.IH [OF sp(3) pre(3) Cons.prems(3,4) rest(1) bk pre(2,1) Cons.prems(9) rec, unfolded k(2) pos(4) dr]
      obtain m where m: "contentsOf t ss = overwrite (contentsOf s ss) (nat (int ?i + int c - int (length ?f))) (take m (drop c (drop w d)))"
        "inPlace s1 t ss" "\<forall>w'. r = Inr w' \<longrightarrow> w' = length d \<and> length d - (w + c) \<le> m" "faults s1 = [] \<longrightarrow> (\<exists>w'. r = Inr w')"
        by blast
      have same: "fileData t ?p = fileData s1 ?p" using m(2) rest(3) by (simp add: inPlace_def fileData_def)
      have "length d - (w + c) \<le> m \<Longrightarrow> length d - w \<le> c + m" by linarith
      with m(3) have "\<forall>w'. r = Inr w' \<longrightarrow> w' = length d \<and> length d - w \<le> c + m" by blast
      moreover have "faults s = [] \<longrightarrow> (\<exists>w'. r = Inr w')" using m(4) k(3) by (simp add: inPlace_def)
      ultimately show ?thesis using contents_rest [OF k(1) n(2) same m(1) pos(2,3)] inPlace_trans [OF k(3) m(2) rest(3)]
        by (intro exI [of _ "c + m"] conjI)
    qed
  qed
qed

section \<open>Reading\<close>

lemma ReadFileAt_effect:
  assumes "0 \<le> i" "ReadFileAt p n i s = ((ys, e), t)"
    "nat i + n \<le> length (fileData s p)"
  shows "onlyFaults s t \<and> (\<exists>k. ys = take k (take n (drop (nat i) (fileData s p)))) \<and>
    (faults s = [] \<longrightarrow> e = None \<and> length ys = n)"
  using assms
  by (auto simp: ReadFileAt_def onlyFaults_def Let_def split: list.splits option.splits)
    (auto intro: exI [of _ n])

lemma readChunk_effect:
  assumes b: "backed s sp" and pos: "spanStart sp \<le> pos" "pos + int n \<le> spanEnd sp"
    and range: "0 \<le> spanStart sp" "spanEnd sp \<le> MaxInt64"
    and run: "readChunk sp n pos s = (r, t)"
  shows "onlyFaults s t \<and>
    (\<forall>ys. r = Inr ys \<longrightarrow> ys = take n (drop (nat (pos - spanStart sp)) (fileData s (spanPath sp)))) \<and>
    (faults s = [] \<longrightarrow> (\<exists>ys. r = Inr ys))"
proof -
  let ?p = "spanPath sp" and ?i = "pos - spanStart sp"
  have i: "i64 ?i = ?i" "0 \<le> ?i" using pos range by (auto intro: i64_nonneg_id)
  have len: "nat ?i + n \<le> length (fileData s ?p)" using backed_length [OF b] pos by simp
  obtain o1 s1 where o1: "OpenFile False ?p s = (o1, s1)" by fastforce
  note op = Open_backed [OF b o1]
  show ?thesis
  proof (cases o1)
    case (Inl e)
    with run o1 have "t = s1" "r = Inl (StorageOS e)" by (auto simp: readChunk_def bindA_def errA_def)
    with op Inl show ?thesis by auto
  next
    case (Inr f)
    with op have f: "f = ?p" and n1: "fileData s1 ?p = fileData s ?p" by (auto simp: onlyFaults_def fileData_def)
    obtain ys e s2 where w: "ReadFileAt ?p n ?i s1 = ((ys, e), s2)" by (metis prod.exhaust)
    obtain c s3 where c: "CloseFile ?p s2 = (c, s3)" by fastforce
    let ?ys = "take n (drop (nat ?i) (fileData s ?p))"
    obtain k where rd: "onlyFaults s1 s2" "ys = take k ?ys" "faults s1 = [] \<longrightarrow> e = None \<and> length ys = n"
      using ReadFileAt_effect [OF i(2) w len [folded n1], unfolded n1] by blast
    have res: "r = (if e \<noteq> None \<and> e \<noteq> Some ErrEOF then Inl (StorageOS (the e)) else
        (case c of Inl e \<Rightarrow> Inl (StorageOS e) | Inr _ \<Rightarrow>
          if length ys = n then Inr ys else Inl UnexpectedEOF))" and t: "t = s3"
      using run o1 Inr f w c i
      by (cases "length ys = n"; auto simp: readChunk_def act_defs split: option.splits sum.splits if_splits)+
    have "zs = ?ys" if "r = Inr zs" for zs
    proof -
      have "zs = ys" "length ys = length ?ys" using that res len by (auto split: if_splits sum.splits)
      with rd(2) show ?thesis by (metis length_take min.cobounded2 take_all)
    qed
    moreover have "onlyFaults s t"
      using op rd(1) CloseFile_pure [OF c] t by (blast intro: onlyFaults_trans)
    moreover have "\<exists>ys. r = Inr ys" if "faults s = []"
    proof -
      have "faults s1 = []" using that op by (simp add: onlyFaults_def)
      moreover from this have "c = Inr ()" using rd(1) CloseFile_pure [OF c] by (simp add: onlyFaults_def)
      ultimately show ?thesis using res rd(3) by simp
    qed
    ultimately show ?thesis by blast
  qed
qed

lemma slice_chunk:
  assumes "i < length d" "c = min m (length d - i)"
  shows "take c (drop i d) @ take (m - c) (drop (nat (int i + int c - int (length d))) e) = take m (drop i (d @ e))"
proof (cases "m \<le> length d - i")
  case True
  then show ?thesis using assms by simp
next
  case False
  then have "nat (int i + int c - int (length d)) = 0" "c = length d - i" using assms by auto
  then show ?thesis using False assms by simp
qed

text \<open>One iteration that reads, and how the parts make up a slice of the array.\<close>

lemma readLoop_chunk:
  assumes "readLoop (sp # ss) n offset acc s = (r, t)" "length acc < n" "0 \<le> offset"
    "i64 (offset + int (length acc)) = offset + int (length acc)" "spanStart sp \<le> offset + int (length acc)"
    "offset + int (length acc) < spanEnd sp" "spanEnd sp \<le> MaxInt64"
    "c = min (n - length acc) (nat (spanEnd sp - (offset + int (length acc))))"
  shows "\<exists>r1 s1. readChunk sp c (offset + int (length acc)) s = (r1, s1) \<and>
    (r, t) = (case r1 of Inl e \<Rightarrow> (Inl e, s1) | Inr ys \<Rightarrow> readLoop ss n offset (acc @ ys) s1)"
proof -
  have "nat (minInt64 (int (n - length acc)) (i64 (spanEnd sp - (offset + int (length acc))))) = c"
    using assms by (simp add: minInt64_min i64_nonneg_id)
  with assms show ?thesis by (auto simp: Let_def bindA_def split: prod.splits sum.splits)
qed

lemma readLoop_effect:
  assumes "spansFrom a ss b" "0 \<le> a" "b \<le> MaxInt64" "0 \<le> offset"
    "\<forall>sp\<in>set ss. backed s sp" "length acc \<le> n"
    "a \<le> offset + int (length acc) \<or> length acc = n" "offset + int n \<le> b"
    "readLoop ss n offset acc s = (r, t)"
  shows "onlyFaults s t \<and> (faults s = [] \<longrightarrow> (\<exists>ys. r = Inr ys)) \<and>
    (\<forall>ys. r = Inr ys \<longrightarrow> ys = acc @ take (n - length acc)
      (drop (nat (offset + int (length acc) - a)) (contentsOf s ss)))"
  using assms
proof (induction ss arbitrary: a s acc)
  case Nil
  then show ?case by auto
next
  case (Cons sp ss)
  let ?pos = "offset + int (length acc)" and ?m = "n - length acc"
  let ?f = "fileData s (spanPath sp)" and ?i = "nat (offset + int (length acc) - a)"
  from Cons.prems have sp: "spanStart sp = a" "a \<le> spanEnd sp" "spansFrom (spanEnd sp) ss b" "backed s sp"
    and rest: "\<forall>sp\<in>set ss. backed s sp" by auto
  have max: "spanEnd sp \<le> MaxInt64" using spansFrom_le [OF sp(3)] Cons.prems(3) by simp
  have fl: "int (length ?f) = spanEnd sp - a" using backed_length [OF sp(4)] sp(1) by simp
  have i64: "i64 ?pos = ?pos" using Cons.prems by (intro i64_nonneg_id) auto
  consider "length acc = n" | "length acc < n" "spanEnd sp \<le> ?pos" | "length acc < n" "?pos < spanEnd sp"
    using Cons.prems(6) by linarith
  then show ?case
  proof cases
    case 1
    with Cons.prems(9) show ?thesis by auto
  next
    case 2
    with Cons.prems(9) i64 have run: "readLoop ss n offset acc s = (r, t)" by simp
    have "?i - length ?f = nat (?pos - spanEnd sp)" "length ?f \<le> ?i" using fl 2 Cons.prems(7) by auto
    then have "take ?m (drop ?i (contentsOf s (sp # ss))) = take ?m (drop (nat (?pos - spanEnd sp)) (contentsOf s ss))" by simp
    with Cons.IH [OF sp(3) _ Cons.prems(3,4) rest Cons.prems(6) _ Cons.prems(8) run] sp(2) Cons.prems(2) 2
    show ?thesis by simp
  next
    case 3
    then have apos: "a \<le> ?pos" "spanStart sp \<le> ?pos" using Cons.prems(7) sp(1) by auto
    define c where "c = min ?m (nat (spanEnd sp - ?pos))"
    obtain r1 s1 where chunk: "readChunk sp c ?pos s = (r1, s1)"
      and cont: "(r, t) = (case r1 of Inl e \<Rightarrow> (Inl e, s1) | Inr ys \<Rightarrow> readLoop ss n offset (acc @ ys) s1)"
      using readLoop_chunk [OF Cons.prems(9) 3(1) Cons.prems(4) i64 apos(2) 3(2) max c_def] by blast
    have "?pos + int c \<le> spanEnd sp" using 3 by (simp add: c_def)
    with readChunk_effect [OF sp(4) _ _ _ _ chunk] sp(1) apos(1) Cons.prems(2) max
    have k: "onlyFaults s s1" "\<forall>ys. r1 = Inr ys \<longrightarrow> ys = take c (drop ?i ?f)" "faults s = [] \<longrightarrow> (\<exists>ys. r1 = Inr ys)" by auto
    show ?thesis
    proof (cases r1)
      case (Inl e)
      with cont k show ?thesis by simp
    next
      case (Inr ys)
      have ys: "ys = take c (drop ?i ?f)" "length ys = c" using k(2) Inr fl apos 3 by (auto simp: c_def)
      from cont Inr have rec: "readLoop ss n offset (acc @ ys) s1 = (r, t)" by simp
      have pre: "length (acc @ ys) \<le> n" "0 \<le> spanEnd sp" "spanEnd sp \<le> offset + int (length (acc @ ys)) \<or> length (acc @ ys) = n"
        using ys(2) Cons.prems 3 sp by (auto simp: c_def)
      have same: "\<forall>sp\<in>set ss. backed s1 sp" "contentsOf s1 ss = contentsOf s ss" using rest onlyFaults_same [OF k(1)] by auto
      have pos: "nat (offset + int (length (acc @ ys)) - spanEnd sp) = nat (int ?i + int c - int (length ?f))"
        "?i < length ?f" "c = min ?m (length ?f - ?i)" "n - length (acc @ ys) = ?m - c"
        using fl apos 3 ys(2) by (auto simp: c_def min_def)
      have eq: "(acc @ ys) @ take (n - length (acc @ ys)) (drop (nat (offset + int (length (acc @ ys)) - spanEnd sp)) (contentsOf s ss)) =
          acc @ take ?m (drop ?i (contentsOf s (sp # ss)))"
        unfolding pos(1,4) contentsOf_simps append_assoc
        using slice_chunk [OF pos(2,3), of "contentsOf s ss"] by (simp only: ys(1) [symmetric])
      show ?thesis
        using Cons.IH [OF sp(3) pre(2) Cons.prems(3,4) same(1) pre(1,3) Cons.prems(8) rec, unfolded same(2) eq]
          onlyFaults_trans [OF k(1)] k(1) unfolding onlyFaults_def by blast
    qed
  qed
qed

section \<open>The storage as a byte array\<close>

definition inRange :: "Storage \<Rightarrow> int \<Rightarrow> nat \<Rightarrow> bool" where
  "inRange st i n \<longleftrightarrow> \<not> closed st \<and> 0 \<le> i \<and> i + int n \<le> storageTotal st"

lemma range_check:
  assumes "wfStorage s st"
  shows "(i < 0 \<or> i > storageTotal st \<or> int n > i64 (storageTotal st - i)) \<longleftrightarrow>
    \<not> (0 \<le> i \<and> i + int n \<le> storageTotal st)"
proof (cases "0 \<le> i \<and> i \<le> storageTotal st")
  case True
  then have "i64 (storageTotal st - i) = storageTotal st - i"
    using assms by (intro i64_nonneg_id) (auto simp: wfStorage_def)
  then show ?thesis using True by auto
qed auto

lemma inPlace_wf:
  "wfStorage s st \<Longrightarrow> inPlace s t (spans st) \<Longrightarrow> wfStorage t st"
  by (simp add: wfStorage_def inPlace_def)

lemma WriteAt_effect:
  assumes wf: "wfStorage s st" and run: "WriteAt st xs i s = (r, t)"
  shows "wfStorage t st \<and> (\<forall>q. q \<notin> spanPath ` set (spans st) \<longrightarrow> nodes t q = nodes s q) \<and>
    (if inRange st i (length xs)
     then (\<exists>k. storeBytes t st = overwrite (storeBytes s st) (nat i) (take k xs) \<and>
             (r = Inr () \<longrightarrow> length xs \<le> k)) \<and> (faults s = [] \<longrightarrow> faults t = [] \<and> r = Inr ())
     else t = s \<and> r \<noteq> Inr ())"
proof (cases "inRange st i (length xs)")
  case True
  then have i: "0 \<le> i" "i + int (length xs) \<le> storageTotal st" "\<not> closed st" by (auto simp: inRange_def)
  have "WriteAt st xs i s = writeAtLocked st xs i s"
    using range_check [OF wf, of i "length xs"] i unfolding WriteAt_def by auto
  then obtain r1 where loop: "writeLoop (spans st) xs i 0 s = (r1, t)"
    and r: "r = (case r1 of Inl e \<Rightarrow> Inl e | Inr w \<Rightarrow> if w = length xs then Inr () else Inl ErrShortWrite)"
    using run by (auto simp: writeAtLocked_def bindA_def guardA_def retA_def failA_def
        split: prod.splits sum.splits if_splits)
  from writeLoop_effect [OF _ _ _ i(1) _ _ _ _ _ loop, of 0 "storageTotal st"] wf i
  obtain k where k: "storeBytes t st = overwrite (storeBytes s st) (nat i) (take k xs)"
    "inPlace s t (spans st)" "\<forall>w'. r1 = Inr w' \<longrightarrow> w' = length xs \<and> length xs \<le> k"
    "faults s = [] \<longrightarrow> (\<exists>w'. r1 = Inr w')"
    by (auto simp: wfStorage_def storeBytes_def)
  have "r = Inr () \<longrightarrow> length xs \<le> k" using r k(3) by (auto split: sum.splits)
  moreover have "faults s = [] \<longrightarrow> r = Inr ()" using r k(3,4) by (auto split: sum.splits)
  ultimately have "storeBytes t st = overwrite (storeBytes s st) (nat i) (take k xs) \<and> (r = Inr () \<longrightarrow> length xs \<le> k)"
    "faults s = [] \<longrightarrow> faults t = [] \<and> r = Inr ()" using k(1,2) by (simp_all add: inPlace_def)
  then show ?thesis using True k(2) inPlace_wf [OF wf k(2)] unfolding inPlace_def by auto
next
  case False
  then have "t = s \<and> r \<noteq> Inr ()"
    using run range_check [OF wf, of i "length xs"] unfolding WriteAt_def inRange_def
    by (auto split: if_splits)
  then show ?thesis using wf False by simp
qed

lemma ReadAt_effect:
  assumes wf: "wfStorage s st" and run: "ReadAt st n i s = (r, t)"
  shows "onlyFaults s t \<and> (if inRange st i n
     then (\<forall>ys. r = Inr ys \<longrightarrow> ys = sliceOf (storeBytes s st) (nat i) (nat i + n)) \<and>
          (faults s = [] \<longrightarrow> (\<exists>ys. r = Inr ys))
     else t = s \<and> (\<forall>ys. r \<noteq> Inr ys))"
proof (cases "inRange st i n")
  case True
  then have i: "0 \<le> i" "i + int n \<le> storageTotal st" "\<not> closed st" by (auto simp: inRange_def)
  have rd: "ReadAt st n i s = bindA (readLoop (spans st) n i [])
      (\<lambda>ys. seqA (guardA (length ys = n) UnexpectedEOF) (retA ys)) s"
    using range_check [OF wf, of i n] i unfolding ReadAt_def by auto
  then obtain r1 where loop: "readLoop (spans st) n i [] s = (r1, t)"
    and r: "r = (case r1 of Inl e \<Rightarrow> Inl e | Inr ys \<Rightarrow> if length ys = n then Inr ys else Inl UnexpectedEOF)"
    using run by (auto simp: act_defs split: prod.splits sum.splits if_splits)
  from readLoop_effect [OF _ _ _ i(1) _ _ _ _ loop, of 0 "storageTotal st"] wf i
  have k: "onlyFaults s t" "faults s = [] \<longrightarrow> (\<exists>ys. r1 = Inr ys)"
    "\<And>ys. r1 = Inr ys \<Longrightarrow> ys = take n (drop (nat i) (storeBytes s st))"
    by (simp_all add: wfStorage_def storeBytes_def)
  have "nat i + n \<le> length (storeBytes s st)" using length_storeBytes [OF wf] i by linarith
  then have "r = r1" using r k(3) by (cases r1) simp_all
  then show ?thesis using True k by (simp add: sliceOf_def)
next
  case False
  then have "t = s \<and> (\<forall>ys. r \<noteq> Inr ys)"
    using run range_check [OF wf, of i n] unfolding ReadAt_def inRange_def
    by (auto split: if_splits)
  then show ?thesis using False by simp
qed

lemma inRange_length:
  "wfStorage s st \<Longrightarrow> inRange st i n \<Longrightarrow> 0 \<le> i \<and> nat i + n \<le> length (storeBytes s st)"
  using length_storeBytes [of s st] by (auto simp: inRange_def)

lemma onlyFaults_wf: "onlyFaults s t \<Longrightarrow> wfStorage t st = wfStorage s st \<and> storeBytes t st = storeBytes s st"
  using onlyFaults_same by (simp add: wfStorage_def storeBytes_def)

interpretation store: byte_store "\<lambda>s. wfStorage s st" "\<lambda>s. storeBytes s st" "WriteAt st" "ReadAt st" for st
proof (unfold_locales, goal_cases)
  case (1 s xs i r t) then show ?case using WriteAt_effect by blast
next
  case (2 s xs i r t) then show ?case
    using WriteAt_effect [OF 2] inRange_length [of s st i "length xs"] by (auto split: if_splits)
next
  case (3 s xs i u t) then show ?case
    using WriteAt_effect [OF 3] inRange_length [of s st i "length xs"] by (auto split: if_splits)
next
  case (4 s n i q t) then show ?case using ReadAt_effect [OF 4] onlyFaults_wf by blast
next
  case (5 s n i ys t) then show ?case
    using ReadAt_effect [OF 5] inRange_length [of s st i n] by (auto split: if_splits)
qed

section \<open>The offset of a piece\<close>

lemma i64_wrap: "\<exists>k. i64 n = n + k * 2 ^ 64"
proof -
  have "i64 n = n + (- ((n + 2 ^ 63) div 2 ^ 64)) * 2 ^ 64"
    unfolding i64_def by (simp add: minus_div_mult_eq_mod [symmetric])
  then show ?thesis by blast
qed

lemma sdiv_trunc:
  fixes a :: int
  assumes "a sdiv i = b" "0 < i"
  shows "\<bar>a - b * i\<bar> < i"
proof -
  have "a - a sdiv i * i = a smod i" by (rule minus_sdiv_mult_eq_smod)
  moreover have "\<bar>a smod i\<bar> < i" using assms(2) by (simp add: smod_int_alt_def abs_mult sgn_if)
  ultimately show ?thesis using assms(1) by simp
qed

lemma offset_overflow:
  assumes "isInt64 i" "isInt64 n" "0 < i" "0 < n"
  shows "i64 (i * n) sdiv i = n \<longleftrightarrow> i * n \<le> MaxInt64"
proof
  assume "i * n \<le> MaxInt64"
  then have "i64 (i * n) = i * n" using assms by (intro i64_nonneg_id) simp_all
  then show "i64 (i * n) sdiv i = n" using assms by (simp add: signed_divide_int_def)
next
  assume h: "i64 (i * n) sdiv i = n"
  obtain k where k: "i64 (i * n) = i * n + k * 2 ^ 64" using i64_wrap by blast
  have "\<bar>i64 (i * n) - n * i\<bar> < i" by (rule sdiv_trunc [OF h assms(3)])
  then have "\<bar>k * 2 ^ 64\<bar> < i" by (simp add: k algebra_simps)
  also have "i < 2 ^ 64" using assms(1) by (simp add: isInt64_def MaxInt64_def)
  finally have "k = 0" by (simp add: abs_mult)
  then have "isInt64 (i * n)" using isInt64_i64 [of "i * n"] k by simp
  then show "i * n \<le> MaxInt64" by (simp add: isInt64_def)
qed

lemma WritePiece_cases:
  assumes "isInt64 i" "isInt64 n"
  shows "WritePiece st i n d =
    (if i < 0 \<or> n \<le> 0 then failA InvalidPiecePosition
     else if i * n > MaxInt64 then failA PieceOffsetOverflow
     else WriteAt st d (i * n))"
proof (cases "0 < i \<and> 0 < n")
  case True
  then have "i * n \<le> MaxInt64 \<Longrightarrow> i64 (i * n) = i * n" by (intro i64_nonneg_id) simp_all
  then show ?thesis using True offset_overflow [OF assms] by (auto simp: WritePiece_def)
next
  case False
  then show ?thesis by (auto simp: WritePiece_def i64_def MaxInt64_def)
qed

section \<open>Properties\<close>

text \<open>
  C9. \<open>WriteAt\<close> refines the update of one flat array. A request outside the torrent, or to a closed
  storage, is refused and changes nothing. Any other request keeps the storage well formed, touches no
  file that is not the torrent's, and stores a prefix of its data at its offset: all of the data when it
  returns without an error, which it does when no system call fails.
\<close>

theorem WriteAt_refines:
  assumes "wfStorage s st" "WriteAt st xs i s = (r, t)"
  shows "wfStorage t st \<and> (\<forall>q. q \<notin> spanPath ` set (spans st) \<longrightarrow> nodes t q = nodes s q) \<and>
    (if inRange st i (length xs)
     then (\<exists>k. storeBytes t st = overwrite (storeBytes s st) (nat i) (take k xs) \<and>
             (r = Inr () \<longrightarrow> length xs \<le> k)) \<and> (faults s = [] \<longrightarrow> r = Inr ())
     else t = s \<and> r \<noteq> Inr ())"
  using WriteAt_effect [OF assms] by (simp split: if_splits)

definition sampleStorage :: Storage where
  "sampleStorage =
     \<lparr>spans = [\<lparr>spanPath = Path False [[97]], spanStart = 0, spanEnd = 2\<rparr>,
               \<lparr>spanPath = Path False [[98]], spanStart = 2, spanEnd = 2\<rparr>,
               \<lparr>spanPath = Path False [[99]], spanStart = 2, spanEnd = 5\<rparr>],
      storageTotal = 5, closed = False, InProgressPath = Path False [[112]],
      CompletedPath = Path False [[113]]\<rparr>"

definition sampleDisk :: os where
  "sampleDisk =
     \<lparr>nodes = (\<lambda>_. None)(Path False [[97]] := Some (FileN [1, 2]), Path False [[98]] := Some (FileN []),
        Path False [[99]] := Some (FileN [3, 4, 5])), faults = []\<rparr>"

lemma sample_wf: "wfStorage sampleDisk sampleStorage"
  by (simp add: wfStorage_def sampleDisk_def sampleStorage_def backed_def MaxInt64_def)

lemma sample_bytes: "storeBytes sampleDisk sampleStorage = [1, 2, 3, 4, 5]"
  by (simp add: storeBytes_def sampleDisk_def sampleStorage_def fileData_def)

theorem WriteAt_refines_witness:
  "\<exists>t. WriteAt sampleStorage [7, 8, 9] 1 sampleDisk = (Inr (), t) \<and>
     storeBytes t sampleStorage = [1, 7, 8, 9, 5]"
proof -
  obtain r t where run: "WriteAt sampleStorage [7, 8, 9] 1 sampleDisk = (r, t)" by fastforce
  have "inRange sampleStorage 1 (length [7, 8, 9 :: byte])" "faults sampleDisk = []"
    by (simp_all add: inRange_def sampleStorage_def sampleDisk_def)
  with WriteAt_refines [OF sample_wf run] sample_bytes have "r = Inr ()"
    "storeBytes t sampleStorage = overwrite [1, 2, 3, 4, 5] 1 [7, 8, 9]" by auto
  then show ?thesis using run by (simp add: overwrite_in)
qed

text \<open>
  C27. \<open>ReadAt\<close> never changes a file. Inside the torrent it returns exactly the requested slice of the flat
  array whenever it returns data, and it does return data when no system call fails; outside, or on a
  closed storage, it returns an error.
\<close>

theorem ReadAt_slice:
  assumes "wfStorage s st" "ReadAt st n i s = (r, t)"
  shows "nodes t = nodes s \<and> (if inRange st i n
     then (\<forall>ys. r = Inr ys \<longrightarrow> ys = sliceOf (storeBytes s st) (nat i) (nat i + n)) \<and>
          (faults s = [] \<longrightarrow> (\<exists>ys. r = Inr ys))
     else t = s \<and> (\<forall>ys. r \<noteq> Inr ys))"
  using ReadAt_effect [OF assms] by (simp add: onlyFaults_def)

theorem ReadAt_slice_witness:
  "\<exists>t. ReadAt sampleStorage 3 1 sampleDisk = (Inr [2, 3, 4], t)"
proof -
  obtain r t where run: "ReadAt sampleStorage 3 1 sampleDisk = (r, t)" by fastforce
  have "inRange sampleStorage 1 3" "faults sampleDisk = []"
    by (simp_all add: inRange_def sampleStorage_def sampleDisk_def)
  with ReadAt_slice [OF sample_wf run] sample_bytes
  have "r = Inr (sliceOf [1, 2, 3, 4, 5] 1 4)" by auto
  then show ?thesis using run by (simp add: sliceOf_def)
qed

text \<open>
  C29. What was written is read back, and only that changes: after a write that succeeded, reading its
  range returns its data, and a read of any range apart from it returns what it would have returned
  before.
\<close>

theorem read_back:
  assumes "wfStorage s st" "WriteAt st xs i s = (Inr (), t)" "ReadAt st n j t = (Inr ys, t')"
    "j + int n \<le> i \<or> i + int (length xs) \<le> j \<or> (j = i \<and> n = length xs)"
  shows "ys = (if j = i \<and> n = length xs then xs else sliceOf (storeBytes s st) (nat j) (nat j + n))"
proof (cases "j = i \<and> n = length xs")
  case True
  with store.read_after_write [OF assms(1,2)] assms(3) show ?thesis by simp
next
  case False
  have "0 \<le> j \<and> nat j + n \<le> length (storeBytes t st)" "ys = sliceOf (storeBytes t st) (nat j) (nat j + n)"
    using store.rd_ok [OF store.wr_inv [OF assms(1,2)] assms(3)] by auto
  moreover have "length (storeBytes t st) = length (storeBytes s st)" by (rule store.wr_length [OF assms(1,2)])
  moreover from calculation have "sliceOf (storeBytes t st) (nat j) (nat j + n) = sliceOf (storeBytes s st) (nat j) (nat j + n)"
    using False assms(4) by (intro store.wr_slice_frame [OF assms(1,2)]) auto
  ultimately show ?thesis unfolding if_not_P [OF False] by simp
qed

theorem read_back_witness:
  "\<exists>t. WriteAt sampleStorage [7, 8] 1 sampleDisk = (Inr (), t) \<and> fst (ReadAt sampleStorage 2 1 t) = Inr [7, 8]"
proof -
  obtain r t where run: "WriteAt sampleStorage [7, 8] 1 sampleDisk = (r, t)" by fastforce
  have rg: "inRange sampleStorage 1 (length [7, 8 :: byte])" "faults sampleDisk = []"
    by (simp_all add: inRange_def sampleStorage_def sampleDisk_def)
  with WriteAt_effect [OF sample_wf run] have r: "r = Inr ()" "wfStorage t sampleStorage" "faults t = []"
    by auto
  obtain q t' where rd: "ReadAt sampleStorage 2 1 t = (q, t')" by fastforce
  with ReadAt_effect [OF r(2) rd] r(3) rg obtain ys where q: "q = Inr ys" by (auto simp: numeral_2_eq_2)
  from read_back [OF sample_wf run [unfolded r(1)] rd [unfolded q]] have "ys = [7, 8]" by simp
  then show ?thesis using run r(1) rd q by simp
qed

text \<open>
  C28. The overflow check of \<open>WritePiece\<close> is exact: with the product in unbounded integers, an index and
  a piece length whose product does not fit in 64 bits are refused, and all others write at the product.
\<close>

theorem WritePiece_exact:
  assumes "isInt64 i" "isInt64 n"
  shows "WritePiece st i n d =
    (if i < 0 \<or> n \<le> 0 then failA InvalidPiecePosition
     else if i * n > MaxInt64 then failA PieceOffsetOverflow
     else WriteAt st d (i * n))"
  using assms by (rule WritePiece_cases)

theorem WritePiece_exact_witness:
  "WritePiece sampleStorage (2 ^ 62) 4 [] = failA PieceOffsetOverflow"
proof -
  have "isInt64 (2 ^ 62)" "isInt64 4" by (simp_all add: isInt64_def MinInt64_def MaxInt64_def)
  from WritePiece_exact [OF this, of sampleStorage "[]"] show ?thesis by (simp add: MaxInt64_def)
qed

end
