(* ===== verification/FileStoreOpen.thy ===== *)
theory FileStoreOpen
  imports FileStoreSpec
begin

text \<open>
  The two ends of a storage's life. \<open>NewStorageAt\<close> lays well-formed metadata out below the in-progress
  directory, keeping the data of an earlier run; \<open>Complete\<close> moves the tree to the completed directory and
  never overwrites anything there.
\<close>

section \<open>Paths\<close>

text \<open>A component that \<open>filepath.Join\<close> appends as it is.\<close>

definition plain :: "bytes \<Rightarrow> bool" where
  "plain c \<longleftrightarrow> c \<noteq> [] \<and> c \<noteq> str ''.'' \<and> c \<noteq> str ''..'' \<and> sep \<notin> set c"

lemma safe_plain: "safeComponent c \<Longrightarrow> plain c"
  by (auto simp: safeComponent_def plain_def sep_def)

lemma splitSep_plain: "sep \<notin> set c \<Longrightarrow> splitSep c = [c]"
  by (induction c) auto

lemma cleanParts_plain: "\<forall>c\<in>set cs. plain c \<Longrightarrow> cleanParts r acc cs = rev acc @ cs"
  by (induction cs arbitrary: acc) (auto simp: plain_def)

lemma joinPath_plain: "\<forall>c\<in>set cs. plain c \<Longrightarrow> joinPath p cs = below p cs"
proof -
  assume h: "\<forall>c\<in>set cs. plain c"
  then have "concat (map splitSep cs) = cs"
    by (induction cs) (auto simp: plain_def splitSep_plain)
  then show ?thesis using h by (simp add: joinPath_def below_def cleanParts_plain)
qed

lemma plain_part: "safeComponent c \<Longrightarrow> plain (c @ str ''.part'')"
  by (auto simp: safeComponent_def plain_def sep_def append_eq_Cons_conv Cons_eq_append_conv)

lemma below_parts [simp]: "parts (below p cs) = parts p @ cs"
  by (simp add: below_def)

section \<open>Actions that leave every node alone\<close>

definition readsOnly :: "(os, 'e, 'a) act \<Rightarrow> bool" where
  "readsOnly m \<longleftrightarrow> (\<forall>N. keepsA (\<lambda>s. nodes s = N) m)"

lemma readsOnlyD: "readsOnly m \<Longrightarrow> m s = (r, t) \<Longrightarrow> nodes t = nodes s"
  by (auto simp: readsOnly_def dest: keepsAD)

lemma readsOnly_rules [keeps]:
  "readsOnly (retA x)" "readsOnly (failA e)" "readsOnly (liftA r)" "readsOnly (guardA c e)"
  "readsOnly m \<Longrightarrow> (\<And>x. readsOnly (f x)) \<Longrightarrow> readsOnly (bindA m f)"
  "readsOnly m \<Longrightarrow> readsOnly n \<Longrightarrow> readsOnly (seqA m n)"
  "readsOnly m \<Longrightarrow> readsOnly (errA w m)"
  "readsOnly m \<Longrightarrow> (\<And>x. readsOnly (g x)) \<Longrightarrow> readsOnly (catchA m g)"
  by (auto simp: readsOnly_def intro: keeps)

lemma readsOnly_os [keeps]:
  "readsOnly (Lstat p)" "readsOnly (CloseFile p)" "readsOnly (Sync p)" "readsOnly (OpenFile False p)"
  by (auto simp: readsOnly_def keepsA_def Lstat_def CloseFile_def Sync_def OpenFile_def sysCall_def retA_def
      split: list.splits option.splits node.splits)

lemma readsOnly_rejectSymlink [keeps]: "readsOnly (rejectSymlink p)"
  unfolding rejectSymlink_def by (auto intro!: keeps split: node.splits)

lemma readsOnly_loop [keeps]: "readsOnly (rejectSymlinksLoop p cs)"
  by (induction cs arbitrary: p) (auto simp: Let_def intro!: keeps split: sum.splits)

lemma readsOnly_between [keeps]: "readsOnly (rejectSymlinksBetween p q)"
  unfolding rejectSymlinksBetween_def by (auto intro!: keeps split: option.splits)

lemma readsOnly_syncLoop [keeps]: "readsOnly (syncLoop ss)"
  by (induction ss) (auto simp: syncSpan_def intro!: keeps)

section \<open>Completing\<close>

lemma Rename_effect:
  assumes "Rename a b s = (Inr u, t)"
  shows "nodes t (below b cs) = nodes s (below a cs) \<and>
    (stripPrefix b q = None \<longrightarrow> nodes t q = (if stripPrefix a q = None then nodes s q else None))"
  using assms by (auto simp: Rename_def sysCall_def split: if_splits list.splits option.splits)

lemma Rename_error: "Rename a b s = (Inl e, t) \<Longrightarrow> nodes t = nodes s"
  by (auto simp: Rename_def sysCall_def split: if_splits list.splits option.splits)

lemma Complete_effect:
  assumes "Complete st s = (r, t)"
  shows "(\<forall>st'. r = Inr st' \<longrightarrow> \<not> closed st \<and> st' = st\<lparr>closed := True\<rparr> \<and> getNode (CompletedPath st) s = None \<and>
      (\<forall>cs. nodes t (below (CompletedPath st) cs) = nodes s (below (InProgressPath st) cs)) \<and>
      (\<forall>q. stripPrefix (CompletedPath st) q = None \<and> stripPrefix (InProgressPath st) q = None \<longrightarrow>
         nodes t q = nodes s q)) \<and>
    (\<forall>e. r = Inl e \<longrightarrow> nodes t = nodes s)"
proof (cases "closed st")
  case True
  with assms show ?thesis by (auto simp: Complete_def)
next
  case False
  obtain l s1 where l: "Lstat (CompletedPath st) s = (l, s1)" by fastforce
  have n1: "nodes s1 = nodes s" by (rule readsOnly_os(1) [THEN readsOnlyD, of _ s]) (rule l)
  show ?thesis
  proof (cases "l = Inl ErrNotExist")
    case missing: True
    have node: "getNode (CompletedPath st) s = None"
      using l missing by (auto simp: Lstat_def sysCall_def getNode_def split: list.splits option.splits if_splits)
    obtain r2 s2 where sync: "syncLoop (spans st) s1 = (r2, s2)" by fastforce
    obtain r3 s3 where mv: "Rename (InProgressPath st) (CompletedPath st) s2 = (r3, s3)" by fastforce
    have n2: "nodes s2 = nodes s" using readsOnly_syncLoop [THEN readsOnlyD, of _ s1] sync n1 by metis
    have run: "(r, t) = (case r2 of Inl e \<Rightarrow> (Inl e, s2) | Inr _ \<Rightarrow>
        (case r3 of Inl e \<Rightarrow> (Inl (FinalizeFailed e), s3) | Inr _ \<Rightarrow> (Inr (st\<lparr>closed := True\<rparr>), s3)))"
      using assms False l missing sync mv
      by (auto simp: Complete_def act_defs split: sum.splits)
    show ?thesis
    proof (cases "\<exists>u v. r2 = Inr u \<and> r3 = Inr v")
      case True
      then obtain v where "r = Inr (st\<lparr>closed := True\<rparr>)" "t = s3" "r3 = Inr v" using run by auto
      then show ?thesis using Rename_effect [of _ _ s2 v s3] mv n2 False node by auto
    next
      case False
      then obtain e where "r = Inl e" "nodes t = nodes s"
        using run n2 Rename_error mv by (auto split: sum.splits)
      then show ?thesis by simp
    qed
  next
    case other: False
    then obtain e where "r = Inl e" "t = s1"
      using assms False l by (auto simp: Complete_def act_defs split: sum.splits if_splits)
    then show ?thesis using n1 by simp
  qed
qed

section \<open>Opening\<close>

text \<open>Actions that keep every node that is there, and that give no file a new content.\<close>

definition extendsDirs :: "os \<Rightarrow> os \<Rightarrow> bool" where
  "extendsDirs s t \<longleftrightarrow> (\<forall>q. nodes t q = nodes s q \<or> (nodes s q = None \<and> nodes t q = Some DirN))"

lemma extendsDirs_refl [simp]: "nodes t = nodes s \<Longrightarrow> extendsDirs s t"
  by (simp add: extendsDirs_def)

lemma extendsDirs_trans: "extendsDirs s t \<Longrightarrow> extendsDirs t u \<Longrightarrow> extendsDirs s u"
  unfolding extendsDirs_def by metis

lemma extendsDirs_file: "extendsDirs s t \<Longrightarrow> fileData t p = fileData s p"
  unfolding extendsDirs_def fileData_def by (drule spec [of _ p]) auto

lemma mkdirParts_extends: "mkdirParts r dn cs s = (v, t) \<Longrightarrow> extendsDirs s t"
proof (induction r dn cs s rule: mkdirParts.induct)
  case (2 r dn c cs s)
  show ?case
  proof (cases "getNode (Path r (dn @ [c])) s")
    case None
    then have "extendsDirs s (setNode (Path r (dn @ [c])) DirN s)"
      by (auto simp: extendsDirs_def setNode_def getNode_def)
    with 2 None show ?thesis by (auto simp: Let_def intro: extendsDirs_trans)
  next
    case (Some n)
    with 2 show ?thesis by (auto simp: Let_def split: if_splits)
  qed
qed simp

lemma MkdirAll_extends: "MkdirAll p s = (v, t) \<Longrightarrow> extendsDirs s t"
  unfolding MkdirAll_def sysCall_def
  by (auto split: list.splits option.splits dest!: mkdirParts_extends simp: extendsDirs_def)

text \<open>What opening and sizing one file does, when it succeeds.\<close>

lemma openAndSize_effect:
  assumes "openAndSize p n s = (Inr f, t)" "parts p \<noteq> []"
  shows "f = p \<and> 0 \<le> n \<and> nodes t = (nodes s)(p := Some (FileN (resize (nat n) (fileData s p))))"
  using assms
  by (auto simp: openAndSize_def OpenFile_def Truncate_def CloseFile_def sysCall_def act_defs setNode_def
      getNode_def fileData_def split: list.splits option.splits sum.splits node.splits if_splits prod.splits)

lemma openSizedFile_effect:
  assumes "openSizedFile p n s = (Inr f, t)" "parts p \<noteq> []"
  shows "f = p \<and> 0 \<le> n \<and> nodes t = (nodes s)(p := Some (FileN (resize (nat n) (fileData s p))))"
proof -
  obtain l s1 where l: "Lstat p s = (l, s1)" by fastforce
  have "openAndSize p n s1 = (Inr f, t)"
    using assms l by (auto simp: openSizedFile_def catchA_def failA_def split: sum.splits node.splits if_splits)
  moreover have "nodes s1 = nodes s" by (rule readsOnly_os(1) [THEN readsOnlyD, of _ s]) (rule l)
  ultimately show ?thesis using openAndSize_effect assms(2) by (fastforce simp: fileData_def)
qed

lemma joinInside_Inr: "joinInside root cs = Inr p \<Longrightarrow> p = joinPath root cs"
  by (auto simp: joinInside_def Let_def split: option.splits if_splits)

lemma validateComponents_safe:
  "validateComponents u i cs = Inr x \<Longrightarrow> \<forall>c\<in>set cs. safeComponent c"
  by (induction cs) (auto dest: ValidatePathComponent_safe)

lemma openFileSpan_effect:
  assumes "openFileSpan u root i offset info s = (Inr sp, t)" "0 \<le> offset" "offset \<le> MaxInt64"
  shows "sp = \<lparr>spanPath = below root (filePath info), spanStart = offset, spanEnd = offset + fileLength info\<rparr> \<and>
    0 \<le> fileLength info \<and> offset + fileLength info \<le> MaxInt64 \<and> filePath info \<noteq> [] \<and>
    (\<exists>s1. extendsDirs s s1 \<and> nodes t = (nodes s1)(spanPath sp :=
       Some (FileN (resize (nat (fileLength info)) (fileData s (spanPath sp))))))"
proof -
  let ?p = "joinPath root (filePath info)"
  from assms(1) obtain s1 s2 s3 s4 f where
    len: "\<not> (fileLength info < 0 \<or> filePath info = [])" "\<not> fileLength info > i64 (MaxInt64 - offset)"
    and safe: "\<forall>c\<in>set (filePath info). safeComponent c"
    and chk: "rejectSymlinksBetween root (dirPath ?p) s = (Inr (), s1)"
      "MkdirAll (dirPath ?p) s1 = (Inr (), s2)" "rejectSymlinksBetween root (dirPath ?p) s2 = (Inr (), s3)"
    and opn: "openSizedFile ?p (fileLength info) s3 = (Inr f, s4)" and cls: "CloseFile f s4 = (Inr (), t)"
    and sp: "sp = \<lparr>spanPath = ?p, spanStart = offset, spanEnd = i64 (offset + fileLength info)\<rparr>"
    by (auto simp: openFileSpan_def Let_def dest!: joinInside_Inr validateComponents_safe)
  have p: "?p = below root (filePath info)" using safe safe_plain by (intro joinPath_plain) blast
  then have ne: "parts ?p \<noteq> []" using len by simp
  have "i64 (MaxInt64 - offset) = MaxInt64 - offset" using assms(2,3) by (intro i64_nonneg_id) auto
  then have le: "offset + fileLength info \<le> MaxInt64" using len by simp
  then have "i64 (offset + fileLength info) = offset + fileLength info"
    using len assms(2) by (intro i64_nonneg_id) auto
  moreover have "extendsDirs s s3"
    using readsOnly_between [THEN readsOnlyD, OF chk(1)] MkdirAll_extends [OF chk(2)]
      readsOnly_between [THEN readsOnlyD, OF chk(3)] by (simp add: extendsDirs_def)
  moreover have "nodes t = (nodes s3)(?p := Some (FileN (resize (nat (fileLength info)) (fileData s3 ?p))))"
    using openSizedFile_effect [OF opn ne] readsOnly_os(2) [THEN readsOnlyD, OF cls] by simp
  ultimately show ?thesis using sp p len le extendsDirs_file by auto
qed

text \<open>
  The layout that opening leaves behind: one span per file, in order, below the root, each backed by a
  file that has kept the data it had, cut or filled with zeros to its length.
\<close>

definition laidOut :: "path \<Rightarrow> FileInfo list \<Rightarrow> os \<Rightarrow> os \<Rightarrow> fileSpan list \<Rightarrow> bool" where
  "laidOut root infos s t ss \<longleftrightarrow>
     map spanPath ss = map (\<lambda>f. below root (filePath f)) infos \<and>
     map (\<lambda>sp. spanEnd sp - spanStart sp) ss = map fileLength infos \<and>
     (\<forall>sp\<in>set ss. parts (spanPath sp) \<noteq> [] \<and> nodes t (spanPath sp) =
        Some (FileN (resize (nat (spanEnd sp - spanStart sp)) (fileData s (spanPath sp))))) \<and>
     (\<forall>q. q \<notin> spanPath ` set ss \<longrightarrow> nodes t q = nodes s q \<or> (nodes s q = None \<and> nodes t q = Some DirN))"

lemma openFilesLoop_effect:
  assumes "openFilesLoop u root i offset infos s = (Inr (ss, total'), t)" "0 \<le> offset" "offset \<le> MaxInt64"
    "distinct (map filePath infos)"
  shows "spansFrom offset ss total' \<and> total' \<le> MaxInt64 \<and> total' = offset + totalLength infos \<and>
    laidOut root infos s t ss"
  using assms
proof (induction infos arbitrary: i offset s ss)
  case Nil
  then show ?case by (auto simp: laidOut_def totalLength_def)
next
  case (Cons info infos)
  from Cons.prems(1) obtain sp ss' s1 where
    f: "openFileSpan u root i offset info s = (Inr sp, s1)" and
    r: "openFilesLoop u root (Suc i) (i64 (offset + fileLength info)) infos s1 = (Inr (ss', total'), t)" and
    ss: "ss = sp # ss'" by auto
  from openFileSpan_effect [OF f Cons.prems(2,3)] obtain s0 where
    sp: "sp = \<lparr>spanPath = below root (filePath info), spanStart = offset, spanEnd = offset + fileLength info\<rparr>"
    and len: "0 \<le> fileLength info" "offset + fileLength info \<le> MaxInt64" "filePath info \<noteq> []"
    and s0: "extendsDirs s s0" "nodes s1 = (nodes s0)(spanPath sp :=
       Some (FileN (resize (nat (fileLength info)) (fileData s (spanPath sp)))))" by blast
  have i64: "i64 (offset + fileLength info) = offset + fileLength info"
    using len Cons.prems(2) by (intro i64_nonneg_id) auto
  from Cons.IH [OF r [unfolded i64]] Cons.prems(2,4) len
  have ih: "spansFrom (offset + fileLength info) ss' total'" "total' \<le> MaxInt64"
    "total' = offset + fileLength info + totalLength infos" "laidOut root infos s1 t ss'" by auto
  have paths: "spanPath ` set ss' = (\<lambda>f. below root (filePath f)) ` set infos"
    using ih(4) unfolding laidOut_def by (metis list.set_map)
  then have new: "spanPath sp \<notin> spanPath ` set ss'" using Cons.prems(4) sp by auto
  have data: "fileData s1 q = fileData s q" if "q \<noteq> spanPath sp" for q
    using that s0 extendsDirs_file [OF s0(1)] by (simp add: fileData_def)
  have old: "fileData s1 (spanPath q) = fileData s (spanPath q)" if "q \<in> set ss'" for q
    using that new by (intro data) (metis image_eqI)
  have "nodes t (spanPath sp) = nodes s1 (spanPath sp)"
    using ih(4) new s0(2) by (auto simp: laidOut_def)
  moreover have "nodes t q = nodes s q \<or> (nodes s q = None \<and> nodes t q = Some DirN)"
    if "q \<notin> spanPath ` set ss" for q
  proof -
    have "q \<noteq> spanPath sp" "q \<notin> spanPath ` set ss'" using that ss by auto
    then have "nodes s1 q = nodes s0 q"
      "nodes t q = nodes s1 q \<or> (nodes s1 q = None \<and> nodes t q = Some DirN)"
      using s0(2) ih(4) by (auto simp: laidOut_def)
    then show ?thesis using s0(1) unfolding extendsDirs_def by metis
  qed
  ultimately have "laidOut root (info # infos) s t ss"
    using ih(4) s0(2) sp len(3) old unfolding laidOut_def ss by auto
  then show ?case using ih sp ss len by simp
qed

lemma laidOut_trans:
  assumes "laidOut root infos s1 t ss" "extendsDirs s s1"
  shows "laidOut root infos s t ss"
proof -
  have "nodes t q = nodes s q \<or> (nodes s q = None \<and> nodes t q = Some DirN)"
    if "q \<notin> spanPath ` set ss" for q
    using assms that unfolding laidOut_def extendsDirs_def by metis
  then show ?thesis using assms extendsDirs_file [OF assms(2)] by (auto simp: laidOut_def)
qed

lemma laidOut_wf:
  assumes "laidOut root infos s t ss" "spansFrom 0 ss n" "n \<le> MaxInt64" "distinct (map filePath infos)"
    "\<forall>f\<in>set infos. 0 \<le> fileLength f" "spans st = ss" "storageTotal st = n"
  shows "wfStorage t st"
proof -
  have "map spanPath ss = map (below root) (map filePath infos)"
    using assms(1) by (simp add: laidOut_def)
  moreover have "distinct (map (below root) (map filePath infos))"
    using assms(4) by (simp add: distinct_map inj_on_def)
  ultimately have "distinct (map spanPath ss)" by metis
  moreover have "backed t sp" if "sp \<in> set ss" for sp
  proof -
    have "spanEnd sp - spanStart sp \<in> set (map fileLength infos)"
      using that assms(1) unfolding laidOut_def by (metis (mono_tags, lifting) image_eqI list.set_map)
    then have "0 \<le> spanEnd sp - spanStart sp" using assms(5) by auto
    then show ?thesis using that assms(1) by (auto simp: laidOut_def backed_def)
  qed
  ultimately show ?thesis using assms by (simp add: wfStorage_def)
qed

text \<open>The files of a torrent, the single file of the other form having no path of its own.\<close>

definition torrentFiles :: "TorrentMeta \<Rightarrow> FileInfo list" where
  "torrentFiles meta =
     (if MultiFile meta then Files meta else [\<lparr>fileLength = Length meta, filePath = []\<rparr>])"

lemma pathsApart_distinct: "pathsApart u files \<Longrightarrow> distinct (map filePath files)"
  unfolding pathsApart_def distinct_conv_nth by (auto; metis prefix_order.refl)

lemma torrentFiles_wf:
  "metaWf u meta \<Longrightarrow> distinct (map filePath (torrentFiles meta)) \<and>
     (\<forall>f\<in>set (torrentFiles meta). 0 \<le> fileLength f) \<and> totalLength (torrentFiles meta) = Length meta"
  by (auto simp: torrentFiles_def metaWf_def layoutOk_def fileOk_def totalLength_def pathsApart_distinct)

definition inProgressDir :: "bytes \<Rightarrow> path" where
  "inProgressDir dir = joinPath (parsePath dir) [str ''in-progress'']"

definition completedDir :: "bytes \<Rightarrow> path" where
  "completedDir dir = joinPath (parsePath dir) [str ''completed'']"

lemma NewStorageAt_effect:
  assumes wf: "metaWf u meta" and run: "NewStorageAt u (Some meta) dir s = (Inr st, t)"
  shows "wfStorage t st \<and> \<not> closed st \<and> storageTotal st = Length meta \<and>
    InProgressPath st = below (inProgressDir dir) [Name meta @ str ''.part''] \<and>
    CompletedPath st = below (completedDir dir) [Name meta] \<and>
    laidOut (InProgressPath st) (torrentFiles meta) s t (spans st)"
proof -
  have safe: "safeComponent (Name meta)" using wf by (auto simp: metaWf_def dest: ValidatePathComponent_safe)
  let ?in = "below (inProgressDir dir) [Name meta @ str ''.part'']"
  have join: "joinPath (inProgressDir dir) [Name meta @ str ''.part''] = ?in"
    "joinPath (completedDir dir) [Name meta] = below (completedDir dir) [Name meta]"
    using plain_part [OF safe] safe_plain [OF safe] by (simp_all add: joinPath_plain)
  from run obtain s1 s2 s3 s4 ss where
    mk: "MkdirAll (inProgressDir dir) s = (Inr (), s1)" "MkdirAll (completedDir dir) s1 = (Inr (), s2)"
    and rj: "rejectSymlink (inProgressDir dir) s2 = (Inr (), s3)" "rejectSymlink (completedDir dir) s3 = (Inr (), s4)"
    and layout: "(if MultiFile meta then seqA (errA CreatePartialDirectory (MkdirAll ?in))
          (seqA (rejectSymlink ?in) (openMultiFile u ?in meta))
        else bindA (openSizedFile ?in (Length meta)) (\<lambda>file. seqA (errA StorageOS (CloseFile file))
          (retA [\<lparr>spanPath = ?in, spanStart = 0, spanEnd = Length meta\<rparr>]))) s4 = (Inr ss, t)"
    and st: "st = \<lparr>spans = ss, storageTotal = Length meta, closed = False, InProgressPath = ?in,
      CompletedPath = below (completedDir dir) [Name meta]\<rparr>"
    unfolding NewStorageAt_def Let_def option.case
    unfolding inProgressDir_def [symmetric] completedDir_def [symmetric]
    unfolding join by (auto simp del: str_Cons)
  have s4: "extendsDirs s s4"
    using MkdirAll_extends [OF mk(1)] MkdirAll_extends [OF mk(2)]
      readsOnly_rejectSymlink [THEN readsOnlyD, OF rj(1)] readsOnly_rejectSymlink [THEN readsOnlyD, OF rj(2)]
    by (meson extendsDirs_refl extendsDirs_trans)
  have len: "0 \<le> Length meta" "Length meta \<le> MaxInt64" using wf by (auto simp: metaWf_def layoutOk_def)
  have "spansFrom 0 ss (Length meta) \<and> laidOut ?in (torrentFiles meta) s t ss"
  proof (cases "MultiFile meta")
    case True
    with layout obtain s5 s6 where
      md: "MkdirAll ?in s4 = (Inr (), s5)" "rejectSymlink ?in s5 = (Inr (), s6)"
      and loop: "openFilesLoop u ?in 0 0 (Files meta) s6 = (Inr (ss, Length meta), t)"
      by (auto simp: openMultiFile_def)
    have "extendsDirs s s6"
      using s4 MkdirAll_extends [OF md(1)] readsOnly_rejectSymlink [THEN readsOnlyD, OF md(2)]
      by (meson extendsDirs_refl extendsDirs_trans)
    moreover have "distinct (map filePath (Files meta))" "torrentFiles meta = Files meta"
      using torrentFiles_wf [OF wf] True by (simp_all add: torrentFiles_def)
    ultimately show ?thesis
      using openFilesLoop_effect [OF loop] laidOut_trans [of ?in "Files meta" s6 t ss s]
      by (auto simp: MaxInt64_def)
  next
    case False
    with layout obtain s5 f where op: "openSizedFile ?in (Length meta) s4 = (Inr f, s5)"
      and cl: "CloseFile f s5 = (Inr (), t)" and ss: "ss = [\<lparr>spanPath = ?in, spanStart = 0, spanEnd = Length meta\<rparr>]"
      by auto
    have "parts ?in \<noteq> []" by simp
    from openSizedFile_effect [OF op this] readsOnly_os(2) [THEN readsOnlyD, OF cl]
    have "laidOut ?in (torrentFiles meta) s4 t ss"
      using False by (simp add: laidOut_def ss torrentFiles_def below_def)
    then show ?thesis using laidOut_trans [OF _ s4] ss len by simp
  qed
  then show ?thesis using st laidOut_wf [OF _ _ len(2)] torrentFiles_wf [OF wf]
    by (auto simp: inProgressDir_def completedDir_def)
qed

section \<open>Properties\<close>

text \<open>
  C14. Opening the storage of well-formed metadata, when it succeeds, establishes the storage invariant
  with the torrent's length, one file per torrent file in order, all strictly inside the in-progress tree
  of this torrent. A file keeps the data of an earlier run, cut or zero-filled to its length, and nothing
  else on the disk changes except that directories are made.
\<close>

theorem NewStorageAt_opens:
  assumes "metaWf u meta" "NewStorageAt u (Some meta) dir s = (Inr st, t)"
  shows "wfStorage t st \<and> \<not> closed st \<and> storageTotal st = Length meta \<and>
    InProgressPath st = below (inProgressDir dir) [Name meta @ str ''.part''] \<and>
    CompletedPath st = below (completedDir dir) [Name meta] \<and>
    laidOut (InProgressPath st) (torrentFiles meta) s t (spans st)"
  using assms by (rule NewStorageAt_effect)

definition plainUnicode :: unicode where
  "plainUnicode = \<lparr>uniLower = id, uniUpper = id\<rparr>"

definition sampleMeta :: TorrentMeta where
  "sampleMeta =
     \<lparr>Announce = str ''u'', AnnounceList = [], Name = str ''n'', Length = 5, PieceLength = 4,
      Pieces = [replicate 20 1, replicate 20 2], InfoHash = replicate 20 3,
      Files = [\<lparr>fileLength = 2, filePath = [str ''a'']\<rparr>, \<lparr>fileLength = 3, filePath = [str ''d'', str ''b'']\<rparr>],
      MultiFile = True\<rparr>"

definition emptyDisk :: os where
  "emptyDisk = \<lparr>nodes = \<lambda>_. None, faults = []\<rparr>"

lemma sampleMeta_wf: "metaWf plainUnicode sampleMeta"
proof -
  have "TrackerURLs sampleMeta \<noteq> []" by (simp add: TrackerURLs_def sampleMeta_def addURL_def)
  moreover have "ValidatePathComponent plainUnicode (Name sampleMeta) = Inr ()"
    "list_all (\<lambda>f. list_all (\<lambda>c. ValidatePathComponent plainUnicode c = Inr ()) (filePath f)) (Files sampleMeta)"
    "map (\<lambda>f. map (ToLower plainUnicode) (filePath f)) (Files sampleMeta) = [[str ''a''], [str ''d'', str ''b'']]"
    by (simp_all add: sampleMeta_def plainUnicode_def meta_eval decodeAll.simps)
  ultimately show ?thesis
    by (auto simp: metaWf_def layoutOk_def fileOk_def pathsApart_def sampleMeta_def totalLength_def
        MaxPieceLength_def MaxInt64_def sha1Size_def less_Suc_eq)
qed

theorem NewStorageAt_opens_witness:
  "\<exists>st t. NewStorageAt plainUnicode (Some sampleMeta) (str ''/d'') emptyDisk = (Inr st, t) \<and>
     wfStorage t st \<and> length (spans st) = 2"
proof -
  have "\<exists>st t. NewStorageAt plainUnicode (Some sampleMeta) (str ''/d'') emptyDisk = (Inr st, t)"
    by (simp add: NewStorageAt_def openMultiFile_def openFileSpan_def rejectSymlink_def rejectSymlinksBetween_def
        joinInside_def openSizedFile_def openAndSize_def Lstat_def MkdirAll_def OpenFile_def Truncate_def
        CloseFile_def sysCall_def getNode_def setNode_def isDirAt_def dirPath_def joinPath_def parsePath_def
        relPath_def escapes_def below_def sep_def fileData_def resize_def emptyDisk_def sampleMeta_def
        plainUnicode_def meta_eval decodeAll.simps act_eval
        cong: act_cong)
  then obtain st t where run: "NewStorageAt plainUnicode (Some sampleMeta) (str ''/d'') emptyDisk = (Inr st, t)"
    by blast
  from NewStorageAt_opens [OF sampleMeta_wf run]
  have "wfStorage t st" "map spanPath (spans st) =
      map (\<lambda>f. below (InProgressPath st) (filePath f)) (torrentFiles sampleMeta)"
    by (simp_all add: laidOut_def)
  moreover from arg_cong [OF this(2), of length] have "length (spans st) = 2"
    by (simp add: torrentFiles_def sampleMeta_def)
  ultimately show ?thesis using run by blast
qed

text \<open>
  C12. \<open>Complete\<close> succeeds only on an open storage whose destination does not exist. Then the in-progress
  tree stands, node for node, at the completed path, nothing outside the two trees has changed and the
  storage is closed. When it fails, no node of the file system has changed.
\<close>

theorem Complete_moves:
  assumes "Complete st s = (r, t)"
  shows "(\<forall>st'. r = Inr st' \<longrightarrow> \<not> closed st \<and> st' = st\<lparr>closed := True\<rparr> \<and> getNode (CompletedPath st) s = None \<and>
      (\<forall>cs. nodes t (below (CompletedPath st) cs) = nodes s (below (InProgressPath st) cs)) \<and>
      (\<forall>q. stripPrefix (CompletedPath st) q = None \<and> stripPrefix (InProgressPath st) q = None \<longrightarrow>
         nodes t q = nodes s q)) \<and>
    (\<forall>e. r = Inl e \<longrightarrow> nodes t = nodes s)"
  using assms by (rule Complete_effect)

theorem Complete_moves_witness:
  "\<exists>st s r t. Complete st s = (r, t) \<and> r = Inr (st\<lparr>closed := True\<rparr>) \<and>
     nodes t (below (CompletedPath st) []) = Some (FileN [1, 2])"
proof -
  let ?p = "Path False [[97]]" and ?q = "Path False [[98]]"
  let ?st = "\<lparr>spans = [\<lparr>spanPath = ?p, spanStart = 0, spanEnd = 2\<rparr>], storageTotal = 2, closed = False,
    InProgressPath = ?p, CompletedPath = ?q\<rparr>"
  let ?s = "\<lparr>nodes = [?p \<mapsto> FileN [1, 2]], faults = []\<rparr>"
  obtain r t where run: "Complete ?st ?s = (r, t)" by fastforce
  have "fst (Complete ?st ?s) = Inr (?st\<lparr>closed := True\<rparr>)"
    by (simp add: Complete_def act_defs Lstat_def sysCall_def getNode_def syncSpan_def OpenFile_def Sync_def
        CloseFile_def Rename_def isDirAt_def dirPath_def stripPrefix_def)
  then have "r = Inr (?st\<lparr>closed := True\<rparr>)" using run by simp
  moreover from this Complete_moves [OF run]
  have "nodes t (below (CompletedPath ?st) []) = nodes ?s (below (InProgressPath ?st) [])" by blast
  ultimately show ?thesis using run by (intro exI [of _ ?st] exI [of _ ?s]) (simp add: below_def)
qed

end
