(* ===== verification/PiecesSpec.thy ===== *)
theory PiecesSpec
  imports Pieces FileStoreOpen
begin

text \<open>
  What the piece manager promises: the pieces tile the torrent; a piece is complete only while the
  storage holds data with its hash, whatever fails; a reservation hands out the first missing piece of a
  peer and an attempt to complete it either publishes it or releases it; a finished torrent is on the
  disk, hash by hash. The facts about the storage come from the interpretation \<open>store\<close>.
\<close>

section \<open>Layout\<close>

text \<open>What no operation changes.\<close>

definition layout :: "PieceManager \<Rightarrow> Piece list \<times> Storage \<times> int" where
  "layout pm = (map Piece.truncate (pieces pm), storage pm, standardPieceLength pm)"

definition numPieces :: "PieceManager \<Rightarrow> nat" where
  "numPieces pm = length (pieces pm)"

definition geometry :: "PieceManager \<Rightarrow> bool" where
  "geometry pm \<longleftrightarrow> 0 < standardPieceLength pm \<and> standardPieceLength pm \<le> MaxPieceLength \<and>
     int (numPieces pm) = (storageTotal (storage pm) + standardPieceLength pm - 1) div standardPieceLength pm \<and>
     (\<forall>i<numPieces pm. Index (pieces pm ! i) = int i \<and>
        pieceLen (pieces pm ! i) =
          min (standardPieceLength pm) (storageTotal (storage pm) - int i * standardPieceLength pm))"

definition pieceOff :: "PieceManager \<Rightarrow> nat \<Rightarrow> int" where
  "pieceOff pm i = int i * standardPieceLength pm"

definition pieceData :: "world \<Rightarrow> nat \<Rightarrow> bytes" where
  "pieceData w i = sliceOf (storeBytes (disk w) (storage (mgr w))) (nat (pieceOff (mgr w) i))
     (nat (pieceOff (mgr w) i) + nat (pieceLen (pieces (mgr w) ! i)))"

lemma truncate_eq:
  "Piece.truncate p = Piece.truncate q \<longleftrightarrow> Index p = Index q \<and> Hash p = Hash q \<and> pieceLen p = pieceLen q"
  by (auto simp: Piece.defs)

lemma layout_eq:
  assumes "layout pm = layout pm'"
  shows "storage pm = storage pm'" "standardPieceLength pm = standardPieceLength pm'"
    "numPieces pm = numPieces pm'" "length (pieces pm) = length (pieces pm')" "validIndex pm = validIndex pm'"
    "pieceOff pm = pieceOff pm'"
    "i < numPieces pm \<Longrightarrow> Index (pieces pm ! i) = Index (pieces pm' ! i) \<and>
       Hash (pieces pm ! i) = Hash (pieces pm' ! i) \<and> pieceLen (pieces pm ! i) = pieceLen (pieces pm' ! i)"
proof -
  from assms show s: "storage pm = storage pm'" "standardPieceLength pm = standardPieceLength pm'"
    by (simp_all add: layout_def)
  have m: "map Piece.truncate (pieces pm) = map Piece.truncate (pieces pm')"
    using assms by (simp add: layout_def)
  then show l: "length (pieces pm) = length (pieces pm')" by (metis length_map)
  then show n: "numPieces pm = numPieces pm'" by (simp add: numPieces_def)
  show "validIndex pm = validIndex pm'" using l by (auto simp: validIndex_def)
  show "pieceOff pm = pieceOff pm'" using s by (auto simp: pieceOff_def)
  show "i < numPieces pm \<Longrightarrow> Index (pieces pm ! i) = Index (pieces pm' ! i) \<and>
       Hash (pieces pm ! i) = Hash (pieces pm' ! i) \<and> pieceLen (pieces pm ! i) = pieceLen (pieces pm' ! i)"
    using arg_cong [OF m, of "\<lambda>xs. xs ! i"] l by (simp add: numPieces_def truncate_eq)
qed

lemma geometry_layout: "layout pm = layout pm' \<Longrightarrow> geometry pm = geometry pm'"
  using layout_eq [of pm pm'] by (auto simp: geometry_def)

lemma pieceData_layout:
  "layout (mgr w) = layout (mgr w') \<Longrightarrow> i < numPieces (mgr w) \<Longrightarrow>
     storeBytes (disk w) (storage (mgr w)) = storeBytes (disk w') (storage (mgr w)) \<Longrightarrow>
     pieceData w i = pieceData w' i"
  using layout_eq [of "mgr w" "mgr w'"] by (simp add: pieceData_def)

lemma setPieceState_layout [simp]: "layout (setPieceState i st pm) = layout pm"
proof -
  have "map Piece.truncate ((pieces pm)[i := (pieces pm ! i)\<lparr>pstate := st\<rparr>]) = map Piece.truncate (pieces pm)"
    by (cases "i < length (pieces pm)")
      (auto simp: map_update Piece.defs list_update_same_conv list_update_beyond)
  then show ?thesis by (simp add: layout_def setPieceState_def)
qed

lemma notifyLocked_layout [simp]: "layout (notifyLocked pm) = layout pm"
  by (simp add: layout_def notifyLocked_def)

lemma notifyLocked_state [simp]: "stateAt (notifyLocked pm) i = stateAt pm i"
  by (simp add: stateAt_def notifyLocked_def)

lemma setPieceState_state:
  "i < numPieces pm \<Longrightarrow> stateAt (setPieceState i st pm) j = (if j = i then st else stateAt pm j)"
  by (simp add: stateAt_def setPieceState_def numPieces_def nth_list_update)

section \<open>The tiling\<close>

lemma ceil_cover:
  fixes len pl :: int
  assumes "0 < pl"
  shows "i < (len + pl - 1) div pl \<longleftrightarrow> i * pl < len"
proof -
  define q r where "q = (len + pl - 1) div pl" and "r = (len + pl - 1) mod pl"
  have len: "len + pl - 1 = q * pl + r" "0 \<le> r" "r < pl" using assms by (simp_all add: q_def r_def)
  have "i * pl < len" if "i < q"
  proof -
    have "(i + 1) * pl \<le> q * pl" using that assms by (intro mult_right_mono) simp_all
    then show ?thesis using len by (simp add: algebra_simps)
  qed
  moreover have "len \<le> i * pl" if "q \<le> i"
  proof -
    have "q * pl \<le> i * pl" using that assms by (intro mult_right_mono) simp_all
    then show ?thesis using len by linarith
  qed
  ultimately show ?thesis unfolding q_def by (meson not_le)
qed

lemma piece_range:
  assumes "geometry pm" "i < numPieces pm"
  shows "0 \<le> pieceOff pm i" "0 < pieceLen (pieces pm ! i)"
    "pieceOff pm i + pieceLen (pieces pm ! i) \<le> storageTotal (storage pm)"
    "pieceLen (pieces pm ! i) \<le> standardPieceLength pm"
    "pieceOff pm i < storageTotal (storage pm)"
proof -
  have pl: "0 < standardPieceLength pm" using assms(1) by (simp add: geometry_def)
  have "int i < (storageTotal (storage pm) + standardPieceLength pm - 1) div standardPieceLength pm"
    using assms by (simp add: geometry_def)
  then have lt: "int i * standardPieceLength pm < storageTotal (storage pm)" using ceil_cover [OF pl] by blast
  have len: "pieceLen (pieces pm ! i) =
      min (standardPieceLength pm) (storageTotal (storage pm) - int i * standardPieceLength pm)"
    using assms by (simp add: geometry_def)
  show "0 \<le> pieceOff pm i" using pl by (simp add: pieceOff_def)
  show "0 < pieceLen (pieces pm ! i)" using len pl lt by simp
  show "pieceOff pm i + pieceLen (pieces pm ! i) \<le> storageTotal (storage pm)" using len by (simp add: pieceOff_def)
  show "pieceLen (pieces pm ! i) \<le> standardPieceLength pm" using len by simp
  show "pieceOff pm i < storageTotal (storage pm)" using lt by (simp add: pieceOff_def)
qed

lemma piece_apart:
  assumes "geometry pm" "i < numPieces pm" "j < numPieces pm" "i \<noteq> j"
  shows "pieceOff pm i + pieceLen (pieces pm ! i) \<le> pieceOff pm j \<or>
    pieceOff pm j + pieceLen (pieces pm ! j) \<le> pieceOff pm i"
proof -
  have pl: "0 < standardPieceLength pm" using assms(1) by (simp add: geometry_def)
  have step: "pieceOff pm a + pieceLen (pieces pm ! a) \<le> pieceOff pm b" if "a < b" "a < numPieces pm" for a b
  proof -
    have "pieceOff pm a + pieceLen (pieces pm ! a) \<le> int (Suc a) * standardPieceLength pm"
      using piece_range(4) [OF assms(1) that(2)] by (simp add: pieceOff_def algebra_simps)
    also have "\<dots> \<le> int b * standardPieceLength pm" using that(1) pl by (intro mult_right_mono) simp_all
    finally show ?thesis by (simp add: pieceOff_def)
  qed
  from assms(4) show ?thesis using step assms(2,3) by (cases "i < j") auto
qed

lemma newPiece_geometry:
  assumes wf: "metaWf u meta" and st: "storageTotal st = Length meta"
  shows "geometry (NewPieceManager meta st)"
proof -
  let ?pl = "PieceLength meta" and ?n = "length (Pieces meta)"
  from wf have pl: "0 < ?pl" "?pl \<le> MaxPieceLength" and len: "0 \<le> Length meta" "Length meta \<le> MaxInt64"
    and n: "int ?n = (Length meta + ?pl - 1) div ?pl" by (auto simp: metaWf_def layoutOk_def)
  have "pieceLen (newPiece meta i) = min ?pl (Length meta - int i * ?pl)" if i: "i < ?n" for i
  proof -
    have lt: "int i * ?pl < Length meta" using i n ceil_cover [OF pl(1), of "int i" "Length meta"] by simp
    have "0 \<le> int i * ?pl" using pl by simp
    then have i64: "i64 (int i * ?pl) = int i * ?pl" "i64 (Length meta - int i * ?pl) = Length meta - int i * ?pl"
      using lt len by (intro i64_nonneg_id; linarith)+
    show ?thesis
    proof (cases "i = ?n - 1")
      case True
      then have "\<not> int (i + 1) < int ?n" using i by simp
      then have "Length meta \<le> int (i + 1) * ?pl" using n ceil_cover [OF pl(1), of "int (i + 1)" "Length meta"] by simp
      then show ?thesis using True i64 by (simp add: newPiece_def algebra_simps)
    next
      case False
      then have "int (i + 1) < int ?n" using i by simp
      then have "int (i + 1) * ?pl < Length meta" using n ceil_cover [OF pl(1), of "int (i + 1)" "Length meta"] by simp
      then show ?thesis using False by (simp add: newPiece_def algebra_simps)
    qed
  qed
  then show ?thesis using pl n st
    by (auto simp: geometry_def NewPieceManager_def numPieces_def newPiece_def)
qed

section \<open>The invariant\<close>

definition managerInv :: "world \<Rightarrow> bool" where
  "managerInv w \<longleftrightarrow> geometry (mgr w) \<and> wfStorage (disk w) (storage (mgr w)) \<and>
     (\<forall>i<numPieces (mgr w). stateAt (mgr w) i = PieceComplete \<longrightarrow>
        sha1 (pieceData w i) = Hash (pieces (mgr w) ! i))"

text \<open>Everything but the state of piece \<open>i\<close> and its bytes is as before.\<close>

definition onlyPiece :: "nat \<Rightarrow> world \<Rightarrow> world \<Rightarrow> bool" where
  "onlyPiece i w w' \<longleftrightarrow> layout (mgr w') = layout (mgr w) \<and> wfStorage (disk w') (storage (mgr w)) \<and>
     (\<forall>j<numPieces (mgr w). j \<noteq> i \<longrightarrow> stateAt (mgr w') j = stateAt (mgr w) j \<and> pieceData w' j = pieceData w j)"

lemma onlyPiece_trans: "onlyPiece i u v \<Longrightarrow> onlyPiece i v w \<Longrightarrow> onlyPiece i u w"
  unfolding onlyPiece_def using layout_eq(1,3) by metis

lemma managerInv_onlyPiece:
  assumes "managerInv w" "onlyPiece i w w'"
    "stateAt (mgr w') i = PieceComplete \<Longrightarrow> i < numPieces (mgr w) \<Longrightarrow> sha1 (pieceData w' i) = Hash (pieces (mgr w) ! i)"
  shows "managerInv w'"
proof -
  note lay = layout_eq [of "mgr w'" "mgr w"]
  have eq: "layout (mgr w') = layout (mgr w)" using assms(2) by (simp add: onlyPiece_def)
  have "sha1 (pieceData w' j) = Hash (pieces (mgr w') ! j)"
    if j: "j < numPieces (mgr w')" "stateAt (mgr w') j = PieceComplete" for j
  proof (cases "j = i")
    case True
    with j assms(3) lay(3,7) eq show ?thesis by simp
  next
    case False
    with j assms(1,2) lay(3,7) eq show ?thesis by (simp add: onlyPiece_def managerInv_def)
  qed
  then show ?thesis using assms(1,2) geometry_layout [OF eq] lay(1) eq
    by (simp add: managerInv_def onlyPiece_def)
qed

lemma onlyPiece_mgr:
  assumes "wfStorage (disk w) (storage (mgr w))" "layout pm = layout (mgr w)"
    "\<And>j. j < numPieces (mgr w) \<Longrightarrow> j \<noteq> i \<Longrightarrow> stateAt pm j = stateAt (mgr w) j"
  shows "onlyPiece i w (w\<lparr>mgr := pm\<rparr>)"
proof -
  have "pieceData (w\<lparr>mgr := pm\<rparr>) j = pieceData w j" if "j < numPieces (mgr w)" for j
    using that assms(2) layout_eq(1,3) [OF assms(2)] by (intro pieceData_layout) auto
  then show ?thesis using assms by (simp add: onlyPiece_def)
qed

lemma validIndex_nat: "validIndex pm index \<Longrightarrow> nat index < numPieces pm \<and> int (nat index) = index"
  by (auto simp: validIndex_def numPieces_def)

section \<open>Writing a piece\<close>

lemma geometry_isInt64:
  assumes "geometry pm" "wfStorage s (storage pm)" "i < numPieces pm"
  shows "isInt64 (int i)" "isInt64 (standardPieceLength pm)" "int i * standardPieceLength pm \<le> MaxInt64"
proof -
  have off: "0 \<le> pieceOff pm i" "pieceOff pm i < storageTotal (storage pm)" using piece_range [OF assms(1,3)] by auto
  have max: "storageTotal (storage pm) \<le> MaxInt64" using assms(2) by (simp add: wfStorage_def)
  have pl: "0 < standardPieceLength pm" "standardPieceLength pm \<le> MaxPieceLength"
    using assms(1) by (auto simp: geometry_def)
  show "isInt64 (standardPieceLength pm)" using pl
    by (simp add: isInt64_def MinInt64_def MaxInt64_def MaxPieceLength_def)
  show "int i * standardPieceLength pm \<le> MaxInt64" using off max by (simp add: pieceOff_def)
  have "int i \<le> int i * standardPieceLength pm" using pl by (simp add: mult_le_cancel_left1)
  then show "isInt64 (int i)" using off max by (simp add: isInt64_def MinInt64_def pieceOff_def)
qed

lemma write_piece:
  assumes inv: "managerInv w" and i: "i < numPieces (mgr w)"
    and len: "int (length d) = pieceLen (pieces (mgr w) ! i)"
    and run: "WritePiece (storage (mgr w)) (int i) (standardPieceLength (mgr w)) d (disk w) = (r, dk)"
  shows "onlyPiece i w (w\<lparr>disk := dk\<rparr>) \<and> (r = Inr () \<longrightarrow> pieceData (w\<lparr>disk := dk\<rparr>) i = d) \<and>
    (faults (disk w) = [] \<and> \<not> closed (storage (mgr w)) \<longrightarrow> r = Inr ())"
proof -
  let ?pm = "mgr w" and ?st = "storage (mgr w)"
  let ?off = "pieceOff ?pm i"
  have g: "geometry ?pm" and wf: "wfStorage (disk w) ?st" using inv by (auto simp: managerInv_def)
  note range = piece_range [OF g i]
  have wr: "WriteAt ?st d ?off (disk w) = (r, dk)"
    using run WritePiece_cases [OF geometry_isInt64(1,2) [OF g wf i]] geometry_isInt64(3) [OF g wf i] g
    by (simp add: pieceOff_def geometry_def)
  have other: "pieceData (w\<lparr>disk := dk\<rparr>) j = pieceData w j" if j: "j < numPieces ?pm" "j \<noteq> i" for j
  proof -
    let ?a = "nat (pieceOff ?pm j)" and ?b = "nat (pieceOff ?pm j) + nat (pieceLen (pieces ?pm ! j))"
    have "?b \<le> length (storeBytes (disk w) ?st)"
      using piece_range [OF g j(1)] length_storeBytes [OF wf] by linarith
    moreover have "int ?b \<le> ?off \<or> ?off + int (length d) \<le> int ?a"
      using piece_apart [OF g i j(1)] j(2) piece_range [OF g j(1)] len by auto
    ultimately show ?thesis
      using store.wr_slice_frame [OF wf wr] by (simp add: pieceData_def)
  qed
  have "nat (pieceLen (pieces ?pm ! i)) = length d" using len by simp
  then have "r = Inr () \<longrightarrow> pieceData (w\<lparr>disk := dk\<rparr>) i = d"
    using store.wr_slice [OF wf, of d ?off "()" dk] wr by (auto simp: pieceData_def)
  moreover have "inRange ?st ?off (length d)" if "\<not> closed ?st" using that range len by (simp add: inRange_def)
  ultimately show ?thesis
    using WriteAt_effect [OF wf wr] other store.wr_inv [OF wf wr] by (auto simp: onlyPiece_def)
qed

section \<open>Completing a piece\<close>

lemma onlyPiece_set:
  assumes "managerInv w" "i < numPieces (mgr w)"
  shows "onlyPiece i w (w\<lparr>mgr := setPieceState i st (mgr w)\<rparr>)"
    "onlyPiece i w (w\<lparr>mgr := notifyLocked (setPieceState i st (mgr w))\<rparr>)"
  using assms by (auto intro!: onlyPiece_mgr simp: setPieceState_state managerInv_def)

lemma reset_eq:
  assumes "i < numPieces pm" "stateAt pm i \<noteq> PieceComplete"
  shows "resetAfterFailure (int i) pm = notifyLocked (setPieceState i PieceMissing pm)"
  using assms by (simp add: resetAfterFailure_def validIndex_def numPieces_def)

text \<open>What one attempt to complete piece \<open>i\<close> with \<open>d\<close> may do to the world.\<close>

definition attempted :: "nat \<Rightarrow> bytes \<Rightarrow> world \<Rightarrow> managerError + unit \<Rightarrow> world \<Rightarrow> bool" where
  "attempted i d w r w' \<longleftrightarrow> managerInv w' \<and> onlyPiece i w w' \<and>
     (r = Inr () \<longrightarrow> int (length d) = pieceLen (pieces (mgr w) ! i) \<and> sha1 d = Hash (pieces (mgr w) ! i) \<and>
        stateAt (mgr w') i = PieceComplete \<and> pieceData w' i = d) \<and>
     (r \<noteq> Inr () \<longrightarrow> stateAt (mgr w') i = PieceMissing)"

lemma failPiece_attempted:
  assumes inv: "managerInv w" and i: "i < numPieces (mgr w)" and ver: "stateAt (mgr w) i = PieceVerifying"
    and run: "failPiece (int i) e w = (r, w')"
  shows "attempted i d w r w' \<and> r = Inl e"
proof -
  have w': "w' = w\<lparr>mgr := notifyLocked (setPieceState i PieceMissing (mgr w))\<rparr>" "r = Inl e"
    using run reset_eq [OF i] ver by (auto simp: failPiece_def act_eval onMgr_def)
  then have only: "onlyPiece i w w'" using onlyPiece_set [OF inv i] by simp
  have st: "stateAt (mgr w') i = PieceMissing" using w' setPieceState_state [OF i] by simp
  have "managerInv w'" by (rule managerInv_onlyPiece [OF inv only]) (simp add: st)
  then show ?thesis using w'(2) only st by (simp add: attempted_def)
qed

lemma onlyPiece_attempted:
  assumes "onlyPiece i w w1" "stateAt (mgr w1) i \<noteq> PieceComplete" "managerInv w" "attempted i d w1 r w'" "i < numPieces (mgr w)"
  shows "attempted i d w r w'"
proof -
  have lay: "layout (mgr w1) = layout (mgr w)" using assms(1) by (simp add: onlyPiece_def)
  show ?thesis
    using assms(4,5) onlyPiece_trans [OF assms(1), of w'] layout_eq(7) [OF lay] layout_eq(3) [OF lay]
    by (simp add: attempted_def)
qed

lemma finishComplete_attempted:
  assumes inv: "managerInv w" and i: "i < numPieces (mgr w)" and ver: "stateAt (mgr w) i = PieceVerifying"
    and run: "finishComplete (int i) d (pieceLen (pieces (mgr w) ! i), Hash (pieces (mgr w) ! i)) w = (r, w')"
  shows "attempted i d w r w' \<and>
    (faults (disk w) = [] \<and> \<not> closed (storage (mgr w)) \<and> int (length d) = pieceLen (pieces (mgr w) ! i) \<and>
       sha1 d = Hash (pieces (mgr w) ! i) \<longrightarrow> r = Inr ())"
proof (cases "int (length d) = pieceLen (pieces (mgr w) ! i) \<and> sha1 d = Hash (pieces (mgr w) ! i)")
  case False
  then obtain e where "failPiece (int i) e w = (r, w')"
    using run by (auto simp: finishComplete_def split: if_splits)
  from failPiece_attempted [OF inv i ver this] False show ?thesis by auto
next
  case True
  obtain q dk where wr: "WritePiece (storage (mgr w)) (int i) (standardPieceLength (mgr w)) d (disk w) = (q, dk)"
    by fastforce
  let ?w = "w\<lparr>disk := dk\<rparr>"
  from write_piece [OF inv i _ wr] True have only: "onlyPiece i w ?w"
    and data: "q = Inr () \<longrightarrow> pieceData ?w i = d"
    and ok: "faults (disk w) = [] \<and> \<not> closed (storage (mgr w)) \<longrightarrow> q = Inr ()" by auto
  have inv': "managerInv ?w" by (rule managerInv_onlyPiece [OF inv only]) (simp add: ver)
  have next_step: "(case q of Inl e \<Rightarrow> failPiece (int i) (StorageFailed e) | Inr _ \<Rightarrow> publish (int i)) ?w = (r, w')"
    using run True wr by (auto simp: finishComplete_def act_eval onDisk_def split: sum.splits)
  show ?thesis
  proof (cases q)
    case (Inl e)
    with next_step have "failPiece (int i) (StorageFailed e) ?w = (r, w')" by simp
    from failPiece_attempted [OF inv' _ _ this] i ver
    have "attempted i d ?w r w'" "r = Inl (StorageFailed e)" by auto
    then show ?thesis using onlyPiece_attempted [OF only _ inv _ i] ver ok Inl by auto
  next
    case (Inr u)
    with next_step have w': "w' = ?w\<lparr>mgr := notifyLocked (setPieceState i PieceComplete (mgr w))\<rparr>" "r = Inr ()"
      by (auto simp: publish_def onMgr_def)
    have "onlyPiece i ?w w'" using onlyPiece_set(2) [OF inv', of i PieceComplete] i w' by simp
    then have only': "onlyPiece i w w'" using only onlyPiece_trans by blast
    have "pieceData w' i = pieceData ?w i"
      by (rule pieceData_layout) (simp_all add: w' layout_eq(1) [OF setPieceState_layout] i
          layout_eq(1) [OF notifyLocked_layout] layout_eq(3) [OF setPieceState_layout] layout_eq(3) [OF notifyLocked_layout])
    then have pd: "pieceData w' i = d" using data Inr by simp
    then have "managerInv w'" using True by (intro managerInv_onlyPiece [OF inv only']) simp
    then show ?thesis using only' pd w'(2) True setPieceState_state [OF i] by (simp add: attempted_def w'(1))
  qed
qed

lemma CompletePiece_refused:
  assumes "CompletePiece index d w = (r, w')"
    "\<not> (validIndex (mgr w) index \<and> stateAt (mgr w) (nat index) = PieceDownloading)"
  shows "w' = w \<and> r \<noteq> Inr ()"
  using assms by (auto simp: CompletePiece_def act_eval beginComplete_def Let_def stateAt_def split: if_splits)

lemma CompletePiece_attempted:
  assumes inv: "managerInv w" and i: "i < numPieces (mgr w)" and res: "stateAt (mgr w) i = PieceDownloading"
    and run: "CompletePiece (int i) d w = (r, w')"
  shows "attempted i d w r w' \<and>
    (faults (disk w) = [] \<and> \<not> closed (storage (mgr w)) \<and> int (length d) = pieceLen (pieces (mgr w) ! i) \<and>
       sha1 d = Hash (pieces (mgr w) ! i) \<longrightarrow> r = Inr ())"
proof -
  let ?w = "w\<lparr>mgr := setPieceState i PieceVerifying (mgr w)\<rparr>"
  have "beginComplete (int i) w = (Inr (pieceLen (pieces (mgr w) ! i), Hash (pieces (mgr w) ! i)), ?w)"
    using i res by (simp add: beginComplete_def validIndex_def numPieces_def stateAt_def Let_def)
  moreover note lay = layout_eq [OF setPieceState_layout [of i PieceVerifying "mgr w"]]
  ultimately have run': "finishComplete (int i) d (pieceLen (pieces (mgr ?w) ! i), Hash (pieces (mgr ?w) ! i)) ?w = (r, w')"
    using run lay(7) [of i] lay(3) i by (simp add: CompletePiece_def act_eval)
  have only: "onlyPiece i w ?w" by (rule onlyPiece_set [OF inv i])
  have ver: "stateAt (mgr ?w) i = PieceVerifying" using i by (simp add: setPieceState_state)
  have inv': "managerInv ?w" by (rule managerInv_onlyPiece [OF inv only]) (simp add: setPieceState_state i)
  have i': "i < numPieces (mgr ?w)" using i lay(3) by simp
  from finishComplete_attempted [OF inv' i' ver run']
  show ?thesis using onlyPiece_attempted [OF only _ inv _ i] ver lay(1,7) i' by auto
qed

section \<open>Reserving and releasing\<close>

text \<open>A piece that a peer with this bitfield could send and nobody is working on.\<close>

definition available :: "bool list \<Rightarrow> managedPiece \<Rightarrow> bool" where
  "available bitfield p \<longleftrightarrow> pstate p = PieceMissing \<and> Index p < int (length bitfield) \<and> bitfield ! nat (Index p)"

lemma nextPieceLoop_cases:
  "(nextPieceLoop bf ps = (None, ps) \<and> (\<forall>p\<in>set ps. \<not> available bf p)) \<or>
   (\<exists>k<length ps. available bf (ps ! k) \<and> (\<forall>j<k. \<not> available bf (ps ! j)) \<and>
      nextPieceLoop bf ps = (Some (Piece.truncate (ps ! k)), ps[k := (ps ! k)\<lparr>pstate := PieceDownloading\<rparr>]))"
proof (induction ps)
  case (Cons p ps)
  show ?case
  proof (cases "available bf p")
    case True
    then show ?thesis by (auto simp: available_def intro!: exI [of _ 0])
  next
    case False
    then have eq: "nextPieceLoop bf (p # ps) = (case nextPieceLoop bf ps of (r, ps') \<Rightarrow> (r, p # ps'))"
      by (auto simp: available_def)
    from Cons.IH show ?thesis
    proof
      assume "nextPieceLoop bf ps = (None, ps) \<and> (\<forall>p\<in>set ps. \<not> available bf p)"
      then show ?thesis using False eq by simp
    next
      assume "\<exists>k<length ps. available bf (ps ! k) \<and> (\<forall>j<k. \<not> available bf (ps ! j)) \<and>
        nextPieceLoop bf ps = (Some (Piece.truncate (ps ! k)), ps[k := (ps ! k)\<lparr>pstate := PieceDownloading\<rparr>])"
      then obtain k where "k < length ps" "available bf (ps ! k)" "\<forall>j<k. \<not> available bf (ps ! j)"
        "nextPieceLoop bf ps = (Some (Piece.truncate (ps ! k)), ps[k := (ps ! k)\<lparr>pstate := PieceDownloading\<rparr>])" by blast
      then show ?thesis using False eq
        by (intro disjI2 exI [of _ "Suc k"]) (auto simp: nth_Cons split: nat.splits)
    qed
  qed
qed simp

lemma NextPieceForPeer_cases:
  "(NextPieceForPeer bf pm = (None, pm) \<and> (\<forall>i<numPieces pm. \<not> available bf (pieces pm ! i))) \<or>
   (\<exists>k<numPieces pm. available bf (pieces pm ! k) \<and> (\<forall>j<k. \<not> available bf (pieces pm ! j)) \<and>
      NextPieceForPeer bf pm = (Some (Piece.truncate (pieces pm ! k)), setPieceState k PieceDownloading pm))"
  using nextPieceLoop_cases [of bf "pieces pm"]
  by (auto simp: NextPieceForPeer_def setPieceState_def numPieces_def)

lemma MarkFailed_eq:
  "MarkFailed index pm = (if validIndex pm index \<and> stateAt pm (nat index) = PieceDownloading
     then notifyLocked (setPieceState (nat index) PieceMissing pm) else pm)"
  by (auto simp: MarkFailed_def)

lemma layout_ops [simp]:
  "layout (MarkFailed index pm) = layout pm"
  "layout (resetAfterFailure index pm) = layout pm"
  "layout (snd (NextPieceForPeer bf pm)) = layout pm"
proof -
  show "layout (snd (NextPieceForPeer bf pm)) = layout pm"
    using NextPieceForPeer_cases [of bf pm] by (elim disjE exE conjE) simp_all
qed (simp_all add: MarkFailed_eq resetAfterFailure_def)

lemma managerInv_mgr:
  assumes inv: "managerInv w" and lay: "layout pm = layout (mgr w)"
    and st: "\<And>i. i < numPieces (mgr w) \<Longrightarrow> stateAt pm i = PieceComplete \<Longrightarrow> stateAt (mgr w) i = PieceComplete"
  shows "managerInv (w\<lparr>mgr := pm\<rparr>)"
proof -
  note l = layout_eq [OF lay]
  have "pieceData (w\<lparr>mgr := pm\<rparr>) i = pieceData w i" if "i < numPieces (mgr w)" for i
    using that lay l(1,3) by (intro pieceData_layout) auto
  then show ?thesis using inv geometry_layout [OF lay] l(1,3,7) st by (simp add: managerInv_def)
qed

lemma managerInv_NextPiece: "managerInv w \<Longrightarrow> managerInv (w\<lparr>mgr := snd (NextPieceForPeer bf (mgr w))\<rparr>)"
proof (rule managerInv_mgr)
  fix i assume i: "i < numPieces (mgr w)" "stateAt (snd (NextPieceForPeer bf (mgr w))) i = PieceComplete"
  from NextPieceForPeer_cases [of bf "mgr w"] i show "stateAt (mgr w) i = PieceComplete"
    by (elim disjE exE conjE) (auto simp: setPieceState_state split: if_splits)
qed simp_all

lemma managerInv_MarkFailed: "managerInv w \<Longrightarrow> managerInv (w\<lparr>mgr := MarkFailed index (mgr w)\<rparr>)"
proof (rule managerInv_mgr)
  fix i assume "i < numPieces (mgr w)" "stateAt (MarkFailed index (mgr w)) i = PieceComplete"
  then show "stateAt (mgr w) i = PieceComplete"
    using validIndex_nat [of "mgr w" index] by (auto simp: MarkFailed_eq setPieceState_state split: if_splits)
qed simp_all

section \<open>Restoring\<close>

text \<open>Restoring pieces \<open>is\<close> took \<open>w\<close> to \<open>w'\<close>: exactly those with the right data became complete.\<close>

definition restored :: "nat set \<Rightarrow> world \<Rightarrow> world \<Rightarrow> bool" where
  "restored is w w' \<longleftrightarrow> managerInv w' \<and> layout (mgr w') = layout (mgr w) \<and> onlyFaults (disk w) (disk w') \<and>
     (\<forall>i<numPieces (mgr w). stateAt (mgr w') i =
        (if i \<in> is \<and> sha1 (pieceData w i) = Hash (pieces (mgr w) ! i) then PieceComplete else stateAt (mgr w) i))"

lemma restored_refl: "managerInv w \<Longrightarrow> restored {} w w"
  by (simp add: restored_def)

lemma restored_data:
  assumes "restored is w w'" "i < numPieces (mgr w)"
  shows "pieceData w' i = pieceData w i" "Hash (pieces (mgr w') ! i) = Hash (pieces (mgr w) ! i)"
proof -
  have lay: "layout (mgr w') = layout (mgr w)" using assms(1) by (simp add: restored_def)
  show "Hash (pieces (mgr w') ! i) = Hash (pieces (mgr w) ! i)"
    using layout_eq(7) [OF lay] layout_eq(3) [OF lay] assms(2) by simp
  have "storeBytes (disk w') st = storeBytes (disk w) st" for st
    using assms(1) onlyFaults_wf by (simp add: restored_def storeBytes_def onlyFaults_same)
  then show "pieceData w' i = pieceData w i"
    using pieceData_layout [OF lay] layout_eq(3) [OF lay] assms(2) by simp
qed

lemma restored_trans:
  assumes "restored A w w'" "restored B w' w''"
  shows "restored (A \<union> B) w w''"
proof -
  have lay: "layout (mgr w') = layout (mgr w)" using assms(1) by (simp add: restored_def)
  have "stateAt (mgr w'') i = (if i \<in> A \<union> B \<and> sha1 (pieceData w i) = Hash (pieces (mgr w) ! i)
      then PieceComplete else stateAt (mgr w) i)" if i: "i < numPieces (mgr w)" for i
    using i assms restored_data [OF assms(1) i] layout_eq(3) [OF lay] by (auto simp: restored_def)
  then show ?thesis using assms lay by (auto simp: restored_def intro: onlyFaults_trans)
qed

lemma restorePiece_effect:
  assumes inv: "managerInv w" and i: "i < numPieces (mgr w)" and run: "restorePiece i w = (r, w')"
  shows "(if r = Inr () then restored {i} w w' else restored {} w w') \<and>
    (faults (disk w) = [] \<and> \<not> closed (storage (mgr w)) \<longrightarrow> r = Inr ())"
proof -
  let ?pm = "mgr w" and ?p = "pieces (mgr w) ! i" and ?st = "storage (mgr w)"
  have g: "geometry ?pm" and wf: "wfStorage (disk w) ?st" using inv by (auto simp: managerInv_def)
  note range = piece_range [OF g i]
  have off: "i64 (Index ?p * standardPieceLength ?pm) = pieceOff ?pm i"
    using g i geometry_isInt64(3) [OF g wf i] range(1) by (simp add: geometry_def pieceOff_def i64_nonneg_id)
  obtain q dk where rd: "ReadAt ?st (nat (pieceLen ?p)) (pieceOff ?pm i) (disk w) = (q, dk)" by fastforce
  note eff = ReadAt_effect [OF wf rd]
  have rng: "inRange ?st (pieceOff ?pm i) (nat (pieceLen ?p))" if "\<not> closed ?st"
    using that range by (simp add: inRange_def)
  let ?w = "w\<lparr>disk := dk\<rparr>"
  have base: "restored {} w ?w"
  proof -
    have "onlyFaults (disk w) dk" using eff by simp
    then have "managerInv ?w" using inv onlyFaults_wf [of "disk w" dk ?st]
      by (simp add: managerInv_def pieceData_def)
    then show ?thesis using \<open>onlyFaults (disk w) dk\<close> by (simp add: restored_def)
  qed
  have w': "(r, w') = (case q of Inl e \<Rightarrow> (Inl (ReadExisting (Index ?p) e), ?w)
      | Inr d \<Rightarrow> (Inr (), if sha1 d = Hash ?p
          then ?w\<lparr>mgr := notifyLocked (setPieceState i PieceComplete ?pm)\<rparr> else ?w))"
    using run range off rd
    by (auto simp: restorePiece_def Let_def act_eval onDisk_def onMgr_def retA_def split: sum.splits)
  show ?thesis
  proof (cases q)
    case (Inl e)
    then have "\<not> (faults (disk w) = [] \<and> \<not> closed ?st)" using eff rng by (cases "closed ?st") auto
    then show ?thesis using w' Inl base by auto
  next
    case (Inr d)
    then have "d = sliceOf (storeBytes (disk w) ?st) (nat (pieceOff ?pm i)) (nat (pieceOff ?pm i) + nat (pieceLen ?p))"
      using store.rd_ok [OF wf] rd by blast
    then have d: "d = pieceData w i" by (simp add: pieceData_def)
    have data: "pieceData ?w i = pieceData w i" "Hash (pieces (mgr ?w) ! i) = Hash ?p"
      using restored_data [OF base i] by simp_all
    have "restored {i} ?w w'"
    proof (cases "sha1 d = Hash ?p")
      case True
      then have w'': "w' = ?w\<lparr>mgr := notifyLocked (setPieceState i PieceComplete (mgr ?w))\<rparr>" using w' Inr by simp
      have inv': "managerInv ?w" using base by (simp add: restored_def)
      have only: "onlyPiece i ?w w'" unfolding w'' using onlyPiece_set(2) [OF inv'] i by simp
      have "pieceData w' i = pieceData ?w i"
        unfolding w'' by (rule pieceData_layout) (simp_all add: i layout_eq(1,3) [OF notifyLocked_layout] layout_eq(1,3) [OF setPieceState_layout])
      then have "managerInv w'" using True d data by (intro managerInv_onlyPiece [OF inv' only]) simp
      then show ?thesis using True d data i only
        by (auto simp: restored_def onlyPiece_def w'' setPieceState_state)
    next
      case False
      then have "w' = ?w" using w' Inr by simp
      then show ?thesis using base False d data by (simp add: restored_def)
    qed
    then show ?thesis using restored_trans [OF base] w' Inr by auto
  qed
qed

lemma restoreLoop_effect:
  assumes "managerInv w" "\<forall>i\<in>set is. i < numPieces (mgr w)" "restoreLoop is w = (r, w')"
  shows "(\<exists>D. D \<subseteq> set is \<and> restored D w w' \<and> (r = Inr () \<longrightarrow> D = set is)) \<and>
    (faults (disk w) = [] \<and> \<not> closed (storage (mgr w)) \<longrightarrow> r = Inr ())"
  using assms
proof (induction "is" arbitrary: w)
  case Nil
  then show ?case using restored_refl [of w] by auto
next
  case (Cons i "is")
  obtain q w1 where st: "restorePiece i w = (q, w1)" by fastforce
  from restorePiece_effect [OF Cons.prems(1) _ st] Cons.prems(2)
  have eff: "if q = Inr () then restored {i} w w1 else restored {} w w1"
    "faults (disk w) = [] \<and> \<not> closed (storage (mgr w)) \<longrightarrow> q = Inr ()" by auto
  show ?case
  proof (cases q)
    case (Inl e)
    then have "r = Inl e" "w' = w1" using Cons.prems(3) st by (auto simp: act_eval)
    then show ?thesis using eff Inl by auto
  next
    case (Inr u)
    then have r1: "restored {i} w w1" and run: "restoreLoop is w1 = (r, w')"
      using eff Cons.prems(3) st by (auto simp: act_eval)
    have lay: "layout (mgr w1) = layout (mgr w)" and inv: "managerInv w1" and of: "onlyFaults (disk w) (disk w1)"
      using r1 by (simp_all add: restored_def)
    have "\<forall>i\<in>set is. i < numPieces (mgr w1)" using Cons.prems(2) layout_eq(3) [OF lay] by simp
    from Cons.IH [OF inv this run] obtain D where D: "D \<subseteq> set is" "restored D w1 w'" "r = Inr () \<longrightarrow> D = set is"
      "faults (disk w1) = [] \<and> \<not> closed (storage (mgr w1)) \<longrightarrow> r = Inr ()" by auto
    have "restored (insert i D) w w'" using restored_trans [OF r1 D(2)] by simp
    moreover have "faults (disk w) = [] \<and> \<not> closed (storage (mgr w)) \<longrightarrow> r = Inr ()"
      using D(4) of layout_eq(1) [OF lay] by (simp add: onlyFaults_def)
    ultimately show ?thesis using D(1,3) by (intro conjI exI [of _ "insert i D"]) auto
  qed
qed

section \<open>Counting\<close>

definition completeSet :: "PieceManager \<Rightarrow> nat set" where
  "completeSet pm = {i. i < numPieces pm \<and> stateAt pm i = PieceComplete}"

lemma foldl_count:
  "foldl (\<lambda>c p. if P p then c + 1 else c) (n :: int) ps = n + int (length (filter P ps))"
  by (induction ps arbitrary: n) auto

lemma Progress_eq: "Progress pm = (int (card (completeSet pm)), int (numPieces pm))"
proof -
  have "completeSet pm = {i. i < length (pieces pm) \<and> pstate (pieces pm ! i) = PieceComplete}"
    by (simp add: completeSet_def numPieces_def stateAt_def)
  then show ?thesis by (simp add: Progress_def foldl_count length_filter_conv_card numPieces_def)
qed

lemma IsComplete_iff: "IsComplete pm \<longleftrightarrow> (\<forall>i<numPieces pm. stateAt pm i = PieceComplete)"
  by (simp add: IsComplete_def numPieces_def stateAt_def list_all_length)

definition doneBytes :: "managedPiece list \<Rightarrow> int" where
  "doneBytes ps = sum_list (map (\<lambda>p. if pstate p = PieceComplete then pieceLen p else 0) ps)"

definition allBytes :: "managedPiece list \<Rightarrow> int" where
  "allBytes ps = sum_list (map pieceLen ps)"

lemma doneBytes_le:
  "\<forall>p\<in>set ps. 0 < pieceLen p \<Longrightarrow> 0 \<le> doneBytes ps \<and> doneBytes ps \<le> allBytes ps \<and>
     (doneBytes ps = allBytes ps \<longleftrightarrow> (\<forall>p\<in>set ps. pstate p = PieceComplete))"
  by (induction ps) (auto simp: doneBytes_def allBytes_def)

lemma foldl_bytes:
  assumes "\<forall>p\<in>set ps. 0 < pieceLen p" "0 \<le> n" "n + allBytes ps \<le> MaxInt64"
  shows "foldl (\<lambda>n p. if pstate p = PieceComplete then i64 (n + pieceLen p) else n) n ps = n + doneBytes ps"
  using assms
proof (induction ps arbitrary: n)
  case (Cons p ps)
  have "0 \<le> allBytes ps" using doneBytes_le [of ps] Cons.prems(1) by auto
  then have "i64 (n + pieceLen p) = n + pieceLen p"
    using Cons.prems by (intro i64_nonneg_id) (auto simp: allBytes_def)
  then show ?case using Cons by (auto simp: doneBytes_def allBytes_def add.assoc)
qed (simp add: doneBytes_def)

lemma allBytes_total:
  assumes g: "geometry pm" and t: "0 \<le> storageTotal (storage pm)"
  shows "allBytes (pieces pm) = storageTotal (storage pm)"
proof -
  let ?T = "storageTotal (storage pm)" and ?pl = "standardPieceLength pm"
  have pl: "0 < ?pl" using g by (simp add: geometry_def)
  have "allBytes (take k (pieces pm)) = min (int k * ?pl) ?T" if "k \<le> numPieces pm" for k
    using that
  proof (induction k)
    case 0
    then show ?case using t by (simp add: allBytes_def)
  next
    case (Suc k)
    then have k: "k < numPieces pm" by simp
    have "take (Suc k) (pieces pm) = take k (pieces pm) @ [pieces pm ! k]"
      using k by (simp add: take_Suc_conv_app_nth numPieces_def)
    then have "allBytes (take (Suc k) (pieces pm)) = min (int k * ?pl) ?T + min ?pl (?T - int k * ?pl)"
      using Suc k g by (simp add: allBytes_def geometry_def)
    moreover have "int k * ?pl < ?T" using piece_range(5) [OF g k] by (simp add: pieceOff_def)
    ultimately show ?case by (simp add: algebra_simps min_def)
  qed
  from this [of "numPieces pm"] have "allBytes (pieces pm) = min (int (numPieces pm) * ?pl) ?T"
    by (simp add: numPieces_def)
  moreover have "\<not> int (numPieces pm) * ?pl < ?T"
    using ceil_cover [OF pl, of "int (numPieces pm)" ?T] g by (simp add: geometry_def)
  ultimately show ?thesis by simp
qed

lemma pieces_pos: "geometry pm \<Longrightarrow> \<forall>p\<in>set (pieces pm). 0 < pieceLen p"
  using piece_range(2) [of pm] by (auto simp: in_set_conv_nth numPieces_def)

lemma CompletedBytes_eq:
  assumes "geometry pm" "wfStorage s (storage pm)"
  shows "CompletedBytes pm = doneBytes (pieces pm)"
proof -
  have "0 \<le> storageTotal (storage pm)" "storageTotal (storage pm) \<le> MaxInt64"
    using assms(2) spansFrom_le by (auto simp: wfStorage_def)
  then show ?thesis
    using foldl_bytes [OF pieces_pos [OF assms(1)], of 0] allBytes_total [OF assms(1)]
    by (simp add: CompletedBytes_def)
qed

section \<open>Properties\<close>

text \<open>
  C30. The manager of well-formed metadata over a storage of its length starts with every piece missing,
  and its pieces tile the torrent: each is between 1 byte and the piece length long, carries the hash of
  its index, and every byte of the torrent lies in exactly one of them.
\<close>

theorem NewPieceManager_tiles:
  assumes "metaWf u meta" "storageTotal st = Length meta"
  shows "length (pieces (NewPieceManager meta st)) = length (Pieces meta) \<and>
    (\<forall>i<length (Pieces meta). let p = pieces (NewPieceManager meta st) ! i in
       pstate p = PieceMissing \<and> Index p = int i \<and> Hash p = Pieces meta ! i \<and>
       1 \<le> pieceLen p \<and> pieceLen p \<le> PieceLength meta) \<and>
    (\<forall>b. 0 \<le> b \<and> b < Length meta \<longrightarrow> (\<exists>!i. i < length (Pieces meta) \<and> int i * PieceLength meta \<le> b \<and>
       b < int i * PieceLength meta + pieceLen (pieces (NewPieceManager meta st) ! i)))"
proof -
  let ?pm = "NewPieceManager meta st" and ?n = "length (Pieces meta)" and ?pl = "PieceLength meta"
  have g: "geometry ?pm" by (rule newPiece_geometry [OF assms])
  have n: "numPieces ?pm = ?n" and pl: "standardPieceLength ?pm = ?pl" and tot: "storageTotal (storage ?pm) = Length meta"
    using assms(2) by (simp_all add: NewPieceManager_def numPieces_def)
  have off: "pieceOff ?pm i = int i * ?pl" for i by (simp add: pieceOff_def pl)
  have pos: "0 < ?pl" using g pl by (simp add: geometry_def)
  have "\<exists>!i. i < ?n \<and> int i * ?pl \<le> b \<and> b < int i * ?pl + pieceLen (pieces ?pm ! i)"
    if b: "0 \<le> b" "b < Length meta" for b
  proof (rule ex_ex1I)
    let ?i = "nat (b div ?pl)"
    have i: "int ?i = b div ?pl" using b pos by (simp add: pos_imp_zdiv_nonneg_iff)
    have bd: "int ?i * ?pl \<le> b" "b < int ?i * ?pl + ?pl"
      unfolding i using div_mult_mod_eq [of b ?pl] pos_mod_bound [OF pos, of b] pos_mod_sign [OF pos, of b]
      by linarith+
    then have "int ?i * ?pl < Length meta" using b by simp
    then have "int ?i < int ?n" using ceil_cover [OF pos] g n pl tot by (simp add: geometry_def)
    then have "?i < ?n" by (simp only: of_nat_less_iff)
    moreover have "pieceLen (pieces ?pm ! ?i) = min ?pl (Length meta - int ?i * ?pl)"
      using g n pl tot \<open>?i < ?n\<close> by (simp add: geometry_def)
    ultimately show "\<exists>i. i < ?n \<and> int i * ?pl \<le> b \<and> b < int i * ?pl + pieceLen (pieces ?pm ! i)"
      using bd b by (intro exI [of _ ?i]) (simp add: min_def)
    fix i j assume "i < ?n \<and> int i * ?pl \<le> b \<and> b < int i * ?pl + pieceLen (pieces ?pm ! i)"
      "j < ?n \<and> int j * ?pl \<le> b \<and> b < int j * ?pl + pieceLen (pieces ?pm ! j)"
    then show "i = j" using piece_apart [OF g, of i j] n off by fastforce
  qed
  moreover have "Hash (pieces ?pm ! i) = Pieces meta ! i \<and> pstate (pieces ?pm ! i) = PieceMissing" if "i < ?n" for i
    using that by (simp add: NewPieceManager_def newPiece_def)
  ultimately show ?thesis
    using piece_range(2,4) [OF g] g n pl by (auto simp: Let_def geometry_def numPieces_def int_one_le_iff_zero_less)
qed

theorem NewPieceManager_tiles_witness:
  "pieceLen (pieces (NewPieceManager sampleMeta sampleStorage) ! 1) = 1 \<and>
   length (pieces (NewPieceManager sampleMeta sampleStorage)) = 2"
proof -
  have "storageTotal sampleStorage = Length sampleMeta" by (simp add: sampleStorage_def sampleMeta_def)
  note t = NewPieceManager_tiles [OF sampleMeta_wf this]
  then show ?thesis
    by (simp add: NewPieceManager_def newPiece_def sampleMeta_def i64_def upt_rec)
qed

text \<open>A small world for the witnesses: two pieces over the three files of the sample storage.\<close>

definition sampleManager :: "PieceState \<Rightarrow> PieceState \<Rightarrow> PieceManager" where
  "sampleManager a b =
     \<lparr>pieces = [\<lparr>Index = 0, Hash = sha1 [1, 2, 3, 4], pieceLen = 4, pstate = a\<rparr>,
                \<lparr>Index = 1, Hash = sha1 [7], pieceLen = 1, pstate = b\<rparr>],
      storage = sampleStorage, standardPieceLength = 4, updates = 0\<rparr>"

definition sampleWorld :: "PieceState \<Rightarrow> PieceState \<Rightarrow> world" where
  "sampleWorld a b = \<lparr>disk = sampleDisk, mgr = sampleManager a b\<rparr>"

lemma sampleWorld_numPieces [simp]: "numPieces (mgr (sampleWorld a b)) = 2"
  by (simp add: sampleWorld_def sampleManager_def numPieces_def)

lemma sampleWorld_state [simp]:
  "stateAt (mgr (sampleWorld a b)) 0 = a" "stateAt (mgr (sampleWorld a b)) (Suc 0) = b"
  by (simp_all add: sampleWorld_def sampleManager_def stateAt_def)

lemma sampleWorld_inv: "b \<noteq> PieceComplete \<Longrightarrow> managerInv (sampleWorld a b)"
proof -
  assume b: "b \<noteq> PieceComplete"
  have "geometry (sampleManager a b)"
    by (auto simp: geometry_def sampleManager_def numPieces_def sampleStorage_def MaxPieceLength_def less_Suc_eq numeral_2_eq_2)
  moreover have "pieceData (sampleWorld a b) 0 = [1, 2, 3, 4]"
    using sample_bytes by (simp add: pieceData_def sampleWorld_def sampleManager_def pieceOff_def sliceOf_def)
  moreover have "Hash (pieces (sampleManager a b) ! 0) = sha1 [1, 2, 3, 4]" by (simp add: sampleManager_def)
  ultimately have "sha1 (pieceData (sampleWorld a b) 0) = Hash (pieces (sampleManager a b) ! 0)" by simp
  moreover have "i = 0" if "i < 2" "stateAt (sampleManager a b) i = PieceComplete" for i :: nat
    using that b by (cases i) (auto simp: sampleManager_def stateAt_def)
  ultimately have "\<forall>i<2. stateAt (sampleManager a b) i = PieceComplete \<longrightarrow>
      sha1 (pieceData (sampleWorld a b) i) = Hash (pieces (sampleManager a b) ! i)" by metis
  moreover have "mgr (sampleWorld a b) = sampleManager a b" "disk (sampleWorld a b) = sampleDisk"
    "storage (sampleManager a b) = sampleStorage" "numPieces (sampleManager a b) = 2"
    by (simp_all add: sampleWorld_def sampleManager_def numPieces_def)
  ultimately show ?thesis using sample_wf \<open>geometry _\<close> by (simp add: managerInv_def)
qed

text \<open>
  C5. Completing a piece, whatever the outcome and whatever fails, keeps the invariant that every complete
  piece is on the disk with its hash, and touches no other piece. It succeeds only for a reserved piece and
  data of the right length and hash, and then the piece is complete and the disk holds that data; with a
  working disk it does succeed. Otherwise it returns an error: the piece is missing again if it was
  reserved, and nothing at all has changed if it was not.
\<close>

theorem CompletePiece_correct:
  assumes "managerInv w" "CompletePiece (int i) d w = (r, w')" "i < numPieces (mgr w)"
  shows "managerInv w' \<and> onlyPiece i w w' \<and>
    (r = Inr () \<longrightarrow> stateAt (mgr w) i = PieceDownloading \<and> int (length d) = pieceLen (pieces (mgr w) ! i) \<and>
       sha1 d = Hash (pieces (mgr w) ! i) \<and> stateAt (mgr w') i = PieceComplete \<and> pieceData w' i = d) \<and>
    (r \<noteq> Inr () \<longrightarrow> (if stateAt (mgr w) i = PieceDownloading then stateAt (mgr w') i = PieceMissing else w' = w)) \<and>
    (faults (disk w) = [] \<and> \<not> closed (storage (mgr w)) \<and> stateAt (mgr w) i = PieceDownloading \<and>
       int (length d) = pieceLen (pieces (mgr w) ! i) \<and> sha1 d = Hash (pieces (mgr w) ! i) \<longrightarrow> r = Inr ())"
proof (cases "stateAt (mgr w) i = PieceDownloading")
  case True
  note a = CompletePiece_attempted [OF assms(1,3) True assms(2), unfolded attempted_def]
  show ?thesis unfolding if_P [OF True] using True a by blast
next
  case False
  then have "w' = w" "r \<noteq> Inr ()" using CompletePiece_refused [OF assms(2)] by auto
  then show ?thesis using assms(1) False by (simp add: onlyPiece_def managerInv_def)
qed

theorem CompletePiece_correct_witness:
  "\<exists>w'. CompletePiece 1 [7] (sampleWorld PieceComplete PieceDownloading) = (Inr (), w') \<and>
     managerInv w' \<and> pieceData w' 1 = [7]"
proof -
  let ?w = "sampleWorld PieceComplete PieceDownloading"
  obtain r w' where run: "CompletePiece (int 1) [7] ?w = (r, w')" by fastforce
  have "1 < numPieces (mgr ?w)" "managerInv ?w" by (simp_all add: sampleWorld_inv)
  note c = CompletePiece_correct [OF this(2) run this(1)]
  have "r = Inr ()"
    using c by (simp add: sampleWorld_def sampleManager_def sampleDisk_def sampleStorage_def stateAt_def)
  then show ?thesis using c run by auto
qed

lemma RestoreExisting_effect:
  assumes "managerInv w" "RestoreExisting w = (r, w')"
  shows "managerInv w' \<and> layout (mgr w') = layout (mgr w) \<and> nodes (disk w') = nodes (disk w) \<and>
    (r = Inr () \<longrightarrow> (\<forall>i<numPieces (mgr w). stateAt (mgr w') i =
        (if sha1 (pieceData w i) = Hash (pieces (mgr w) ! i) then PieceComplete else stateAt (mgr w) i))) \<and>
    (faults (disk w) = [] \<and> \<not> closed (storage (mgr w)) \<longrightarrow> r = Inr ())"
proof -
  have "restoreLoop [0..<length (pieces (mgr w))] w = (r, w')" using assms(2) by (simp add: RestoreExisting_def)
  from restoreLoop_effect [OF assms(1) _ this] obtain D where
    "restored D w w'" "r = Inr () \<longrightarrow> D = {0..<numPieces (mgr w)}"
    "faults (disk w) = [] \<and> \<not> closed (storage (mgr w)) \<longrightarrow> r = Inr ()"
    by (auto simp: numPieces_def)
  then show ?thesis by (auto simp: restored_def onlyFaults_def)
qed

text \<open>
  C16. Restoring an earlier download keeps the invariant and every file. When it returns without an error,
  which it does when no system call fails, a piece is complete exactly if it was before or the disk holds
  data with its hash, and no other state has changed.
\<close>

theorem RestoreExisting_correct:
  assumes "managerInv w" "RestoreExisting w = (r, w')"
  shows "managerInv w' \<and> layout (mgr w') = layout (mgr w) \<and> nodes (disk w') = nodes (disk w) \<and>
    (r = Inr () \<longrightarrow> (\<forall>i<numPieces (mgr w). stateAt (mgr w') i =
        (if sha1 (pieceData w i) = Hash (pieces (mgr w) ! i) then PieceComplete else stateAt (mgr w) i))) \<and>
    (faults (disk w) = [] \<and> \<not> closed (storage (mgr w)) \<longrightarrow> r = Inr ())"
  using assms by (rule RestoreExisting_effect)

theorem RestoreExisting_correct_witness:
  "\<exists>w'. RestoreExisting (sampleWorld PieceMissing PieceMissing) = (Inr (), w') \<and>
     stateAt (mgr w') 0 = PieceComplete"
proof -
  let ?w = "sampleWorld PieceMissing PieceMissing"
  obtain r w' where run: "RestoreExisting ?w = (r, w')" by fastforce
  have inv: "managerInv ?w" by (simp add: sampleWorld_inv)
  note c = RestoreExisting_correct [OF inv run]
  have "r = Inr ()" using c by (simp add: sampleWorld_def sampleManager_def sampleDisk_def sampleStorage_def)
  moreover have "pieceData ?w 0 = [1, 2, 3, 4]"
    using sample_bytes by (simp add: pieceData_def sampleWorld_def sampleManager_def pieceOff_def sliceOf_def)
  moreover have "Hash (pieces (mgr ?w) ! 0) = sha1 [1, 2, 3, 4]" by (simp add: sampleWorld_def sampleManager_def)
  ultimately show ?thesis using c run by auto
qed

text \<open>
  C17. A peer is handed the first piece that is missing and that it advertises, which becomes reserved and
  is the only one to change; it is handed nothing only if there is no such piece.
\<close>

theorem NextPieceForPeer_first:
  assumes "geometry pm"
  shows "case NextPieceForPeer bf pm of
      (None, pm') \<Rightarrow> pm' = pm \<and>
        (\<forall>i<numPieces pm. \<not> (stateAt pm i = PieceMissing \<and> i < length bf \<and> bf ! i))
    | (Some p, pm') \<Rightarrow> \<exists>k<numPieces pm. p = Piece.truncate (pieces pm ! k) \<and> stateAt pm k = PieceMissing \<and>
        k < length bf \<and> bf ! k \<and> (\<forall>i<k. \<not> (stateAt pm i = PieceMissing \<and> i < length bf \<and> bf ! i)) \<and>
        layout pm' = layout pm \<and>
        (\<forall>i<numPieces pm. stateAt pm' i = (if i = k then PieceDownloading else stateAt pm i))"
proof -
  have av: "available bf (pieces pm ! i) \<longleftrightarrow> stateAt pm i = PieceMissing \<and> i < length bf \<and> bf ! i"
    if "i < numPieces pm" for i
    using that assms by (auto simp: available_def geometry_def stateAt_def)
  from NextPieceForPeer_cases [of bf pm] show ?thesis
  proof
    assume "\<exists>k<numPieces pm. available bf (pieces pm ! k) \<and> (\<forall>j<k. \<not> available bf (pieces pm ! j)) \<and>
      NextPieceForPeer bf pm = (Some (Piece.truncate (pieces pm ! k)), setPieceState k PieceDownloading pm)"
    then obtain k where "k < numPieces pm" "available bf (pieces pm ! k)" "\<forall>j<k. \<not> available bf (pieces pm ! j)"
      "NextPieceForPeer bf pm = (Some (Piece.truncate (pieces pm ! k)), setPieceState k PieceDownloading pm)" by blast
    then show ?thesis using av by (auto simp: setPieceState_state intro!: exI [of _ k])
  qed (simp add: av)
qed

theorem NextPieceForPeer_first_witness:
  "\<exists>pm'. NextPieceForPeer [True, True] (mgr (sampleWorld PieceComplete PieceMissing)) =
     (Some \<lparr>Index = 1, Hash = sha1 [7], pieceLen = 1\<rparr>, pm') \<and> stateAt pm' 1 = PieceDownloading"
proof -
  let ?pm = "mgr (sampleWorld PieceComplete PieceMissing)"
  have g: "geometry ?pm" using sampleWorld_inv by (simp add: managerInv_def)
  obtain q pm' where run: "NextPieceForPeer [True, True] ?pm = (q, pm')" by fastforce
  have "q = Some \<lparr>Index = 1, Hash = sha1 [7], pieceLen = 1\<rparr>"
    using run by (simp add: NextPieceForPeer_def sampleWorld_def sampleManager_def Piece.defs)
  with NextPieceForPeer_first [OF g, of "[True, True]"] run
  obtain k where "k < 2" "stateAt ?pm k = PieceMissing" "\<forall>i<2. stateAt pm' i = (if i = k then PieceDownloading else stateAt ?pm i)"
    by auto
  then have "k = 1" by (cases k) auto
  then have "stateAt pm' 1 = PieceDownloading"
    using \<open>\<forall>i<2. stateAt pm' i = (if i = k then PieceDownloading else stateAt ?pm i)\<close> by simp
  then show ?thesis using run \<open>q = _\<close> by blast
qed

lemma doneBytes_sum: "doneBytes (pieces pm) = (\<Sum>i\<in>completeSet pm. pieceLen (pieces pm ! i))"
proof -
  have "doneBytes (pieces pm) = (\<Sum>i\<in>{..<numPieces pm}. if stateAt pm i = PieceComplete then pieceLen (pieces pm ! i) else 0)"
    by (simp add: doneBytes_def sum_list_sum_nth numPieces_def stateAt_def atLeast0LessThan)
  also have "\<dots> = (\<Sum>i\<in>{i \<in> {..<numPieces pm}. stateAt pm i = PieceComplete}. pieceLen (pieces pm ! i))"
    by (rule sum.inter_filter [symmetric]) simp
  finally show ?thesis by (simp add: completeSet_def)
qed

text \<open>
  C37. The counters are exact: progress counts the complete pieces, and the completed bytes, added up in 64 bits,
  are exactly the sum of the lengths of the complete pieces. They lie between 0 and the length of the torrent, so
  that what is left is never negative, and nothing is left exactly when the manager reports completion.
\<close>

theorem counters_exact:
  assumes "managerInv w"
  shows "Progress (mgr w) = (int (card (completeSet (mgr w))), int (numPieces (mgr w))) \<and>
    CompletedBytes (mgr w) = (\<Sum>i\<in>completeSet (mgr w). pieceLen (pieces (mgr w) ! i)) \<and>
    0 \<le> CompletedBytes (mgr w) \<and> CompletedBytes (mgr w) \<le> storageTotal (storage (mgr w)) \<and>
    (CompletedBytes (mgr w) = storageTotal (storage (mgr w)) \<longleftrightarrow> IsComplete (mgr w)) \<and>
    (IsComplete (mgr w) \<longleftrightarrow> fst (Progress (mgr w)) = snd (Progress (mgr w)))"
proof -
  let ?pm = "mgr w"
  have g: "geometry ?pm" and wf: "wfStorage (disk w) (storage ?pm)" using assms by (auto simp: managerInv_def)
  have "0 \<le> storageTotal (storage ?pm)" using wf spansFrom_le by (auto simp: wfStorage_def)
  note tot = allBytes_total [OF g this] and le = doneBytes_le [OF pieces_pos [OF g]]
  have sub: "completeSet ?pm \<subseteq> {..<numPieces ?pm}" by (auto simp: completeSet_def)
  have "IsComplete ?pm \<longleftrightarrow> completeSet ?pm = {..<numPieces ?pm}"
    by (auto simp: IsComplete_iff completeSet_def)
  also have "\<dots> \<longleftrightarrow> card (completeSet ?pm) = numPieces ?pm"
    using card_subset_eq [OF finite_lessThan sub] card_lessThan by metis
  finally have cnt: "IsComplete ?pm \<longleftrightarrow> fst (Progress ?pm) = snd (Progress ?pm)" by (simp add: Progress_eq)
  have all: "IsComplete ?pm \<longleftrightarrow> (\<forall>p\<in>set (pieces ?pm). pstate p = PieceComplete)"
    by (simp add: IsComplete_def list_all_iff)
  have "0 \<le> CompletedBytes ?pm" "CompletedBytes ?pm \<le> storageTotal (storage ?pm)"
    "CompletedBytes ?pm = storageTotal (storage ?pm) \<longleftrightarrow> IsComplete ?pm"
    unfolding all CompletedBytes_eq [OF g wf] using le [unfolded tot] by simp_all
  moreover have "CompletedBytes ?pm = (\<Sum>i\<in>completeSet ?pm. pieceLen (pieces ?pm ! i))"
    using CompletedBytes_eq [OF g wf] doneBytes_sum by simp
  ultimately show ?thesis using cnt Progress_eq [of ?pm] by (intro conjI)
qed

theorem counters_exact_witness:
  "Progress (mgr (sampleWorld PieceComplete PieceMissing)) = (1, 2) \<and>
   CompletedBytes (mgr (sampleWorld PieceComplete PieceMissing)) = 4"
proof -
  let ?w = "sampleWorld PieceComplete PieceMissing"
  have "managerInv ?w" by (simp add: sampleWorld_inv)
  note exact = counters_exact [OF this]
  have "completeSet (mgr ?w) = {0}"
    by (auto simp: completeSet_def stateAt_def numPieces_def sampleWorld_def sampleManager_def less_Suc_eq numeral_2_eq_2)
  moreover have "pieceLen (pieces (mgr ?w) ! 0) = 4" "numPieces (mgr ?w) = 2"
    by (simp_all add: sampleWorld_def sampleManager_def numPieces_def)
  ultimately show ?thesis using exact by simp
qed

text \<open>What stands below the completed path is what the storage held.\<close>

lemma Finalize_bytes:
  assumes "Finalize w = (Inr (), w')"
    "map spanPath (spans (storage (mgr w))) = map (below (InProgressPath (storage (mgr w)))) css"
  shows "IsComplete (mgr w) \<and> closed (storage (mgr w')) \<and>
    concat (map (\<lambda>cs. fileData (disk w') (below (CompletedPath (storage (mgr w))) cs)) css) = storeBytes (disk w) (storage (mgr w))"
proof -
  let ?st = "storage (mgr w)"
  obtain q dk where run: "Complete ?st (disk w) = (q, dk)" by fastforce
  then obtain st' where c: "IsComplete (mgr w)" "Complete ?st (disk w) = (Inr st', dk)"
    and w': "w' = w\<lparr>disk := dk, mgr := (mgr w)\<lparr>storage := st'\<rparr>\<rparr>"
    using assms(1) by (cases q) (auto simp: Finalize_def act_eval onDisk_def onMgr_def split: if_splits)
  have eff: "st' = ?st\<lparr>closed := True\<rparr>"
    "\<And>cs. nodes dk (below (CompletedPath ?st) cs) = nodes (disk w) (below (InProgressPath ?st) cs)"
    using Complete_effect [OF c(2)] by auto
  have "concat (map (\<lambda>cs. fileData dk (below (CompletedPath ?st) cs)) css) =
      concat (map (fileData (disk w)) (map (below (InProgressPath ?st)) css))"
    using eff(2) by (simp add: fileData_def comp_def)
  also have "\<dots> = storeBytes (disk w) ?st"
    unfolding assms(2) [symmetric] by (simp add: storeBytes_def contentsOf_def comp_def)
  finally show ?thesis using c(1) eff(1) by (simp add: w')
qed

lemma Finalize_effect:
  assumes "managerInv w" "Finalize w = (Inr (), w')"
    "map spanPath (spans (storage (mgr w))) = map (below (InProgressPath (storage (mgr w)))) css"
  shows "IsComplete (mgr w) \<and> closed (storage (mgr w')) \<and>
    (let out = concat (map (\<lambda>cs. fileData (disk w') (below (CompletedPath (storage (mgr w))) cs)) css) in
       int (length out) = storageTotal (storage (mgr w)) \<and>
       (\<forall>i<numPieces (mgr w). sha1 (sliceOf out (nat (pieceOff (mgr w) i))
           (nat (pieceOff (mgr w) i) + nat (pieceLen (pieces (mgr w) ! i)))) = Hash (pieces (mgr w) ! i)))"
proof -
  note f = Finalize_bytes [OF assms(2,3)]
  have inv: "wfStorage (disk w) (storage (mgr w))"
    "\<And>i. i < numPieces (mgr w) \<Longrightarrow> sha1 (pieceData w i) = Hash (pieces (mgr w) ! i)"
    using assms(1) f by (auto simp: managerInv_def IsComplete_iff)
  show ?thesis using f inv(2) length_storeBytes [OF inv(1)] by (simp add: pieceData_def Let_def)
qed

text \<open>
  C8. A finalized download is on the disk, hash by hash. \<open>Finalize\<close> refuses an incomplete torrent; when it
  succeeds the storage is closed, the files of the torrent stand, in their order, below the completed path,
  and their concatenation has the torrent's length and, piece by piece, the torrent's hashes.
\<close>

theorem Finalize_delivers:
  assumes "managerInv w" "Finalize w = (Inr (), w')"
    "map spanPath (spans (storage (mgr w))) = map (below (InProgressPath (storage (mgr w)))) css"
  shows "IsComplete (mgr w) \<and> closed (storage (mgr w')) \<and>
    (let out = concat (map (\<lambda>cs. fileData (disk w') (below (CompletedPath (storage (mgr w))) cs)) css) in
       int (length out) = storageTotal (storage (mgr w)) \<and>
       (\<forall>i<numPieces (mgr w). sha1 (sliceOf out (nat (pieceOff (mgr w) i))
           (nat (pieceOff (mgr w) i) + nat (pieceLen (pieces (mgr w) ! i)))) = Hash (pieces (mgr w) ! i)))"
  using assms by (rule Finalize_effect)

definition finishedWorld :: world where
  "finishedWorld =
     \<lparr>disk = \<lparr>nodes = [Path False [[97]] \<mapsto> FileN [1, 2]], faults = []\<rparr>,
      mgr = \<lparr>pieces = [\<lparr>Index = 0, Hash = sha1 [1, 2], pieceLen = 2, pstate = PieceComplete\<rparr>],
        storage = \<lparr>spans = [\<lparr>spanPath = Path False [[97]], spanStart = 0, spanEnd = 2\<rparr>], storageTotal = 2,
          closed = False, InProgressPath = Path False [[97]], CompletedPath = Path False [[98]]\<rparr>,
        standardPieceLength = 4, updates = 0\<rparr>\<rparr>"

lemma finishedWorld_inv: "managerInv finishedWorld"
  by (simp add: managerInv_def finishedWorld_def geometry_def numPieces_def MaxPieceLength_def wfStorage_def
      backed_def MaxInt64_def stateAt_def pieceData_def pieceOff_def storeBytes_def fileData_def sliceOf_def)

theorem Finalize_delivers_witness:
  "\<exists>w'. Finalize finishedWorld = (Inr (), w') \<and>
     sha1 (fileData (disk w') (Path False [[98]])) = sha1 [1, 2]"
proof -
  let ?w = finishedWorld
  have "fst (Finalize ?w) = Inr ()"
    by (simp add: Finalize_def IsComplete_def finishedWorld_def onDisk_def onMgr_def Complete_def act_defs Lstat_def
        sysCall_def getNode_def syncSpan_def OpenFile_def Sync_def CloseFile_def Rename_def isDirAt_def
        dirPath_def stripPrefix_def)
  then obtain w' where run: "Finalize ?w = (Inr (), w')" by (metis prod.collapse)
  have "map spanPath (spans (storage (mgr ?w))) = map (below (InProgressPath (storage (mgr ?w)))) [[]]"
    by (simp add: finishedWorld_def below_def)
  from Finalize_delivers [OF finishedWorld_inv run this]
  have "int (length (fileData (disk w') (Path False [[98]]))) = 2 \<and>
      sha1 (sliceOf (fileData (disk w') (Path False [[98]])) 0 2) = sha1 [1, 2]"
    by (simp add: finishedWorld_def below_def Let_def numPieces_def pieceOff_def numeral_2_eq_2)
  then show ?thesis using run by (auto simp: sliceOf_def)
qed

end
