(* ===== verification/Address.thy ===== *)
theory Address
  imports Strconv Binary
begin

text \<open>
  Peer addresses of \<open>internal/tracker/announce.go\<close> and the parts of package \<open>net\<close> that print them: an IP
  address is its 4 or 16 bytes.
\<close>

record PeerAddress =
  IP :: bytes
  Port :: "16 word"

section \<open>Printing IP addresses\<close>

text \<open>\<open>IP.To4\<close>: an IPv4 address, plain or mapped into IPv6.\<close>

definition To4 :: "bytes \<Rightarrow> bytes option" where
  "To4 ip =
     (if length ip = 4 then Some ip
      else if length ip = 16 \<and> take 10 ip = replicate 10 0 \<and> ip ! 10 = 255 \<and> ip ! 11 = 255
      then Some (drop 12 ip) else None)"

fun joinWith :: "byte \<Rightarrow> bytes list \<Rightarrow> bytes" where
  "joinWith s [] = []"
| "joinWith s [x] = x"
| "joinWith s (x # y # xs) = x @ s # joinWith s (y # xs)"

definition dotted :: "bytes \<Rightarrow> bytes" where
  "dotted ip = joinWith 46 (map (\<lambda>b. decDigits (unat b)) ip)"

definition hexDigit :: "nat \<Rightarrow> byte" where
  "hexDigit d = (if d < 10 then digitByte d else of_nat (87 + d))"

fun hexDigits :: "nat \<Rightarrow> bytes" where
  "hexDigits n = (if n < 16 then [hexDigit n] else hexDigits (n div 16) @ [hexDigit (n mod 16)])"

declare hexDigits.simps [simp del]

definition group6 :: "bytes \<Rightarrow> nat \<Rightarrow> nat" where
  "group6 ip i = unat (Uint16 (drop (2 * i) ip))"

text \<open>The first longest run of at least two zero groups, as its start and end.\<close>

definition zeroRun :: "bytes \<Rightarrow> nat \<Rightarrow> nat" where
  "zeroRun ip i = length (takeWhile (\<lambda>j. group6 ip j = 0) [i..<8])"

definition longestRun :: "bytes \<Rightarrow> (nat \<times> nat) option" where
  "longestRun ip =
     foldl (\<lambda>best i. let l = zeroRun ip i in
        if l \<ge> 2 \<and> (case best of None \<Rightarrow> True | Some (a, b) \<Rightarrow> l > b - a) then Some (i, i + l) else best)
       None [0..<8]"

definition string6 :: "bytes \<Rightarrow> bytes" where
  "string6 ip =
     (let hex = (\<lambda>is. joinWith 58 (map (\<lambda>i. hexDigits (group6 ip i)) is)) in
      case longestRun ip of
        None \<Rightarrow> hex [0..<8]
      | Some (a, b) \<Rightarrow> hex [0..<a] @ [58, 58] @ hex [b..<8])"

text \<open>\<open>IP.String\<close>; any other length prints a question mark and the bytes in hexadecimal.\<close>

definition ipString :: "bytes \<Rightarrow> bytes" where
  "ipString ip =
     (if ip = [] then str ''<nil>''
      else case To4 ip of
        Some v4 \<Rightarrow> dotted v4
      | None \<Rightarrow>
          if length ip = 16 then string6 ip
          else 63 # concat (map (\<lambda>b. [hexDigit (unat b div 16), hexDigit (unat b mod 16)]) ip))"

text \<open>\<open>net.JoinHostPort\<close>: a host with a colon or a percent sign stands in brackets.\<close>

definition JoinHostPort :: "bytes \<Rightarrow> bytes \<Rightarrow> bytes" where
  "JoinHostPort host port =
     (if 58 \<in> set host \<or> 37 \<in> set host then 91 # host @ [93, 58] @ port else host @ 58 # port)"

definition addressString :: "PeerAddress \<Rightarrow> bytes" where
  "addressString p = JoinHostPort (ipString (IP p)) (FormatInt (uint (Port p)))"

section \<open>Printing IPv4 addresses is injective\<close>

lemma decDigits_no_sep: "isDigit c \<Longrightarrow> c \<noteq> 46 \<and> c \<noteq> 58 \<and> c \<noteq> 37"
  by (auto simp: isDigit_def)

lemma split_unique:
  assumes "s \<notin> set xs" "s \<notin> set ys" "xs @ s # us = ys @ s # vs"
  shows "xs = ys \<and> us = vs"
proof -
  have "takeWhile (\<lambda>c. c \<noteq> s) (xs @ s # us) = xs" "takeWhile (\<lambda>c. c \<noteq> s) (ys @ s # vs) = ys"
    using assms(1,2) by (auto simp: takeWhile_append)
  then show ?thesis using assms(3) by simp
qed

lemma joinWith_inj:
  "length xs = length ys \<Longrightarrow> \<forall>x\<in>set xs. s \<notin> set x \<Longrightarrow> \<forall>y\<in>set ys. s \<notin> set y \<Longrightarrow>
     joinWith s xs = joinWith s ys \<Longrightarrow> xs = ys"
proof (induction xs ys rule: list_induct2)
  case (Cons x xs y ys)
  show ?case
  proof (cases xs)
    case Nil
    with Cons show ?thesis by simp
  next
    case xs: (Cons x' xs')
    with Cons.hyps obtain y' ys' where ys: "ys = y' # ys'" by (cases ys) auto
    have "x @ s # joinWith s xs = y @ s # joinWith s ys" using Cons.prems(3) xs ys by simp
    then have "x = y" "joinWith s xs = joinWith s ys" using split_unique Cons.prems(1,2) by (metis list.set_intros(1))+
    then show ?thesis using Cons by simp
  qed
qed simp

lemma set_joinWith: "c \<in> set (joinWith s xs) \<Longrightarrow> c = s \<or> (\<exists>x\<in>set xs. c \<in> set x)"
  by (induction s xs rule: joinWith.induct) auto

lemma decDigits_inj: "decDigits m = decDigits n \<Longrightarrow> m = n"
  by (metis decVal_decDigits)

lemma sep_notin_decDigits: "46 \<notin> set (decDigits n)" "58 \<notin> set (decDigits n)" "37 \<notin> set (decDigits n)"
  using decDigits_isDigit [of n] decDigits_no_sep by blast+

lemma dotted_inj:
  assumes "length x = length y" "dotted x = dotted y" shows "x = y"
proof -
  have "map (\<lambda>b. decDigits (unat b)) x = map (\<lambda>b. decDigits (unat b)) y"
    using assms by (intro joinWith_inj [of _ _ 46]) (auto simp: dotted_def sep_notin_decDigits)
  moreover have "inj (\<lambda>b :: byte. decDigits (unat b))"
    by (auto simp: inj_def word_unat_eq_iff dest: decDigits_inj)
  ultimately show ?thesis by (simp add: inj_map_eq_map)
qed

lemma dotted_chars: "58 \<notin> set (dotted ip)" "37 \<notin> set (dotted ip)"
  using sep_notin_decDigits
  by (auto simp: dotted_def dest!: set_joinWith)

lemma addressString_ipv4:
  "length (IP p) = 4 \<Longrightarrow> addressString p = dotted (IP p) @ 58 # decDigits (unat (Port p))"
  by (auto simp: addressString_def ipString_def To4_def JoinHostPort_def dotted_chars FormatInt_def)

text \<open>Two IPv4 peers print alike only if they are the same.\<close>

lemma addressString_inj:
  assumes "length (IP p) = 4" "length (IP q) = 4" "addressString p = addressString q"
  shows "p = q"
proof -
  have "dotted (IP p) = dotted (IP q)" "decDigits (unat (Port p)) = decDigits (unat (Port q))"
    using assms split_unique [OF dotted_chars(1) dotted_chars(1)] by (simp_all add: addressString_ipv4)
  then have "IP p = IP q" "Port p = Port q"
    using dotted_inj assms(1,2) by (auto simp: word_unat_eq_iff dest: decDigits_inj)
  then show ?thesis by simp
qed

end
