(* ===== verification/PeerClient.thy ===== *)
theory PeerClient
  imports Wire Actions Address
begin

text \<open>
  \<open>internal/peer/client.go\<close>: a connection to a peer, its handshake and its read loop. A connection has
  the bytes that still arrive, the bytes sent, and, for every write to come, how many bytes it takes at
  most and whether it fails. A read that is cut off by a deadline is a stream that ends there. Dialling is
  a parameter.
\<close>

section \<open>Connections\<close>

record conn =
  incoming :: bytes
  sent :: bytes
  writes :: "(nat \<times> bool) list"
  connClosed :: bool

datatype clientError =
    ErrClosed
  | WriteFails
  | ShortWrite
  | WriteHandshake clientError
  | ReadHandshakeLength ioError
  | BadProtocolLength
  | ReadHandshake ioError
  | BadHandshake handshakeError
  | DialFailed
  | SerializePanics

type_synonym 'a connAct = "(conn, clientError, 'a) act"

definition SetDeadline :: "unit connAct" where
  "SetDeadline c = (if connClosed c then Inl ErrClosed else Inr (), c)"

text \<open>\<open>Write\<close>: the number of bytes taken and whether an error came with it.\<close>

definition connWrite :: "bytes \<Rightarrow> conn \<Rightarrow> (nat \<times> bool) \<times> conn" where
  "connWrite d c =
     (if connClosed c then ((0, True), c)
      else case writes c of
        [] \<Rightarrow> ((length d, False), c\<lparr>sent := sent c @ d\<rparr>)
      | (n, failed) # ws \<Rightarrow>
          ((min n (length d), failed), c\<lparr>sent := sent c @ take n d, writes := ws\<rparr>))"

text \<open>\<open>io.ReadFull\<close> on the connection.\<close>

definition connReadFull :: "(ioError \<Rightarrow> clientError) \<Rightarrow> nat \<Rightarrow> bytes connAct" where
  "connReadFull wrap n c =
     (if connClosed c \<and> 0 < n then (Inl ErrClosed, c)
      else case ReadFull n (incoming c) of
        Inl e \<Rightarrow> (Inl (wrap e), c\<lparr>incoming := []\<rparr>)
      | Inr (b, rest) \<Rightarrow> (Inr b, c\<lparr>incoming := rest\<rparr>))"

definition connClose :: "conn \<Rightarrow> conn" where
  "connClose c = c\<lparr>connClosed := True\<rparr>"

section \<open>The client\<close>

record ClientConfig =
  DialTimeout :: int
  HandshakeTimeout :: int
  ReadTimeout :: int
  WriteTimeout :: int
  MaxMessageSize :: "32 word"

text \<open>Durations are nanoseconds.\<close>

definition second :: int where "second = 10 ^ 9"

definition DefaultClientConfig :: ClientConfig where
  "DefaultClientConfig =
     \<lparr>DialTimeout = 5 * second, HandshakeTimeout = 10 * second, ReadTimeout = 90 * second,
      WriteTimeout = 15 * second, MaxMessageSize = DefaultMaxMessageSize\<rparr>"

definition withClientDefaults :: "ClientConfig \<Rightarrow> ClientConfig" where
  "withClientDefaults config =
     \<lparr>DialTimeout = (if DialTimeout config \<le> 0 then DialTimeout DefaultClientConfig else DialTimeout config),
      HandshakeTimeout =
        (if HandshakeTimeout config \<le> 0 then HandshakeTimeout DefaultClientConfig else HandshakeTimeout config),
      ReadTimeout = (if ReadTimeout config \<le> 0 then ReadTimeout DefaultClientConfig else ReadTimeout config),
      WriteTimeout = (if WriteTimeout config \<le> 0 then WriteTimeout DefaultClientConfig else WriteTimeout config),
      MaxMessageSize =
        (if MaxMessageSize config = 0 then MaxMessageSize DefaultClientConfig else MaxMessageSize config)\<rparr>"

record Client =
  Conn :: conn
  Peer :: PeerAddress
  config :: ClientConfig
  closedOnce :: bool

definition NewClient :: "conn \<Rightarrow> PeerAddress \<Rightarrow> ClientConfig \<Rightarrow> Client" where
  "NewClient c address cfg =
     \<lparr>Conn = c, Peer = address, config = withClientDefaults cfg, closedOnce = False\<rparr>"

definition CloseClient :: "Client \<Rightarrow> Client" where
  "CloseClient cl =
     (if closedOnce cl then cl else cl\<lparr>Conn := connClose (Conn cl), closedOnce := True\<rparr>)"

section \<open>Writing\<close>

function writeFull :: "bytes \<Rightarrow> unit connAct" where
  "writeFull d c =
     (if d = [] then (Inr (), c)
      else case connWrite d c of ((n, failed), c') \<Rightarrow>
        if failed then (Inl WriteFails, c')
        else if n = 0 then (Inl ShortWrite, c')
        else writeFull (drop n d) c')"
  by pat_completeness auto

termination writeFull
  by (relation "measure (\<lambda>(d, c). length d)") auto

declare writeFull.simps [simp del]

definition WriteMessage :: "Message \<Rightarrow> unit connAct" where
  "WriteMessage message =
     seqA SetDeadline (case Serialize (Some message) of None \<Rightarrow> failA SerializePanics | Some d \<Rightarrow> writeFull d)"

section \<open>Handshake\<close>

definition readHandshake :: "Handshake connAct" where
  "readHandshake =
     bindA (connReadFull ReadHandshakeLength 1) (\<lambda>protocolLength.
       if hd protocolLength = 0 \<or> hd protocolLength > 64 then failA BadProtocolLength
       else bindA (connReadFull ReadHandshake (49 + unat (hd protocolLength) - 1)) (\<lambda>rest.
         liftA (wrapErr BadHandshake (ParseHandshake (hd protocolLength # rest)))))"

text \<open>The deferred \<open>SetDeadline\<close> that lifts the deadline ignores its error.\<close>

definition performHandshake :: "bytes \<Rightarrow> bytes \<Rightarrow> unit connAct" where
  "performHandshake infoHash peerID =
     seqA SetDeadline
       (catchA
         (seqA (errA WriteHandshake
             (writeFull (SerializeHandshake \<lparr>Reserved = replicate 8 0, HsInfoHash = infoHash, HsPeerID = peerID\<rparr>)))
           (bindA readHandshake (\<lambda>response. liftA (wrapErr BadHandshake (Validate (Some response) infoHash)))))
         (\<lambda>r. catchA SetDeadline (\<lambda>_. liftA r)))"

text \<open>\<open>dial\<close> gives the outcome of dialling a host and port within a time.\<close>

definition ConnectContext :: "(bytes \<Rightarrow> int \<Rightarrow> clientError + conn) \<Rightarrow> PeerAddress \<Rightarrow> bytes \<Rightarrow> bytes \<Rightarrow> ClientConfig \<Rightarrow>
    clientError + Client" where
  "ConnectContext dial address infoHash peerID cfg =
     (let cfg' = withClientDefaults cfg in
      andThen (dial (addressString address) (DialTimeout cfg')) (\<lambda>connection.
        let client = NewClient connection address cfg' in
        case performHandshake infoHash peerID (Conn client) of
          (Inl e, c) \<Rightarrow> Inl e
        | (Inr _, c) \<Rightarrow> Inr (client\<lparr>Conn := c\<rparr>)))"

definition Connect :: "(bytes \<Rightarrow> int \<Rightarrow> clientError + conn) \<Rightarrow> PeerAddress \<Rightarrow> bytes \<Rightarrow> bytes \<Rightarrow> clientError + Client" where
  "Connect dial address infoHash peerID = ConnectContext dial address infoHash peerID DefaultClientConfig"

section \<open>The read loop\<close>

datatype readEvent =
    MessageRead Message
  | ReadError messageError
  | DeadlineError

text \<open>
  What the goroutine of \<open>ReadLoop\<close> puts into its channels before both are closed, when its context is
  cancelled after \<open>n\<close> messages have been taken.
\<close>

fun ReadLoop :: "32 word \<Rightarrow> nat \<Rightarrow> conn \<Rightarrow> readEvent list \<times> conn" where
  "ReadLoop maxSize 0 c = ([], c)"
| "ReadLoop maxSize (Suc n) c =
     (if connClosed c then ([DeadlineError], c)
      else case ReadMessageWithLimit maxSize (incoming c) of
        Inl e \<Rightarrow> ([ReadError e], c\<lparr>incoming := []\<rparr>)
      | Inr (message, rest) \<Rightarrow>
          (case ReadLoop maxSize n (c\<lparr>incoming := rest\<rparr>) of (es, c') \<Rightarrow> (MessageRead message # es, c')))"

end
