(* ===== verification/PeerClientSpec.thy ===== *)
theory PeerClientSpec
  imports PeerClient WireSpec
begin

text \<open>
  What a connected client promises: it has sent the handshake and nothing else, the peer has answered
  with a well-formed handshake for the same torrent, and the read loop delivers the messages of the
  stream, in order and all of them, before it reports why it stopped.
\<close>

section \<open>Writing\<close>

lemma take_min_length: "take (min n (length d)) d = take n d"
  by (simp add: min_def)

text \<open>Whatever happens, a prefix of the data goes out, and all of it if no error comes back.\<close>

lemma writeFull_sends:
  "writeFull d c = (r, c') \<Longrightarrow>
     \<exists>k. sent c' = sent c @ take k d \<and> incoming c' = incoming c \<and> connClosed c' = connClosed c \<and>
       (r = Inr () \<longrightarrow> take k d = d)"
proof (induction d c arbitrary: r rule: writeFull.induct)
  case (1 d c)
  show ?case
  proof (cases "d = []")
    case True
    with 1(2) show ?thesis by (simp add: writeFull.simps [of "[]"])
  next
    case False
    obtain n failed c1 where w: "connWrite d c = ((n, failed), c1)" by (metis prod.exhaust)
    then have c1: "sent c1 = sent c @ take n d" "incoming c1 = incoming c" "connClosed c1 = connClosed c"
      by (auto simp: connWrite_def take_min_length split: if_splits list.splits prod.splits)
    show ?thesis
    proof (cases "failed \<or> n = 0")
      case True
      then have "c' = c1" "r \<noteq> Inr ()" using 1(2) False w by (auto simp: writeFull.simps [of d c] split: if_splits)
      then show ?thesis using c1 by blast
    next
      case go: False
      then have "writeFull (drop n d) c1 = (r, c')" using 1(2) False w by (simp add: writeFull.simps [of d c])
      from 1(1) [OF False w [symmetric] refl _ _ this] go
      obtain k where "sent c' = sent c1 @ take k (drop n d)" "incoming c' = incoming c1" "connClosed c' = connClosed c1"
        "r = Inr () \<longrightarrow> take k (drop n d) = drop n d" by auto
      then show ?thesis using c1 by (intro exI [of _ "n + k"]) (auto simp: take_add)
    qed
  qed
qed

lemma writeFull_ok:
  "\<not> connClosed c \<Longrightarrow> writes c = [] \<Longrightarrow> writeFull d c = (Inr (), c\<lparr>sent := sent c @ d\<rparr>)"
  by (simp add: writeFull.simps [of d c] connWrite_def writeFull.simps [of "[]"])

section \<open>Handshake\<close>

lemma SerializeHandshake_Cons: "SerializeHandshake h = 19 # tl (SerializeHandshake h)"
  by (simp add: SerializeHandshake_def)

lemma length_SerializeHandshake: "wfHandshake h \<Longrightarrow> length (SerializeHandshake h) = 68"
  by (simp add: SerializeHandshake_def wfHandshake_def)

lemma ReadFull_iff: "ReadFull n bs = Inr (b, rest) \<longleftrightarrow> length b = n \<and> bs = b @ rest"
  by (meson ReadFull_Inr ReadFull_append)

lemma connReadFull_iff:
  assumes "0 < n"
  shows "connReadFull wrap n c = (Inr b, c') \<longleftrightarrow>
     \<not> connClosed c \<and> (\<exists>rest. ReadFull n (incoming c) = Inr (b, rest) \<and> c' = c\<lparr>incoming := rest\<rparr>)"
  using assms by (auto simp del: ReadFull_Inr simp: connReadFull_def split: sum.split)

lemma connReadFull_Inr:
  assumes "0 < n"
  shows "connReadFull wrap n c = (Inr b, c') \<longleftrightarrow>
     \<not> connClosed c \<and> length b = n \<and> (\<exists>rest. incoming c = b @ rest \<and> c' = c\<lparr>incoming := rest\<rparr>)"
  unfolding connReadFull_iff [OF assms] ReadFull_iff by blast

lemma readHandshake_iff:
  "readHandshake c = (Inr h, c') \<longleftrightarrow> \<not> connClosed c \<and> wfHandshake h \<and>
     (\<exists>rest. incoming c = SerializeHandshake h @ rest \<and> c' = c\<lparr>incoming := rest\<rparr>)"
proof
  assume "readHandshake c = (Inr h, c')"
  then obtain b c1 r where b: "connReadFull ReadHandshakeLength 1 c = (Inr b, c1)"
    and r: "connReadFull ReadHandshake (49 + unat (hd b) - 1) c1 = (Inr r, c')"
    and h: "ParseHandshake (hd b # r) = Inr h"
    by (auto simp: readHandshake_def split: if_splits)
  obtain rest1 where rest1: "\<not> connClosed c" "length b = 1" "incoming c = b @ rest1" "c1 = c\<lparr>incoming := rest1\<rparr>"
    using connReadFull_Inr [THEN iffD1, OF zero_less_one b] by blast
  obtain rest where rest: "incoming c1 = r @ rest" "c' = c1\<lparr>incoming := rest\<rparr>"
    using connReadFull_Inr [THEN iffD1, OF _ r] by auto
  from rest1(2) obtain x where x: "b = [x]" by (metis One_nat_def length_0_conv length_Suc_conv)
  have hs: "wfHandshake h" "hd b # r = SerializeHandshake h" using h ParseHandshake_iff by blast+
  have "incoming c = SerializeHandshake h @ rest" using rest1(3,4) rest(1) x hs(2) [symmetric] by simp
  moreover have "c' = c\<lparr>incoming := rest\<rparr>" using rest1(4) rest(2) by simp
  ultimately show "\<not> connClosed c \<and> wfHandshake h \<and>
     (\<exists>rest. incoming c = SerializeHandshake h @ rest \<and> c' = c\<lparr>incoming := rest\<rparr>)"
    using hs(1) rest1(1) by blast
next
  assume "\<not> connClosed c \<and> wfHandshake h \<and>
     (\<exists>rest. incoming c = SerializeHandshake h @ rest \<and> c' = c\<lparr>incoming := rest\<rparr>)"
  then obtain rest where h: "\<not> connClosed c" "wfHandshake h" "incoming c = SerializeHandshake h @ rest"
    "c' = c\<lparr>incoming := rest\<rparr>" by blast
  let ?r = "tl (SerializeHandshake h)"
  have split: "SerializeHandshake h = 19 # ?r" by (rule SerializeHandshake_Cons)
  then have len: "length ?r = 67" using length_SerializeHandshake h(2) by simp
  have "connReadFull ReadHandshakeLength 1 c = (Inr [19], c\<lparr>incoming := ?r @ rest\<rparr>)"
    using h split by (simp add: connReadFull_Inr) (metis append_Cons)
  moreover have "connReadFull ReadHandshake 67 (c\<lparr>incoming := ?r @ rest\<rparr>) = (Inr ?r, c')"
    using h len by (simp add: connReadFull_Inr)
  moreover have "ParseHandshake (19 # ?r) = Inr h" using h(2) split ParseHandshake_iff by metis
  ultimately show "readHandshake c = (Inr h, c')" by (simp add: readHandshake_def act_eval)
qed

definition wire :: "bytes \<Rightarrow> conn" where
  "wire bs = \<lparr>incoming = bs, sent = [], writes = [], connClosed = False\<rparr>"

definition handshakeFrame :: "bytes \<Rightarrow> clientError + (Handshake \<times> bytes)" where
  "handshakeFrame bs = (case readHandshake (wire bs) of
     (Inl e, c) \<Rightarrow> Inl e | (Inr h, c) \<Rightarrow> Inr (h, incoming c))"

lemma handshakeFrame_iff: "handshakeFrame bs = Inr (h, rest) \<longleftrightarrow> wfHandshake h \<and> bs = SerializeHandshake h @ rest"
proof -
  obtain r c where rc: "readHandshake (wire bs) = (r, c)" by fastforce
  have *: "readHandshake (wire bs) = (Inr h, c') \<longleftrightarrow>
      wfHandshake h \<and> (\<exists>rest. bs = SerializeHandshake h @ rest \<and> c' = wire rest)" for h c'
    by (simp add: readHandshake_iff wire_def)
  show ?thesis
  proof (cases r)
    case (Inl e)
    with rc * show ?thesis by (auto simp: handshakeFrame_def)
  next
    case (Inr h')
    with rc * [of h' c] obtain rest' where r': "wfHandshake h'" "bs = SerializeHandshake h' @ rest'" "c = wire rest'" by auto
    then show ?thesis using rc Inr * [of h "wire rest"] by (auto simp: handshakeFrame_def wire_def)
  qed
qed

interpretation handshake: codec SerializeHandshake handshakeFrame wfHandshake
  by unfold_locales (simp_all add: handshakeFrame_iff)

section \<open>The read loop\<close>

text \<open>A frame takes at least four bytes, so the loop ends before the stream does.\<close>

lemma messageFrame_length: "4 \<le> length (messageFrame m)"
  by (simp add: messageFrame_def split: option.splits)

lemma ReadLoop_run:
  assumes "\<not> connClosed c" "length (incoming c) < 4 * n"
  shows "\<exists>ms e rest. ReadLoop maxSize n c = (map MessageRead ms @ [ReadError e], c\<lparr>incoming := []\<rparr>) \<and>
    incoming c = concat (map messageFrame ms) @ rest \<and> (\<forall>m\<in>set ms. wfMessage maxSize m) \<and>
    ReadMessageWithLimit maxSize rest = Inl e"
  using assms
proof (induction n arbitrary: c)
  case (Suc n)
  show ?case
  proof (cases "ReadMessageWithLimit maxSize (incoming c)")
    case (Inl e)
    then show ?thesis using Suc.prems
      by (intro exI [of _ "[]"] exI [of _ e] exI [of _ "incoming c"]) simp
  next
    case (Inr mr)
    obtain m rest where mr: "mr = (m, rest)" by fastforce
    with Inr have m: "wfMessage maxSize m" "incoming c = messageFrame m @ rest" using read_sound by blast+
    have "length (incoming (c\<lparr>incoming := rest\<rparr>)) < 4 * n" using Suc.prems(2) m(2) messageFrame_length [of m] by simp
    with Suc.IH [of "c\<lparr>incoming := rest\<rparr>"] Suc.prems(1) obtain ms e rest' where
      "ReadLoop maxSize n (c\<lparr>incoming := rest\<rparr>) = (map MessageRead ms @ [ReadError e], c\<lparr>incoming := []\<rparr>)"
      "rest = concat (map messageFrame ms) @ rest'" "\<forall>m\<in>set ms. wfMessage maxSize m"
      "ReadMessageWithLimit maxSize rest' = Inl e" by auto
    then show ?thesis using Suc.prems(1) Inr mr m
      by (intro exI [of _ "m # ms"] exI [of _ e] exI [of _ rest']) simp
  qed
qed simp

section \<open>The handshake of a connection\<close>

definition handshakeRequest :: "bytes \<Rightarrow> bytes \<Rightarrow> bytes" where
  "handshakeRequest infoHash peerID = 19 # protocolString @ replicate 8 0 @ infoHash @ peerID"

lemma Serialize_request:
  "SerializeHandshake \<lparr>Reserved = replicate 8 0, HsInfoHash = infoHash, HsPeerID = peerID\<rparr> =
     handshakeRequest infoHash peerID"
  by (simp add: SerializeHandshake_def handshakeRequest_def)

lemma Validate_iff: "Validate (Some h) ih = Inr () \<longleftrightarrow> HsInfoHash h = ih"
  by (simp add: Validate_def guardR_def)

lemma SetDeadline_iff: "SetDeadline c = (Inr u, c') \<longleftrightarrow> \<not> connClosed c \<and> c' = c"
  by (auto simp: SetDeadline_def)

lemma lift_deadline: "catchA SetDeadline (\<lambda>_. liftA r) = liftA r"
  by (rule ext) (simp add: catchA_def liftA_def SetDeadline_def)

lemma catch_lift: "catchA m liftA = m"
  by (rule ext) (simp add: catchA_def liftA_def split: prod.splits)

lemma performHandshake_iff:
  "performHandshake infoHash peerID c = (Inr (), c') \<longleftrightarrow>
     (\<exists>h rest c1. \<not> connClosed c \<and> wfHandshake h \<and> HsInfoHash h = infoHash \<and>
        incoming c = SerializeHandshake h @ rest \<and>
        writeFull (handshakeRequest infoHash peerID) c = (Inr (), c1) \<and>
        sent c1 = sent c @ handshakeRequest infoHash peerID \<and> c' = c1\<lparr>incoming := rest\<rparr>)"
proof -
  have "performHandshake infoHash peerID c = (Inr (), c') \<longleftrightarrow>
     \<not> connClosed c \<and> (\<exists>c1 h. writeFull (handshakeRequest infoHash peerID) c = (Inr (), c1) \<and>
        readHandshake c1 = (Inr h, c') \<and> HsInfoHash h = infoHash)"
    by (auto simp: performHandshake_def SetDeadline_iff catch_lift lift_deadline Serialize_request Validate_iff)
  also have "\<dots> \<longleftrightarrow> \<not> connClosed c \<and> (\<exists>c1 h. writeFull (handshakeRequest infoHash peerID) c = (Inr (), c1) \<and>
        sent c1 = sent c @ handshakeRequest infoHash peerID \<and> incoming c1 = incoming c \<and> connClosed c1 = connClosed c \<and>
        readHandshake c1 = (Inr h, c') \<and> HsInfoHash h = infoHash)"
    using writeFull_sends [of "handshakeRequest infoHash peerID" c "Inr ()"] by metis
  also have "\<dots> \<longleftrightarrow> (\<exists>h rest c1. \<not> connClosed c \<and> wfHandshake h \<and> HsInfoHash h = infoHash \<and>
        incoming c = SerializeHandshake h @ rest \<and>
        writeFull (handshakeRequest infoHash peerID) c = (Inr (), c1) \<and>
        sent c1 = sent c @ handshakeRequest infoHash peerID \<and> c' = c1\<lparr>incoming := rest\<rparr>)"
    (is "?L \<longleftrightarrow> ?R")
  proof
    assume ?L
    then obtain c1 h where 1: "\<not> connClosed c" "writeFull (handshakeRequest infoHash peerID) c = (Inr (), c1)"
      "sent c1 = sent c @ handshakeRequest infoHash peerID" "incoming c1 = incoming c"
      "readHandshake c1 = (Inr h, c')" "HsInfoHash h = infoHash" by blast
    then obtain rest where "wfHandshake h" "incoming c1 = SerializeHandshake h @ rest" "c' = c1\<lparr>incoming := rest\<rparr>"
      unfolding readHandshake_iff by blast
    with 1 show ?R by metis
  next
    assume ?R
    then obtain h rest c1 where 1: "\<not> connClosed c" "wfHandshake h" "HsInfoHash h = infoHash"
      "incoming c = SerializeHandshake h @ rest" "writeFull (handshakeRequest infoHash peerID) c = (Inr (), c1)"
      "sent c1 = sent c @ handshakeRequest infoHash peerID" "c' = c1\<lparr>incoming := rest\<rparr>" by blast
    have c1: "incoming c1 = incoming c" "connClosed c1 = connClosed c" using writeFull_sends [OF 1(5)] by blast+
    with 1 have "readHandshake c1 = (Inr h, c')" unfolding readHandshake_iff by metis
    with 1 c1 show ?L by blast
  qed
  finally show ?thesis .
qed

lemma defaults_idem: "withClientDefaults (withClientDefaults cfg) = withClientDefaults cfg"
  by (simp add: withClientDefaults_def DefaultClientConfig_def second_def DefaultMaxMessageSize_def)

lemma NewClient_defaults: "NewClient c address (withClientDefaults cfg) = NewClient c address cfg"
  by (simp add: NewClient_def defaults_idem)

lemma NewClient_conn: "(NewClient c address cfg)\<lparr>Conn := c'\<rparr> = NewClient c' address cfg"
  "Conn (NewClient c address cfg) = c"
  by (simp_all add: NewClient_def)

section \<open>Properties\<close>

text \<open>C21. A connected peer is authenticated: \<open>ConnectContext\<close> returns a client exactly when dialling the
  address succeeds, our handshake can be written and the peer's stream starts with a well-formed handshake
  for the same info hash. The client's connection has then sent the 68 bytes of our handshake and nothing
  else, has consumed the peer's handshake and not a byte of the messages that follow it, and is open.\<close>

theorem ConnectContext_authenticates:
  "ConnectContext dial address infoHash peerID cfg = Inr client \<longleftrightarrow>
     (\<exists>c h rest c1. dial (addressString address) (DialTimeout (withClientDefaults cfg)) = Inr c \<and>
        \<not> connClosed c \<and> wfHandshake h \<and> HsInfoHash h = infoHash \<and>
        incoming c = SerializeHandshake h @ rest \<and>
        writeFull (handshakeRequest infoHash peerID) c = (Inr (), c1) \<and>
        sent c1 = sent c @ handshakeRequest infoHash peerID \<and>
        client = NewClient (c1\<lparr>incoming := rest\<rparr>) address cfg)"
proof -
  have "ConnectContext dial address infoHash peerID cfg = Inr client \<longleftrightarrow>
     (\<exists>c c'. dial (addressString address) (DialTimeout (withClientDefaults cfg)) = Inr c \<and>
        performHandshake infoHash peerID c = (Inr (), c') \<and> client = NewClient c' address cfg)"
    by (auto simp: ConnectContext_def Let_def NewClient_defaults NewClient_conn andThen_def
        split: sum.splits prod.splits)
  then show ?thesis unfolding performHandshake_iff by blast
qed

text \<open>C31. The read loop ends and loses nothing: on an open connection it delivers every message of the
  stream, in order, and then exactly one error, the one that reading the rest of the stream gives. It does so
  within one round more than a quarter of the bytes that arrive, and has consumed the stream.\<close>

theorem ReadLoop_delivers:
  assumes "\<not> connClosed c" "length (incoming c) < 4 * n"
  shows "\<exists>ms e rest. ReadLoop maxSize n c = (map MessageRead ms @ [ReadError e], c\<lparr>incoming := []\<rparr>) \<and>
    incoming c = concat (map messageFrame ms) @ rest \<and> (\<forall>m\<in>set ms. wfMessage maxSize m) \<and>
    ReadMessageWithLimit maxSize rest = Inl e"
  using assms by (rule ReadLoop_run)

theorem ReadLoop_delivers_witness:
  "\<exists>ms e rest. ReadLoop 9 3 (wire [0, 0, 0, 0, 0, 0, 0, 1, 1, 0]) =
      (map MessageRead ms @ [ReadError e], (wire [0, 0, 0, 0, 0, 0, 0, 1, 1, 0])\<lparr>incoming := []\<rparr>) \<and>
    incoming (wire [0, 0, 0, 0, 0, 0, 0, 1, 1, 0]) = concat (map messageFrame ms) @ rest \<and>
    (\<forall>m\<in>set ms. wfMessage 9 m) \<and> ReadMessageWithLimit 9 rest = Inl e"
  by (rule ReadLoop_delivers) (simp_all add: wire_def)

end
