(* ===== verification/Threads.thy ===== *)
theory Threads
  imports Prelude
begin

text \<open>
  Goroutines that share a state under a lock. A program is a finite sequence of critical sections, each a
  change of the shared state whose continuation may depend on the state it found; everything between two
  sections is local and part of the continuation. \<open>runP\<close> runs a program alone, \<open>swarmStep\<close> interleaves
  the sections of several. The locale \<open>exclusive\<close> is the contract under which resources that goroutines
  claim and give back stay exclusive, whatever the schedule.
\<close>

section \<open>Programs\<close>

datatype ('s, 'a) prog =
    Done 'a
  | Step "'s \<Rightarrow> 's" "'s \<Rightarrow> ('s, 'a) prog"

primrec bindP :: "('s, 'a) prog \<Rightarrow> ('a \<Rightarrow> ('s, 'b) prog) \<Rightarrow> ('s, 'b) prog" where
  "bindP (Done x) k = k x"
| "bindP (Step f p) k = Step f (\<lambda>s. bindP (p s) k)"

definition atomic :: "('s \<Rightarrow> 'r \<times> 's) \<Rightarrow> ('s, 'r) prog" where
  "atomic m = Step (\<lambda>s. snd (m s)) (\<lambda>s. Done (fst (m s)))"

text \<open>A program that runs alone.\<close>

primrec runP :: "('s, 'a) prog \<Rightarrow> 's \<Rightarrow> 'a \<times> 's" where
  "runP (Done x) s = (x, s)"
| "runP (Step f p) s = runP (p s) (f s)"

lemma runP_atomic [simp]: "runP (atomic m) s = m s"
  by (simp add: atomic_def)

lemma runP_bind [simp]: "runP (bindP p k) s = (case runP p s of (x, t) \<Rightarrow> runP (k x) t)"
  by (induction p arbitrary: s) simp_all

lemma bindP_assoc: "bindP (bindP p k) l = bindP p (\<lambda>x. bindP (k x) l)"
  by (induction p) simp_all

lemma bindP_Done [simp]: "bindP p Done = p"
  by (induction p) simp_all

section \<open>Interleaving\<close>

text \<open>One critical section of one goroutine.\<close>

inductive swarmStep :: "'s \<times> ('s, 'a) prog list \<Rightarrow> 's \<times> ('s, 'a) prog list \<Rightarrow> bool" where
  section_of: "i < length ts \<Longrightarrow> ts ! i = Step f p \<Longrightarrow> swarmStep (s, ts) (f s, ts[i := p s])"

inductive_cases swarmStepE: "swarmStep (s, ts) c"

abbreviation swarmRuns :: "'s \<times> ('s, 'a) prog list \<Rightarrow> 's \<times> ('s, 'a) prog list \<Rightarrow> bool" where
  "swarmRuns \<equiv> swarmStep\<^sup>*\<^sup>*"

lemma swarmRuns_alone: "i < length ts \<Longrightarrow> ts ! i = p \<Longrightarrow> runP p s = (x, t) \<Longrightarrow> swarmRuns (s, ts) (t, ts[i := Done x])"
proof (induction p arbitrary: s ts)
  case (Done y)
  then show ?case by (metis Pair_inject list_update_id rtranclp.rtrancl_refl runP.simps(1))
next
  case (Step f p)
  have "swarmStep (s, ts) (f s, ts[i := p s])" using Step.prems by (intro section_of) simp_all
  moreover have "swarmRuns (f s, ts[i := p s]) (t, (ts[i := p s])[i := Done x])"
    using Step.prems by (intro Step.IH) simp_all
  ultimately show ?case by (simp add: converse_rtranclp_into_rtranclp)
qed

section \<open>Claims\<close>

text \<open>
  \<open>safeP valid holds guar post p h\<close>: started with the claim \<open>h\<close>, every section of \<open>p\<close> keeps the invariant of
  the shared state, moves from one claim to the next within the guarantee, and ends with \<open>post\<close>.
\<close>

primrec safeP :: "('s \<Rightarrow> bool) \<Rightarrow> ('h \<Rightarrow> 's \<Rightarrow> bool) \<Rightarrow> ('h \<Rightarrow> 's \<Rightarrow> 'h \<Rightarrow> 's \<Rightarrow> bool) \<Rightarrow>
    ('h \<Rightarrow> 'a \<Rightarrow> bool) \<Rightarrow> ('s, 'a) prog \<Rightarrow> 'h \<Rightarrow> bool" where
  "safeP valid holds guar post (Done x) h = post h x"
| "safeP valid holds guar post (Step f p) h =
     (\<forall>s. valid s \<and> holds h s \<longrightarrow>
        (\<exists>h'. valid (f s) \<and> holds h' (f s) \<and> guar h s h' (f s) \<and> safeP valid holds guar post (p s) h'))"

lemma safeP_mono:
  "safeP valid holds guar post p h \<Longrightarrow> (\<And>h x. post h x \<Longrightarrow> post' h x) \<Longrightarrow> safeP valid holds guar post' p h"
proof (induction p arbitrary: h)
  case (Step f p)
  show ?case unfolding safeP.simps
  proof (intro allI impI)
    fix s assume "valid s \<and> holds h s"
    with Step.prems(1) obtain h' where "valid (f s)" "holds h' (f s)" "guar h s h' (f s)"
      "safeP valid holds guar post (p s) h'" by auto
    then show "\<exists>h'. valid (f s) \<and> holds h' (f s) \<and> guar h s h' (f s) \<and> safeP valid holds guar post' (p s) h'"
      using Step.IH [OF rangeI] Step.prems(2) by blast
  qed
qed simp

lemma safeP_bind:
  "safeP valid holds guar (\<lambda>h x. safeP valid holds guar post (k x) h) p h \<Longrightarrow> safeP valid holds guar post (bindP p k) h"
proof (induction p arbitrary: h)
  case (Step f p)
  show ?case unfolding bindP.simps safeP.simps
  proof (intro allI impI)
    fix s assume "valid s \<and> holds h s"
    with Step.prems obtain h' where "valid (f s)" "holds h' (f s)" "guar h s h' (f s)"
      "safeP valid holds guar (\<lambda>h x. safeP valid holds guar post (k x) h) (p s) h'" by auto
    then show "\<exists>h'. valid (f s) \<and> holds h' (f s) \<and> guar h s h' (f s) \<and>
        safeP valid holds guar post (bindP (p s) k) h'"
      using Step.IH [OF rangeI] by blast
  qed
qed simp

lemma safeP_atomic:
  assumes "\<And>s r t. valid s \<Longrightarrow> holds h s \<Longrightarrow> m s = (r, t) \<Longrightarrow>
    \<exists>h'. valid t \<and> holds h' t \<and> guar h s h' t \<and> post h' r"
  shows "safeP valid holds guar post (atomic m) h"
  using assms by (simp add: atomic_def) (metis surjective_pairing)

locale exclusive =
  fixes valid :: "'s \<Rightarrow> bool"
    and holds :: "'h \<Rightarrow> 's \<Rightarrow> bool"
    and guar :: "'h \<Rightarrow> 's \<Rightarrow> 'h \<Rightarrow> 's \<Rightarrow> bool"
    and claimed :: "'h \<Rightarrow> 'r set"
    and busy :: "'s \<Rightarrow> 'r set"
    and later :: "'s \<Rightarrow> 's \<Rightarrow> bool"
  assumes holds_busy: "holds h s \<Longrightarrow> claimed h \<subseteq> busy s"
    and fresh: "valid s \<Longrightarrow> holds h s \<Longrightarrow> guar h s h' s' \<Longrightarrow> claimed h' \<inter> busy s \<subseteq> claimed h"
    and released: "valid s \<Longrightarrow> holds h s \<Longrightarrow> guar h s h' s' \<Longrightarrow> busy s' \<subseteq> busy s - claimed h \<union> claimed h'"
    and frame: "valid s \<Longrightarrow> holds h s \<Longrightarrow> guar h s h' s' \<Longrightarrow> holds g s \<Longrightarrow> claimed g \<inter> claimed h = {} \<Longrightarrow>
      claimed g \<inter> claimed h' = {} \<Longrightarrow> holds g s'"
    and later_refl: "later s s"
    and later_trans: "later s t \<Longrightarrow> later t u \<Longrightarrow> later s u"
    and advances: "valid s \<Longrightarrow> holds h s \<Longrightarrow> guar h s h' s' \<Longrightarrow> later s s'"
begin

text \<open>Every goroutine is safe with its claim, claims do not overlap, and every busy resource is claimed.\<close>

definition crew :: "(nat \<Rightarrow> 'h \<Rightarrow> 'a \<Rightarrow> bool) \<Rightarrow> 's \<times> ('s, 'a) prog list \<Rightarrow> bool" where
  "crew post c \<longleftrightarrow> (case c of (s, ts) \<Rightarrow> valid s \<and> (\<exists>hs. length hs = length ts \<and>
     (\<forall>i<length ts. holds (hs ! i) s \<and> safeP valid holds guar (post i) (ts ! i) (hs ! i)) \<and>
     (\<forall>i<length ts. \<forall>j<length ts. i \<noteq> j \<longrightarrow> claimed (hs ! i) \<inter> claimed (hs ! j) = {}) \<and>
     busy s \<subseteq> (\<Union>h\<in>set hs. claimed h)))"

lemma crew_step:
  assumes crew: "crew post (s, ts)" and step: "swarmStep (s, ts) c'"
  shows "crew post c' \<and> later s (fst c')"
proof -
  from crew obtain hs where valid: "valid s" and len: "length hs = length ts"
    and each: "\<And>i. i < length ts \<Longrightarrow> holds (hs ! i) s \<and> safeP valid holds guar (post i) (ts ! i) (hs ! i)"
    and apart: "\<And>i j. i < length ts \<Longrightarrow> j < length ts \<Longrightarrow> i \<noteq> j \<Longrightarrow> claimed (hs ! i) \<inter> claimed (hs ! j) = {}"
    and cover: "busy s \<subseteq> (\<Union>h\<in>set hs. claimed h)"
    unfolding crew_def by (simp, elim exE conjE) blast
  from step obtain i f p where i: "i < length ts" "ts ! i = Step f p" and c': "c' = (f s, ts[i := p s])"
    by (cases rule: swarmStepE) auto
  obtain h' where h': "valid (f s)" "holds h' (f s)" "guar (hs ! i) s h' (f s)" "safeP valid holds guar (post i) (p s) h'"
    using each [OF i(1)] i(2) valid by auto
  have hi: "holds (hs ! i) s" using each [OF i(1)] by simp
  have off: "claimed (hs ! j) \<inter> claimed h' = {}" if "j < length ts" "j \<noteq> i" for j
    using fresh [OF valid hi h'(3)] holds_busy [of "hs ! j" s] each [OF that(1)] apart [OF that(1) i(1) that(2)] by blast
  have keep: "holds (hs ! j) (f s)" if "j < length ts" "j \<noteq> i" for j
    using frame [OF valid hi h'(3)] each [OF that(1)] apart [OF that(1) i(1) that(2)] off [OF that] by blast
  let ?hs = "hs[i := h']"
  have "busy (f s) \<subseteq> (\<Union>h\<in>set ?hs. claimed h)"
  proof
    fix x assume "x \<in> busy (f s)"
    then consider "x \<in> claimed h'" | "x \<in> busy s" "x \<notin> claimed (hs ! i)" using released [OF valid hi h'(3)] by blast
    then show "x \<in> (\<Union>h\<in>set ?hs. claimed h)"
    proof cases
      case 1
      then show ?thesis using i(1) len set_update_memI [of i hs h'] by auto
    next
      case 2
      then obtain g where "g \<in> set hs" "x \<in> claimed g" using cover by blast
      then obtain j where "j < length hs" "x \<in> claimed (hs ! j)" by (metis in_set_conv_nth)
      with 2 have "j \<noteq> i" by blast
      then have same: "?hs ! j = hs ! j" by simp
      have "?hs ! j \<in> set ?hs" using \<open>j < length hs\<close> by (metis length_list_update nth_mem)
      then show ?thesis using \<open>x \<in> claimed (hs ! j)\<close> unfolding same by (rule UN_I)
    qed
  qed
  moreover have "\<forall>j<length ts. holds (?hs ! j) (f s) \<and> safeP valid holds guar (post j) (ts[i := p s] ! j) (?hs ! j)"
    using i(1) len h' each keep by (simp add: nth_list_update)
  moreover have "\<forall>a<length ts. \<forall>b<length ts. a \<noteq> b \<longrightarrow> claimed (?hs ! a) \<inter> claimed (?hs ! b) = {}"
    using i(1) len apart off by (auto simp: nth_list_update Int_commute)
  ultimately have "crew post c'" using h'(1) len unfolding crew_def c' by (auto intro!: exI [of _ ?hs])
  then show ?thesis using advances [OF valid hi h'(3)] c' by simp
qed

lemma crew_runs: "swarmRuns c c' \<Longrightarrow> crew post c \<Longrightarrow> crew post c' \<and> later (fst c) (fst c')"
proof (induction rule: rtranclp_induct)
  case base
  then show ?case by (simp add: later_refl)
next
  case (step d e)
  then show ?case using crew_step [of post "fst d" "snd d" e] later_trans by auto
qed

lemma crew_start:
  assumes "valid s" "busy s = {}" "holds h s" "claimed h = {}"
    "\<And>i. i < length ts \<Longrightarrow> safeP valid holds guar (post i) (ts ! i) h"
  shows "crew post (s, ts)"
  unfolding crew_def using assms by (auto intro!: exI [of _ "replicate (length ts) h"])

lemma crew_valid: "crew post (s, ts) \<Longrightarrow> valid s"
  by (simp add: crew_def)

text \<open>Whose claim is whose: the claims are held, do not overlap and are all that is busy.\<close>

lemma crew_hands:
  assumes "crew post (s, ts)"
  obtains hs where "length hs = length ts" "busy s = (\<Union>i<length ts. claimed (hs ! i))"
    "\<And>i. i < length ts \<Longrightarrow> holds (hs ! i) s" "\<And>i x. i < length ts \<Longrightarrow> ts ! i = Done x \<Longrightarrow> post i (hs ! i) x"
    "\<And>i j. i < length ts \<Longrightarrow> j < length ts \<Longrightarrow> i \<noteq> j \<Longrightarrow> claimed (hs ! i) \<inter> claimed (hs ! j) = {}"
proof -
  from assms obtain hs where len: "length hs = length ts"
    and each: "\<And>i. i < length ts \<Longrightarrow> holds (hs ! i) s \<and> safeP valid holds guar (post i) (ts ! i) (hs ! i)"
    and apart: "\<And>i j. i < length ts \<Longrightarrow> j < length ts \<Longrightarrow> i \<noteq> j \<Longrightarrow> claimed (hs ! i) \<inter> claimed (hs ! j) = {}"
    and cover: "busy s \<subseteq> (\<Union>h\<in>set hs. claimed h)"
    unfolding crew_def prod.case by (elim exE conjE) (rule that, blast+)
  have "set hs = (!) hs ` {..<length ts}" using len by (auto simp: set_conv_nth)
  then have hands: "(\<Union>h\<in>set hs. claimed h) = (\<Union>i<length ts. claimed (hs ! i))" by simp
  have all: "busy s = (\<Union>i<length ts. claimed (hs ! i))"
  proof (rule subset_antisym)
    show "busy s \<subseteq> (\<Union>i<length ts. claimed (hs ! i))" using cover unfolding hands .
    show "(\<Union>i<length ts. claimed (hs ! i)) \<subseteq> busy s" using holds_busy each by (intro UN_least) simp
  qed
  show ?thesis
  proof (rule that [OF len all])
    show "holds (hs ! i) s" if "i < length ts" for i using each [OF that] by simp
    show "post i (hs ! i) x" if "i < length ts" "ts ! i = Done x" for i x using each [OF that(1)] that(2) by simp
    show "claimed (hs ! i) \<inter> claimed (hs ! j) = {}" if "i < length ts" "j < length ts" "i \<noteq> j" for i j
      using apart that by simp
  qed
qed

lemma crew_post: "crew post (s, ts) \<Longrightarrow> i < length ts \<Longrightarrow> ts ! i = Done x \<Longrightarrow> \<exists>h. post i h x"
  unfolding crew_def by fastforce

lemma crew_finished:
  assumes crew: "crew post (s, map Done xs)" and post: "\<And>i h. i < length xs \<Longrightarrow> post i h (xs ! i) \<Longrightarrow> claimed h = {}"
  shows "busy s = {}"
proof -
  from crew obtain hs where hs: "length hs = length xs" "\<And>i. i < length xs \<Longrightarrow> post i (hs ! i) (xs ! i)"
    "busy s \<subseteq> (\<Union>h\<in>set hs. claimed h)"
    unfolding crew_def by auto
  have "claimed h = {}" if "h \<in> set hs" for h
    using that hs(1,2) post by (metis in_set_conv_nth)
  then show ?thesis using hs(3) by auto
qed

end

end
