(* ===== verification/Goroutine.thy ===== *)
theory Goroutine
  imports Threads
begin

text \<open>
  The code of one goroutine: an action on its local variables \<open>'l\<close> is a program on the shared state \<open>'s\<close> that
  returns a result or an error and the new variables. \<open>worksP\<close> are triples for such actions: whatever other
  goroutines do between two critical sections, from \<open>P\<close> every section is safe, and \<open>Q\<close> or, with an error, \<open>E\<close>
  holds of the variables and the claim at the end.
\<close>

section \<open>Actions\<close>

type_synonym ('s, 'l, 'e, 'a) localAct = "'l \<Rightarrow> ('s, ('e + 'a) \<times> 'l) prog"

definition retW :: "'a \<Rightarrow> ('s, 'l, 'e, 'a) localAct" where
  "retW x l = Done (Inr x, l)"

definition failW :: "'e \<Rightarrow> ('s, 'l, 'e, 'a) localAct" where
  "failW e l = Done (Inl e, l)"

definition bindW :: "('s, 'l, 'e, 'a) localAct \<Rightarrow> ('a \<Rightarrow> ('s, 'l, 'e, 'b) localAct) \<Rightarrow> ('s, 'l, 'e, 'b) localAct" where
  "bindW m f l = bindP (m l) (\<lambda>(r, l'). case r of Inl e \<Rightarrow> Done (Inl e, l') | Inr x \<Rightarrow> f x l')"

definition seqW :: "('s, 'l, 'e, 'a) localAct \<Rightarrow> ('s, 'l, 'e, 'b) localAct \<Rightarrow> ('s, 'l, 'e, 'b) localAct" where
  "seqW m n = bindW m (\<lambda>_. n)"

text \<open>A change of the local variables, a look at them, and a critical section.\<close>

definition setW :: "('l \<Rightarrow> 'l) \<Rightarrow> ('s, 'l, 'e, unit) localAct" where
  "setW f l = Done (Inr (), f l)"

definition getW :: "('l \<Rightarrow> ('s, 'l, 'e, 'a) localAct) \<Rightarrow> ('s, 'l, 'e, 'a) localAct" where
  "getW f l = f l l"

definition locked :: "('s \<Rightarrow> 'r \<times> 's) \<Rightarrow> ('s, 'l, 'e, 'r) localAct" where
  "locked m l = bindP (atomic m) (\<lambda>r. Done (Inr r, l))"

text \<open>An action, then another one when the first fails, before its error is returned.\<close>

definition onErrorW :: "('s, 'l, 'e, 'a) localAct \<Rightarrow> ('s, 'l, 'e, unit) localAct \<Rightarrow> ('s, 'l, 'e, 'a) localAct" where
  "onErrorW m n l = bindP (m l) (\<lambda>(r, l'). case r of Inr x \<Rightarrow> Done (Inr x, l') | Inl e \<Rightarrow> seqW n (failW e) l')"

text \<open>\<open>if err := ...; err != nil { return wrapped }\<close> of a pure call.\<close>

definition checkW :: "('f \<Rightarrow> 'e) \<Rightarrow> 'f + 'a \<Rightarrow> ('s, 'l, 'e, 'a) localAct" where
  "checkW wrap r l = Done (wrapErr wrap r, l)"

section \<open>Triples\<close>

fun postW :: "('a \<Rightarrow> 'l \<Rightarrow> 'h \<Rightarrow> bool) \<Rightarrow> ('e \<Rightarrow> 'l \<Rightarrow> 'h \<Rightarrow> bool) \<Rightarrow> 'h \<Rightarrow> ('e + 'a) \<times> 'l \<Rightarrow> bool" where
  "postW Q E h (Inr x, l) = Q x l h"
| "postW Q E h (Inl e, l) = E e l h"

lemma res_cases [case_names Inl Inr]:
  "(\<And>e l. y = (Inl e, l) \<Longrightarrow> P) \<Longrightarrow> (\<And>x l. y = (Inr x, l) \<Longrightarrow> P) \<Longrightarrow> P"
  by (metis prod.exhaust sum.exhaust)

definition worksP :: "('s \<Rightarrow> bool) \<Rightarrow> ('h \<Rightarrow> 's \<Rightarrow> bool) \<Rightarrow> ('h \<Rightarrow> 's \<Rightarrow> 'h \<Rightarrow> 's \<Rightarrow> bool) \<Rightarrow> ('l \<Rightarrow> 'h \<Rightarrow> bool) \<Rightarrow>
    ('s, 'l, 'e, 'a) localAct \<Rightarrow> ('a \<Rightarrow> 'l \<Rightarrow> 'h \<Rightarrow> bool) \<Rightarrow> ('e \<Rightarrow> 'l \<Rightarrow> 'h \<Rightarrow> bool) \<Rightarrow> bool" where
  "worksP valid holds guar P m Q E \<longleftrightarrow> (\<forall>l h. P l h \<longrightarrow>
     safeP valid holds guar (postW Q E) (m l) h)"

lemma worksP_conseq:
  assumes "worksP valid holds guar P m Q E" "\<And>l h. P' l h \<Longrightarrow> P l h" "\<And>x l h. Q x l h \<Longrightarrow> Q' x l h" "\<And>e l h. E e l h \<Longrightarrow> E' e l h"
  shows "worksP valid holds guar P' m Q' E'"
  unfolding worksP_def
proof (intro allI impI)
  fix l h assume "P' l h"
  then have "safeP valid holds guar (postW Q E) (m l) h"
    using assms(1,2) by (simp add: worksP_def)
  then show "safeP valid holds guar (postW Q' E') (m l) h"
  proof (rule safeP_mono)
    fix h x assume "postW Q E h x"
    then show "postW Q' E' h x" using assms(3,4) by (cases x rule: res_cases) simp_all
  qed
qed

lemma worksP_ret: "(\<And>l h. P l h \<Longrightarrow> Q x l h) \<Longrightarrow> worksP valid holds guar P (retW x) Q E"
  by (simp add: worksP_def retW_def)

lemma worksP_fail: "(\<And>l h. P l h \<Longrightarrow> E e l h) \<Longrightarrow> worksP valid holds guar P (failW e) Q E"
  by (simp add: worksP_def failW_def)

lemma worksP_set: "(\<And>l h. P l h \<Longrightarrow> Q () (f l) h) \<Longrightarrow> worksP valid holds guar P (setW f) Q E"
  by (simp add: worksP_def setW_def)

lemma worksP_check: "(\<And>x l h. r = Inr x \<Longrightarrow> P l h \<Longrightarrow> Q x l h) \<Longrightarrow> (\<And>e l h. P l h \<Longrightarrow> E (wrap e) l h) \<Longrightarrow>
    worksP valid holds guar P (checkW wrap r) Q E"
  by (cases r) (simp_all add: worksP_def checkW_def)

lemma worksP_get: "(\<And>l0 h0. P l0 h0 \<Longrightarrow> worksP valid holds guar (\<lambda>l h. l = l0 \<and> h = h0) (f l0) Q E) \<Longrightarrow> worksP valid holds guar P (getW f) Q E"
  by (simp add: worksP_def getW_def)

lemma worksP_bind:
  assumes "worksP valid holds guar P m R E" "\<And>x. worksP valid holds guar (R x) (f x) Q E"
  shows "worksP valid holds guar P (bindW m f) Q E"
  unfolding worksP_def bindW_def
proof (intro allI impI safeP_bind)
  fix l h assume "P l h"
  then have "safeP valid holds guar (postW R E) (m l) h"
    using assms(1) by (simp add: worksP_def)
  then show "safeP valid holds guar (\<lambda>h' y. safeP valid holds guar
      (postW Q E)
      (case y of (r, l') \<Rightarrow> case r of Inl e \<Rightarrow> Done (Inl e, l') | Inr x \<Rightarrow> f x l') h') (m l) h"
  proof (rule safeP_mono)
    fix h y assume "postW R E h y"
    then show "safeP valid holds guar (postW Q E)
        (case y of (r, l') \<Rightarrow> case r of Inl e \<Rightarrow> Done (Inl e, l') | Inr x \<Rightarrow> f x l') h"
      using assms(2) by (cases y rule: res_cases) (simp_all add: worksP_def)
  qed
qed

lemma worksP_seq: "worksP valid holds guar P m (\<lambda>_. R) E \<Longrightarrow> worksP valid holds guar R n Q E \<Longrightarrow> worksP valid holds guar P (seqW m n) Q E"
  unfolding seqW_def by (rule worksP_bind)

lemma worksP_onError:
  assumes "worksP valid holds guar P m Q F" "\<And>e. worksP valid holds guar (F e) n (\<lambda>_. E e) E"
  shows "worksP valid holds guar P (onErrorW m n) Q E"
  unfolding worksP_def onErrorW_def
proof (intro allI impI safeP_bind)
  fix l h assume "P l h"
  then have "safeP valid holds guar (postW Q F) (m l) h"
    using assms(1) by (simp add: worksP_def)
  moreover have "worksP valid holds guar (F e) (seqW n (failW e)) Q E" for e
    by (rule worksP_seq [OF assms(2)]) (simp add: worksP_fail)
  ultimately show "safeP valid holds guar (\<lambda>h' y. safeP valid holds guar
      (postW Q E)
      (case y of (r, l') \<Rightarrow> case r of Inr x \<Rightarrow> Done (Inr x, l') | Inl e \<Rightarrow> seqW n (failW e) l') h') (m l) h"
    by (elim safeP_mono, rename_tac h y, case_tac y rule: res_cases) (simp_all add: worksP_def)
qed

lemma worksP_locked:
  assumes "\<And>l h w r w'. P l h \<Longrightarrow> valid w \<Longrightarrow> holds h w \<Longrightarrow> m w = (r, w') \<Longrightarrow>
    \<exists>h'. valid w' \<and> holds h' w' \<and> guar h w h' w' \<and> Q r l h'"
  shows "worksP valid holds guar P (locked m) Q E"
  unfolding worksP_def locked_def
  by (intro allI impI safeP_bind safeP_atomic) (use assms in \<open>auto simp: worksP_def\<close>)

lemma worksP_if: "worksP valid holds guar P m Q E \<Longrightarrow> worksP valid holds guar P n Q E \<Longrightarrow> worksP valid holds guar P (if c then m else n) Q E"
  by simp

end
