(* ===== verification/Worker.thy ===== *)
theory Worker
  imports Pieces PeerClient Goroutine
begin

text \<open>
  \<open>internal/download/worker.go\<close>: one worker downloads pieces from one peer. The variables of \<open>RunClient\<close> are
  the record \<open>worker\<close>; every call of a manager operation that takes the lock is one critical section of a
  program (\<open>locked\<close>), so that workers interleave there and nowhere else, and \<open>CompletePiece\<close> is three of
  them. What the \<open>select\<close> finds is a list of \<open>workerEvent\<close>s: an event that is not ready leaves the worker in
  the \<open>select\<close>. A worker whose list ends is still waiting there. The timer is the duration it was armed
  with, the calls of \<open>OnProgress\<close> are recorded in \<open>reports\<close>.
\<close>

section \<open>State\<close>

definition BlockSize :: int where "BlockSize = 16 * 1024"

definition DefaultBlockTimeout :: int where "DefaultBlockTimeout = 30 * second"

record WorkerOptions =
  OptClientConfig :: ClientConfig
  BlockTimeout :: int
  OnProgress :: bool

datatype workerError =
    ConnectFailed clientError
  | NilDependency
  | SendInterested clientError
  | CannotRequest
  | NoRemainingData
  | RequestFailed int int clientError
  | ContextDone
  | BlockTimedOut int
  | ReadPeerMessage readEvent
  | InvalidBitfield bitfieldError
  | MessageFailed messageError
  | HaveFailed bitfieldError
  | UnexpectedBlock int int int
  | CompleteFailed int managerError
  | EndOfStream
  | WorkerPanics

record worker =
  client :: Client
  options :: WorkerOptions
  unchoked :: bool
  currentPiece :: "Piece option"
  received :: bytes
  expectedBegin :: int
  expectedLength :: int
  peerBitfield :: "bool list"
  blockDeadline :: "int option"
  messagesOpen :: bool
  errorsOpen :: bool
  cancelled :: bool
  watching :: nat
  reports :: "(int \<times> int) list"

text \<open>\<open>Cancelled\<close> is the cancellation of the context, \<open>ContextReady\<close> the case of the \<open>select\<close>.\<close>

datatype workerEvent =
    Cancelled
  | ContextReady
  | DeadlineReady
  | UpdatesReady
  | ErrorReady readEvent
  | ErrorsClosed
  | MessageReady Message
  | MessagesClosed

datatype outcome = Waiting | Returned

section \<open>Actions of a worker\<close>

type_synonym 'a workerAct = "(world, worker, workerError, 'a) localAct"

definition liftW :: "(managerError \<Rightarrow> workerError) \<Rightarrow> (world, managerError + 'a) prog \<Rightarrow> 'a workerAct" where
  "liftW wrap p l = bindP p (\<lambda>r. Done (wrapErr wrap r, l))"

text \<open>\<open>client.WriteMessage\<close>.\<close>

definition writeW :: "(clientError \<Rightarrow> workerError) \<Rightarrow> Message \<Rightarrow> unit workerAct" where
  "writeW wrap message l =
     (case WriteMessage message (Conn (client l)) of (r, c) \<Rightarrow>
       Done (wrapErr wrap r, l\<lparr>client := (client l)\<lparr>Conn := c\<rparr>\<rparr>))"

section \<open>The piece manager, one critical section at a time\<close>

definition onMgrP :: "(PieceManager \<Rightarrow> PieceManager) \<Rightarrow> (world, unit) prog" where
  "onMgrP f = atomic (\<lambda>w. ((), w\<lparr>mgr := f (mgr w)\<rparr>))"

definition readMgr :: "(PieceManager \<Rightarrow> 'a) \<Rightarrow> 'a workerAct" where
  "readMgr f = locked (\<lambda>w. (f (mgr w), w))"

definition failSteps :: "int \<Rightarrow> managerError \<Rightarrow> (world, managerError + unit) prog" where
  "failSteps index e = bindP (onMgrP (resetAfterFailure index)) (\<lambda>_. Done (Inl e))"

definition writeSection :: "int \<Rightarrow> bytes \<Rightarrow> unit managerAct" where
  "writeSection index d w = onDisk StorageFailed (WritePiece (storage (mgr w)) index (standardPieceLength (mgr w)) d) w"

definition completeSteps :: "int \<Rightarrow> bytes \<Rightarrow> (world, managerError + unit) prog" where
  "completeSteps index d =
     bindP (atomic (beginComplete index)) (\<lambda>r. case r of
       Inl e \<Rightarrow> Done (Inl e)
     | Inr (wantedLength, wantedHash) \<Rightarrow>
         if int (length d) \<noteq> wantedLength
           then failSteps index (PieceLengthMismatch index (int (length d)) wantedLength)
         else if sha1 d \<noteq> wantedHash then failSteps index HashVerificationFailed
         else bindP (atomic (writeSection index d)) (\<lambda>r. case r of
             Inl e \<Rightarrow> failSteps index e
           | Inr _ \<Rightarrow> atomic (publish index)))"

text \<open>Alone, the three sections are \<open>CompletePiece\<close>.\<close>

lemma runP_completeSteps: "runP (completeSteps index d) w = CompletePiece index d w"
proof -
  have fail: "runP (failSteps index e) v = failPiece index e v" for e v
    by (simp add: failSteps_def onMgrP_def failPiece_def act_eval onMgr_def)
  show ?thesis
    by (simp add: completeSteps_def CompletePiece_def bindA_def finishComplete_def catchA_def fail writeSection_def
        split: prod.splits sum.splits)
qed

section \<open>Helpers of \<open>RunClient\<close>\<close>

definition minInt :: "int \<Rightarrow> int \<Rightarrow> int" where
  "minInt a b = (if a < b then a else b)"

definition stopBlockTimer :: "unit workerAct" where
  "stopBlockTimer = setW (\<lambda>l. l\<lparr>blockDeadline := None\<rparr>)"

definition resetBlockTimer :: "unit workerAct" where
  "resetBlockTimer =
     seqW stopBlockTimer (setW (\<lambda>l. l\<lparr>blockDeadline := Some (BlockTimeout (options l))\<rparr>))"

definition clearCurrent :: "unit workerAct" where
  "clearCurrent = seqW (setW (\<lambda>l. l\<lparr>currentPiece := None, received := [], expectedBegin := 0, expectedLength := 0\<rparr>))
     stopBlockTimer"

definition releaseCurrent :: "unit workerAct" where
  "releaseCurrent = getW (\<lambda>l. case currentPiece l of
     None \<Rightarrow> clearCurrent
   | Some p \<Rightarrow> seqW (locked (\<lambda>w. ((), w\<lparr>mgr := MarkFailed (Index p) (mgr w)\<rparr>))) clearCurrent)"

definition requestBlock :: "unit workerAct" where
  "requestBlock = getW (\<lambda>l. case currentPiece l of
     None \<Rightarrow> failW CannotRequest
   | Some p \<Rightarrow>
      let start = int (length (received l)); remaining = pieceLen p - start; len = minInt BlockSize remaining in
      seqW (setW (\<lambda>l. l\<lparr>expectedBegin := start\<rparr>))
        (if remaining \<le> 0 then failW NoRemainingData
         else seqW (setW (\<lambda>l. l\<lparr>expectedLength := len\<rparr>))
           (seqW (writeW (RequestFailed (Index p) start) (NewRequest (Index p) start len))
             resetBlockTimer)))"

definition requestNextPiece :: "unit workerAct" where
  "requestNextPiece = getW (\<lambda>l.
     if \<not> unchoked l \<or> currentPiece l \<noteq> None then retW ()
     else bindW (locked (\<lambda>w. case NextPieceForPeer (peerBitfield l) (mgr w) of (p, pm) \<Rightarrow> (p, w\<lparr>mgr := pm\<rparr>)))
       (\<lambda>p. seqW (setW (\<lambda>l. l\<lparr>currentPiece := p\<rparr>))
         (case p of
            None \<Rightarrow> retW ()
          | Some piece \<Rightarrow>
              if pieceLen piece < 0 then failW WorkerPanics
              else seqW (setW (\<lambda>l. l\<lparr>received := []\<rparr>)) (onErrorW requestBlock releaseCurrent))))"

section \<open>Events\<close>

text \<open>A handler says whether the loop goes on; an error is returned.\<close>

definition completeCurrent :: "int \<Rightarrow> bytes \<Rightarrow> bool workerAct" where
  "completeCurrent pieceIndex d =
     seqW (setW (\<lambda>l. l\<lparr>currentPiece := None, received := []\<rparr>))
      (seqW (liftW (CompleteFailed pieceIndex) (completeSteps pieceIndex d))
        (bindW (readMgr Progress) (\<lambda>progress.
          seqW (setW (\<lambda>l. if OnProgress (options l) then l\<lparr>reports := reports l @ [progress]\<rparr> else l))
            (bindW (readMgr IsComplete) (\<lambda>complete.
              if complete then retW False else seqW requestNextPiece (retW True))))))"

definition pieceMessage :: "bytes \<Rightarrow> bool workerAct" where
  "pieceMessage payload =
     bindW (checkW MessageFailed (ParsePiece payload)) (\<lambda>(index, start, block). getW (\<lambda>l.
       case currentPiece l of
         None \<Rightarrow> retW True
       | Some p \<Rightarrow>
          if index \<noteq> Index p then retW True
          else if start \<noteq> expectedBegin l \<or> int (length block) \<noteq> expectedLength l \<or>
              int (length (received l) + length block) > pieceLen p
            then seqW releaseCurrent (failW (UnexpectedBlock index start (int (length block))))
          else seqW stopBlockTimer (seqW (setW (\<lambda>l. l\<lparr>received := received l @ block\<rparr>))
            (if int (length (received l @ block)) < pieceLen p
             then seqW (onErrorW requestBlock releaseCurrent) (retW True)
             else completeCurrent (Index p) (received l @ block)))))"

definition handleMessage :: "int \<Rightarrow> Message \<Rightarrow> bool workerAct" where
  "handleMessage pieceTotal message =
     (case ID message of
        None \<Rightarrow> retW True
      | Some i \<Rightarrow>
         if i = MsgBitfield then
           bindW (checkW InvalidBitfield (ParseBitfield (Payload message) pieceTotal)) (\<lambda>parsed.
             seqW (setW (\<lambda>l. l\<lparr>peerBitfield := parsed\<rparr>)) (seqW requestNextPiece (retW True)))
         else if i = MsgHave then
           bindW (checkW MessageFailed (ParseHave (Payload message))) (\<lambda>index. getW (\<lambda>l.
             bindW (checkW HaveFailed (SetPiece (Some (peerBitfield l)) index)) (\<lambda>bits.
               seqW (setW (\<lambda>l. l\<lparr>peerBitfield := bits\<rparr>)) (seqW requestNextPiece (retW True)))))
         else if i = MsgChoke then
           seqW (setW (\<lambda>l. l\<lparr>unchoked := False\<rparr>)) (seqW releaseCurrent (retW True))
         else if i = MsgUnchoke then
           seqW (setW (\<lambda>l. l\<lparr>unchoked := True\<rparr>)) (seqW requestNextPiece (retW True))
         else if i = MsgPiece then pieceMessage (Payload message)
         else retW True)"

text \<open>
  What one event does: \<open>None\<close> when no case of the \<open>select\<close> was ready for it, otherwise whether the loop
  goes on.
\<close>

definition handleEvent :: "int \<Rightarrow> workerEvent \<Rightarrow> bool option workerAct" where
  "handleEvent pieceTotal event = getW (\<lambda>l.
     let ready = (\<lambda>m. bindW m (\<lambda>continue. retW (Some continue))) in
     case event of
       Cancelled \<Rightarrow> seqW (setW (\<lambda>l. l\<lparr>cancelled := True\<rparr>)) (retW None)
     | ContextReady \<Rightarrow> if cancelled l then failW ContextDone else retW None
     | DeadlineReady \<Rightarrow>
         (case blockDeadline l of
            None \<Rightarrow> retW None
          | Some _ \<Rightarrow>
             (case currentPiece l of
                None \<Rightarrow> failW WorkerPanics
              | Some p \<Rightarrow> seqW releaseCurrent (failW (BlockTimedOut (Index p)))))
     | UpdatesReady \<Rightarrow>
         bindW (readMgr Updates) (\<lambda>now.
           if now = watching l then retW None
           else ready (bindW (readMgr IsComplete) (\<lambda>complete.
             if complete then retW False else seqW requestNextPiece (retW True))))
     | ErrorReady e \<Rightarrow>
         if \<not> errorsOpen l then retW None
         else if cancelled l then failW ContextDone else failW (ReadPeerMessage e)
     | ErrorsClosed \<Rightarrow>
         if \<not> errorsOpen l then retW None
         else ready (seqW (setW (\<lambda>l. l\<lparr>errorsOpen := False\<rparr>)) (retW True))
     | MessageReady message \<Rightarrow>
         if \<not> messagesOpen l then retW None else ready (handleMessage pieceTotal message)
     | MessagesClosed \<Rightarrow>
         if \<not> messagesOpen l then retW None
         else ready (seqW (setW (\<lambda>l. l\<lparr>messagesOpen := False\<rparr>)) (retW True)))"

text \<open>The head of the loop: its condition, \<open>Updates\<close>, and what follows the loop.\<close>

definition loopHead :: "outcome workerAct" where
  "loopHead = getW (\<lambda>l.
     if messagesOpen l \<or> errorsOpen l
     then bindW (readMgr Updates) (\<lambda>u. seqW (setW (\<lambda>l. l\<lparr>watching := u\<rparr>)) (retW Waiting))
     else bindW (readMgr IsComplete) (\<lambda>complete.
       if complete then retW Returned else if cancelled l then failW ContextDone else failW EndOfStream))"

primrec workerLoop :: "int \<Rightarrow> workerEvent list \<Rightarrow> outcome workerAct" where
  "workerLoop pieceTotal [] = retW Waiting"
| "workerLoop pieceTotal (e # es) =
     bindW (handleEvent pieceTotal e) (\<lambda>r. case r of
       None \<Rightarrow> workerLoop pieceTotal es
     | Some False \<Rightarrow> retW Returned
     | Some True \<Rightarrow> bindW loopHead (\<lambda>out. case out of
         Returned \<Rightarrow> retW Returned | Waiting \<Rightarrow> workerLoop pieceTotal es))"

section \<open>\<open>RunClient\<close>\<close>

definition withBlockTimeout :: "WorkerOptions \<Rightarrow> WorkerOptions" where
  "withBlockTimeout opts = (if BlockTimeout opts \<le> 0 then opts\<lparr>BlockTimeout := DefaultBlockTimeout\<rparr> else opts)"

definition newWorker :: "Client \<Rightarrow> WorkerOptions \<Rightarrow> int \<Rightarrow> worker" where
  "newWorker cl opts pieceTotal =
     \<lparr>client = cl, options = withBlockTimeout opts, unchoked = False, currentPiece = None, received = [],
      expectedBegin = 0, expectedLength = 0, peerBitfield = NewBitfield pieceTotal, blockDeadline = None,
      messagesOpen = True, errorsOpen = True, cancelled = False, watching = 0, reports = []\<rparr>"

text \<open>The deferred calls, in the order in which they run, unless the worker still waits.\<close>

definition closeWorker :: "worker \<Rightarrow> worker" where
  "closeWorker l = l\<lparr>client := CloseClient (client l)\<rparr>"

definition finishLoop :: "(workerError + outcome) \<times> worker \<Rightarrow> (world, (workerError + outcome) \<times> worker) prog" where
  "finishLoop rl =
     (case rl of (r, l) \<Rightarrow>
        if r = Inr Waiting then Done (r, l)
        else bindP (releaseCurrent l) (\<lambda>(_, l'). Done (r, closeWorker l')))"

definition RunClient :: "Client option \<Rightarrow> TorrentMeta option \<Rightarrow> WorkerOptions \<Rightarrow> workerEvent list \<Rightarrow>
    (world, (workerError + outcome) \<times> worker option) prog" where
  "RunClient clientPtr metaPtr opts events =
     (case (clientPtr, metaPtr) of
        (Some cl, Some meta) \<Rightarrow>
          let pieceTotal = int (length (Pieces meta)); l = newWorker cl opts pieceTotal in
          bindP (writeW SendInterested NewInterested l) (\<lambda>(r, l). case r of
            Inl e \<Rightarrow> Done (Inl e, Some (closeWorker l))
          | Inr _ \<Rightarrow>
              bindP (bindW loopHead (\<lambda>_. workerLoop pieceTotal events) l) (\<lambda>rl.
                bindP (finishLoop rl) (\<lambda>(r, l). Done (r, Some l))))
      | _ \<Rightarrow> Done (Inl NilDependency, None))"

definition StartWorker :: "(bytes \<Rightarrow> int \<Rightarrow> clientError + conn) \<Rightarrow> PeerAddress \<Rightarrow> TorrentMeta \<Rightarrow> bytes \<Rightarrow> WorkerOptions \<Rightarrow>
    workerEvent list \<Rightarrow> (world, (workerError + outcome) \<times> worker option) prog" where
  "StartWorker dial address meta peerID opts events =
     (case ConnectContext dial address (InfoHash meta) peerID (OptClientConfig opts) of
        Inl e \<Rightarrow> Done (Inl (ConnectFailed e), None)
      | Inr cl \<Rightarrow> RunClient (Some cl) (Some meta) opts events)"

end
