(* ===== verification/Claims.thy ===== *)
theory Claims
  imports Worker PiecesSpec
begin

text \<open>
  Who works on which piece. A worker claims at most one piece, and a claim says how far the piece is:
  reserved, being verified, or verified and on the disk. The critical sections of the piece manager respect
  these claims; the interpretation \<open>swarm\<close> of the locale \<open>exclusive\<close> gives every interleaving of them.
\<close>

section \<open>Claims\<close>

datatype claim = Idle | Fetching nat | Checking nat | Stored nat

fun claimed :: "claim \<Rightarrow> nat set" where
  "claimed Idle = {}"
| "claimed (Fetching i) = {i}"
| "claimed (Checking i) = {i}"
| "claimed (Stored i) = {i}"

definition busy :: "world \<Rightarrow> nat set" where
  "busy w = {i. i < numPieces (mgr w) \<and> stateAt (mgr w) i \<in> {PieceDownloading, PieceVerifying}}"

fun holdsClaim :: "claim \<Rightarrow> world \<Rightarrow> bool" where
  "holdsClaim Idle w \<longleftrightarrow> True"
| "holdsClaim (Fetching i) w \<longleftrightarrow> i < numPieces (mgr w) \<and> stateAt (mgr w) i = PieceDownloading"
| "holdsClaim (Checking i) w \<longleftrightarrow> i < numPieces (mgr w) \<and> stateAt (mgr w) i = PieceVerifying"
| "holdsClaim (Stored i) w \<longleftrightarrow> i < numPieces (mgr w) \<and> stateAt (mgr w) i = PieceVerifying \<and>
     sha1 (pieceData w i) = Hash (pieces (mgr w) ! i)"

type_synonym layout = "Piece list \<times> Storage \<times> int"

definition pieceInv :: "layout \<Rightarrow> world \<Rightarrow> bool" where
  "pieceInv L w \<longleftrightarrow> managerInv w \<and> layout (mgr w) = L"

definition guar :: "claim \<Rightarrow> world \<Rightarrow> claim \<Rightarrow> world \<Rightarrow> bool" where
  "guar h w h' w' \<longleftrightarrow> layout (mgr w') = layout (mgr w) \<and>
     (\<forall>j<numPieces (mgr w). j \<notin> claimed h \<union> claimed h' \<longrightarrow>
        stateAt (mgr w') j = stateAt (mgr w) j \<and> pieceData w' j = pieceData w j) \<and>
     (\<forall>j\<in>claimed h' - claimed h. stateAt (mgr w) j = PieceMissing) \<and>
     (\<forall>j\<in>claimed h - claimed h'. stateAt (mgr w') j \<in> {PieceMissing, PieceComplete})"

text \<open>What is complete stays complete, with the same bytes.\<close>

definition later :: "world \<Rightarrow> world \<Rightarrow> bool" where
  "later w w' \<longleftrightarrow> layout (mgr w') = layout (mgr w) \<and>
     (\<forall>j<numPieces (mgr w). stateAt (mgr w) j = PieceComplete \<longrightarrow>
        stateAt (mgr w') j = PieceComplete \<and> pieceData w' j = pieceData w j)"

lemma holdsClaim_busy: "holdsClaim h w \<Longrightarrow> claimed h \<subseteq> busy w"
  by (cases h) (auto simp: busy_def)

lemma claimed_one: "a \<in> claimed h \<Longrightarrow> b \<in> claimed h \<Longrightarrow> a = b"
  by (cases h) auto

lemma guar_num: "guar h w h' w' \<Longrightarrow> numPieces (mgr w') = numPieces (mgr w)"
  by (rule layout_eq(3)) (simp add: guar_def)

lemma claimed_holds: "j \<in> claimed h \<Longrightarrow> holdsClaim h w \<Longrightarrow> j < numPieces (mgr w) \<and>
    stateAt (mgr w) j \<in> {PieceDownloading, PieceVerifying}"
  by (cases h) auto

lemma guar_frame:
  assumes g: "guar h w h' w'" and c: "holdsClaim c w" "claimed c \<inter> claimed h = {}" "claimed c \<inter> claimed h' = {}"
  shows "holdsClaim c w'"
proof -
  have "stateAt (mgr w') j = stateAt (mgr w) j \<and> pieceData w' j = pieceData w j \<and> j < numPieces (mgr w) \<and>
      Hash (pieces (mgr w') ! j) = Hash (pieces (mgr w) ! j)" if "j \<in> claimed c" for j
  proof -
    have j: "j < numPieces (mgr w)" using claimed_holds [OF that c(1)] by simp
    moreover have "layout (mgr w') = layout (mgr w)" using g by (simp add: guar_def)
    ultimately have "Hash (pieces (mgr w') ! j) = Hash (pieces (mgr w) ! j)" using layout_eq(3,7) by metis
    with g c(2,3) that j show ?thesis by (auto simp: guar_def)
  qed
  note same = this guar_num [OF g]
  show ?thesis
  proof (cases c)
    case (Fetching i)
    then show ?thesis using same(1) [of i] same(2) c(1) by simp
  next
    case (Checking i)
    then show ?thesis using same(1) [of i] same(2) c(1) by simp
  next
    case (Stored i)
    then show ?thesis using same(1) [of i] same(2) c(1) by simp
  qed simp
qed

lemma guar_later:
  assumes "holdsClaim h w" "guar h w h' w'"
  shows "later w w'"
proof -
  have "stateAt (mgr w') j = PieceComplete \<and> pieceData w' j = pieceData w j"
    if j: "j < numPieces (mgr w)" "stateAt (mgr w) j = PieceComplete" for j
  proof -
    have "j \<notin> claimed h" using claimed_holds [of j h w] assms(1) j(2) by auto
    moreover have "j \<notin> claimed h'" using assms(2) j(2) \<open>j \<notin> claimed h\<close> by (auto simp: guar_def)
    ultimately show ?thesis using assms(2) j by (simp add: guar_def)
  qed
  then show ?thesis using assms(2) by (simp add: later_def guar_def)
qed

lemma later_later: "later u v \<Longrightarrow> later v w \<Longrightarrow> later u w"
  using layout_eq(3) [of "mgr v" "mgr u"] by (auto simp: later_def)

interpretation swarm: exclusive "pieceInv L" holdsClaim guar claimed busy later
proof
  show "claimed h \<subseteq> busy s" if "holdsClaim h s" for h s using that by (rule holdsClaim_busy)
  show "claimed h' \<inter> busy s \<subseteq> claimed h" if "guar h s h' s'" for h h' s s'
  proof
    fix x assume "x \<in> claimed h' \<inter> busy s"
    then have x: "x \<in> claimed h'" "stateAt (mgr s) x \<noteq> PieceMissing" by (auto simp: busy_def)
    have "\<forall>j\<in>claimed h' - claimed h. stateAt (mgr s) j = PieceMissing" using that by (simp add: guar_def)
    then show "x \<in> claimed h" using x by blast
  qed
  show "busy s' \<subseteq> busy s - claimed h \<union> claimed h'" if "guar h s h' s'" for h h' s s'
  proof
    fix x assume "x \<in> busy s'"
    then have x: "x < numPieces (mgr s)" "stateAt (mgr s') x \<in> {PieceDownloading, PieceVerifying}"
      using guar_num [OF that] by (auto simp: busy_def)
    have "\<forall>j\<in>claimed h - claimed h'. stateAt (mgr s') j \<in> {PieceMissing, PieceComplete}"
      "x \<notin> claimed h \<union> claimed h' \<longrightarrow> stateAt (mgr s') x = stateAt (mgr s) x"
      using that x(1) by (auto simp: guar_def)
    moreover have "x \<notin> claimed h - claimed h'" using x(2) calculation(1) by force
    ultimately show "x \<in> busy s - claimed h \<union> claimed h'" using x by (auto simp: busy_def)
  qed
  show "later s s" for s by (simp add: later_def)
qed (blast intro: guar_frame guar_later later_later)+

section \<open>The critical sections\<close>

text \<open>A section that touches one piece, the one claimed before or after.\<close>

lemma guar_only:
  assumes "onlyPiece i w w'" "claimed h \<union> claimed h' = {i}"
    "i \<notin> claimed h \<Longrightarrow> stateAt (mgr w) i = PieceMissing"
    "i \<notin> claimed h' \<Longrightarrow> stateAt (mgr w') i \<in> {PieceMissing, PieceComplete}"
  shows "guar h w h' w'"
  unfolding guar_def
proof (intro conjI ballI allI impI)
  show "stateAt (mgr w) j = PieceMissing" if "j \<in> claimed h' - claimed h" for j using that assms(2,3) by auto
  show "stateAt (mgr w') j \<in> {PieceMissing, PieceComplete}" if "j \<in> claimed h - claimed h'" for j
  proof -
    have "j = i" using that assms(2) by blast
    then show ?thesis using that assms(4) by blast
  qed
qed (use assms(1,2) in \<open>auto simp: onlyPiece_def\<close>)

lemma guar_refl: "guar h w h w"
  by (simp add: guar_def)

lemma section_state:
  assumes inv: "pieceInv L w" and i: "i < numPieces (mgr w)" and st: "st \<noteq> PieceComplete \<or>
      sha1 (pieceData w i) = Hash (pieces (mgr w) ! i)"
    and w': "w' = w\<lparr>mgr := setPieceState i st (mgr w)\<rparr> \<or> w' = w\<lparr>mgr := notifyLocked (setPieceState i st (mgr w))\<rparr>"
  shows "pieceInv L w'" "onlyPiece i w w'" "stateAt (mgr w') i = st" "i < numPieces (mgr w')"
proof -
  have m: "managerInv w" "layout (mgr w) = L" using inv by (auto simp: pieceInv_def)
  show only: "onlyPiece i w w'" using onlyPiece_set [OF m(1) i] w' by auto
  show state: "stateAt (mgr w') i = st" using w' setPieceState_state [OF i] by auto
  have lay: "layout (mgr w') = layout (mgr w)" using w' by auto
  show "i < numPieces (mgr w')" using layout_eq(3) [OF lay] i by simp
  have "pieceData w' i = pieceData w i"
    using i layout_eq(1,3) [OF lay] w' by (intro pieceData_layout) (auto simp: lay)
  then have "managerInv w'" using st state by (intro managerInv_onlyPiece [OF m(1) only]) auto
  then show "pieceInv L w'" using lay m(2) by (simp add: pieceInv_def)
qed

lemma section_take:
  assumes inv: "pieceInv L w" and run: "NextPieceForPeer bf (mgr w) = (r, pm)"
  shows "case r of None \<Rightarrow> pm = mgr w
    | Some p \<Rightarrow> \<exists>i. p = fst L ! i \<and> i < length (fst L) \<and> Index p = int i \<and> pieceInv L (w\<lparr>mgr := pm\<rparr>) \<and>
        holdsClaim (Fetching i) (w\<lparr>mgr := pm\<rparr>) \<and> guar Idle w (Fetching i) (w\<lparr>mgr := pm\<rparr>)"
  using NextPieceForPeer_cases [of bf "mgr w"]
proof (elim disjE exE conjE)
  fix k assume k: "k < numPieces (mgr w)" "available bf (pieces (mgr w) ! k)"
    "NextPieceForPeer bf (mgr w) = (Some (Piece.truncate (pieces (mgr w) ! k)), setPieceState k PieceDownloading (mgr w))"
  let ?w = "w\<lparr>mgr := pm\<rparr>"
  have r: "r = Some (Piece.truncate (pieces (mgr w) ! k))" "?w = w\<lparr>mgr := setPieceState k PieceDownloading (mgr w)\<rparr>"
    using k(3) run by auto
  note s = section_state [OF inv k(1), of PieceDownloading ?w]
  have L: "fst L = map Piece.truncate (pieces (mgr w))" using inv by (auto simp: pieceInv_def layout_def)
  have "geometry (mgr w)" using inv by (simp add: pieceInv_def managerInv_def)
  then have "Index (pieces (mgr w) ! k) = int k" using k(1) by (simp add: geometry_def)
  then have "Index (Piece.truncate (pieces (mgr w) ! k)) = int k" by (simp add: Piece.defs)
  moreover have "stateAt (mgr w) k = PieceMissing" using k(2) by (simp add: available_def stateAt_def)
  ultimately show ?thesis using s r k(1) L
    by (auto intro!: exI [of _ k] guar_only [of k] simp: numPieces_def)
qed (use run in auto)

lemma section_release:
  assumes "pieceInv L w" "holdsClaim (Fetching i) w"
  shows "pieceInv L (w\<lparr>mgr := MarkFailed (int i) (mgr w)\<rparr>)"
    "guar (Fetching i) w Idle (w\<lparr>mgr := MarkFailed (int i) (mgr w)\<rparr>)"
proof -
  have i: "i < numPieces (mgr w)" "stateAt (mgr w) i = PieceDownloading" using assms(2) by auto
  have "MarkFailed (int i) (mgr w) = notifyLocked (setPieceState i PieceMissing (mgr w))"
    using i by (simp add: MarkFailed_eq validIndex_def numPieces_def)
  note s = section_state [OF assms(1) i(1), of PieceMissing "w\<lparr>mgr := MarkFailed (int i) (mgr w)\<rparr>", unfolded this]
  show "pieceInv L (w\<lparr>mgr := MarkFailed (int i) (mgr w)\<rparr>)" unfolding \<open>MarkFailed _ _ = _\<close> using s(1) by simp
  show "guar (Fetching i) w Idle (w\<lparr>mgr := MarkFailed (int i) (mgr w)\<rparr>)"
    unfolding \<open>MarkFailed _ _ = _\<close> using s(2,3) by (intro guar_only [of i]) auto
qed

lemma section_begin:
  assumes "pieceInv L w" "holdsClaim (Fetching i) w" "beginComplete (int i) w = (r, w')"
  shows "r = Inr (pieceLen (fst L ! i), Hash (fst L ! i)) \<and> pieceInv L w' \<and> holdsClaim (Checking i) w' \<and>
    guar (Fetching i) w (Checking i) w'"
proof -
  have i: "i < numPieces (mgr w)" "stateAt (mgr w) i = PieceDownloading" using assms(2) by auto
  then have r: "r = Inr (pieceLen (pieces (mgr w) ! i), Hash (pieces (mgr w) ! i))"
    and w': "w' = w\<lparr>mgr := setPieceState i PieceVerifying (mgr w)\<rparr>"
    using assms(3) by (auto simp: beginComplete_def validIndex_def numPieces_def stateAt_def Let_def)
  have "fst L = map Piece.truncate (pieces (mgr w))" using assms(1) by (auto simp: pieceInv_def layout_def)
  then have "pieceLen (fst L ! i) = pieceLen (pieces (mgr w) ! i)" "Hash (fst L ! i) = Hash (pieces (mgr w) ! i)"
    using i(1) by (simp_all add: numPieces_def Piece.defs)
  then show ?thesis using section_state [OF assms(1) i(1), of PieceVerifying w'] w' r
    by (auto intro!: guar_only [of i])
qed

lemma section_reset:
  assumes "pieceInv L w" "holdsClaim (Checking i) w"
  shows "pieceInv L (w\<lparr>mgr := resetAfterFailure (int i) (mgr w)\<rparr>)"
    "guar (Checking i) w Idle (w\<lparr>mgr := resetAfterFailure (int i) (mgr w)\<rparr>)"
proof -
  have i: "i < numPieces (mgr w)" "stateAt (mgr w) i = PieceVerifying" using assms(2) by auto
  have eq: "resetAfterFailure (int i) (mgr w) = notifyLocked (setPieceState i PieceMissing (mgr w))"
    using i by (intro reset_eq) auto
  note s = section_state [OF assms(1) i(1), of PieceMissing "w\<lparr>mgr := resetAfterFailure (int i) (mgr w)\<rparr>", unfolded eq]
  show "pieceInv L (w\<lparr>mgr := resetAfterFailure (int i) (mgr w)\<rparr>)" unfolding eq using s(1) by simp
  show "guar (Checking i) w Idle (w\<lparr>mgr := resetAfterFailure (int i) (mgr w)\<rparr>)"
    unfolding eq using s(2,3) by (intro guar_only [of i]) auto
qed

lemma section_write:
  assumes inv: "pieceInv L w" and h: "holdsClaim (Checking i) w" and run: "writeSection (int i) d w = (r, w')"
    and d: "int (length d) = pieceLen (fst L ! i)" "sha1 d = Hash (fst L ! i)"
  shows "pieceInv L w' \<and> holdsClaim (case r of Inl _ \<Rightarrow> Checking i | Inr _ \<Rightarrow> Stored i) w' \<and>
    guar (Checking i) w (case r of Inl _ \<Rightarrow> Checking i | Inr _ \<Rightarrow> Stored i) w'"
proof -
  have i: "i < numPieces (mgr w)" "stateAt (mgr w) i = PieceVerifying" using h by auto
  have m: "managerInv w" "layout (mgr w) = L" using inv by (auto simp: pieceInv_def)
  have "fst L = map Piece.truncate (pieces (mgr w))" using m(2) by (auto simp: layout_def)
  then have L: "pieceLen (fst L ! i) = pieceLen (pieces (mgr w) ! i)" "Hash (fst L ! i) = Hash (pieces (mgr w) ! i)"
    using i(1) by (simp_all add: numPieces_def Piece.defs)
  obtain q dk where wr: "WritePiece (storage (mgr w)) (int i) (standardPieceLength (mgr w)) d (disk w) = (q, dk)"
    by fastforce
  then have rw: "r = wrapErr StorageFailed q" "w' = w\<lparr>disk := dk\<rparr>" using run by (auto simp: writeSection_def onDisk_def)
  from write_piece [OF m(1) i(1) _ wr] d(1) L have only: "onlyPiece i w w'" and data: "q = Inr () \<longrightarrow> pieceData w' i = d"
    using rw by auto
  have "managerInv w'" by (rule managerInv_onlyPiece [OF m(1) only]) (simp add: i(2) rw)
  then have inv': "pieceInv L w'" using m(2) rw by (simp add: pieceInv_def)
  have "guar (Checking i) w c w'" if "claimed c = {i}" for c using only that by (intro guar_only [of i]) auto
  then show ?thesis using inv' rw i data d(2) L by (cases q) auto
qed

lemma section_publish:
  assumes "pieceInv L w" "holdsClaim (Stored i) w" "publish (int i) w = (r, w')"
  shows "r = Inr () \<and> pieceInv L w' \<and> guar (Stored i) w Idle w' \<and> stateAt (mgr w') i = PieceComplete"
proof -
  have i: "i < numPieces (mgr w)" "sha1 (pieceData w i) = Hash (pieces (mgr w) ! i)" using assms(2) by auto
  have rw: "r = Inr ()" "w' = w\<lparr>mgr := notifyLocked (setPieceState i PieceComplete (mgr w))\<rparr>"
    using assms(3) by (auto simp: publish_def onMgr_def)
  note s = section_state [OF assms(1) i(1), of PieceComplete w']
  then have "guar (Stored i) w Idle w'" using rw i(2) by (intro guar_only [of i]) auto
  then show ?thesis using s rw i(2) by auto
qed

end
