(* ===== verification/WorkerSpec.thy ===== *)
theory WorkerSpec
  imports Claims PeerClientSpec
begin

text \<open>
  The worker's loop: triples for its actions, whatever the other goroutines do between its critical
  sections. \<open>carries\<close> ties the variable \<open>currentPiece\<close> to the claim, \<open>expecting\<close> is the loop invariant of
  the outstanding request, \<open>asked\<close> says what has been sent.
\<close>

section \<open>Triples\<close>

text \<open>The triples of a worker: the shared state is the disk and the piece manager, the claims are on pieces.\<close>

abbreviation worksW :: "layout \<Rightarrow> (worker \<Rightarrow> claim \<Rightarrow> bool) \<Rightarrow> 'a workerAct \<Rightarrow> ('a \<Rightarrow> worker \<Rightarrow> claim \<Rightarrow> bool) \<Rightarrow>
    (workerError \<Rightarrow> worker \<Rightarrow> claim \<Rightarrow> bool) \<Rightarrow> bool" where
  "worksW L \<equiv> worksP (pieceInv L) holdsClaim guar"

lemmas worksW_conseq = worksP_conseq [where valid = "pieceInv L" and holds = holdsClaim and guar = guar for L]
lemmas worksW_ret = worksP_ret [where valid = "pieceInv L" and holds = holdsClaim and guar = guar for L]
lemmas worksW_fail = worksP_fail [where valid = "pieceInv L" and holds = holdsClaim and guar = guar for L]
lemmas worksW_set = worksP_set [where valid = "pieceInv L" and holds = holdsClaim and guar = guar for L]
lemmas worksW_check = worksP_check [where valid = "pieceInv L" and holds = holdsClaim and guar = guar for L]
lemmas worksW_get = worksP_get [where valid = "pieceInv L" and holds = holdsClaim and guar = guar for L]
lemmas worksW_bind = worksP_bind [where valid = "pieceInv L" and holds = holdsClaim and guar = guar for L]
lemmas worksW_seq = worksP_seq [where valid = "pieceInv L" and holds = holdsClaim and guar = guar for L]
lemmas worksW_onError = worksP_onError [where valid = "pieceInv L" and holds = holdsClaim and guar = guar for L]
lemmas worksW_locked = worksP_locked [where valid = "pieceInv L" and holds = holdsClaim and guar = guar for L]
lemmas worksW_if = worksP_if [where valid = "pieceInv L" and holds = holdsClaim and guar = guar for L]
lemmas worksW_def = worksP_def [where valid = "pieceInv L" and holds = holdsClaim and guar = guar for L]

lemma worksW_read: "(\<And>x l h. P l h \<Longrightarrow> Q x l h) \<Longrightarrow> worksW L P (readMgr f) Q E"
  unfolding readMgr_def by (rule worksW_locked) (auto intro: guar_refl)

section \<open>Completing a piece\<close>

lemma safe_failSteps:
  "safeP (pieceInv L) holdsClaim guar (\<lambda>h r. h = Idle) (failSteps (int i) e) (Checking i)"
  unfolding failSteps_def onMgrP_def
proof (intro safeP_bind safeP_atomic)
  fix s r t assume "pieceInv L s" "holdsClaim (Checking i) s" "((), s\<lparr>mgr := resetAfterFailure (int i) (mgr s)\<rparr>) = (r, t)"
  then show "\<exists>h'. pieceInv L t \<and> holdsClaim h' t \<and> guar (Checking i) s h' t \<and>
      safeP (pieceInv L) holdsClaim guar (\<lambda>h r. h = Idle) (Done (Inl e)) h'"
    using section_reset [of L s i] by (intro exI [of _ Idle]) simp
qed

lemma safe_completeSteps:
  "safeP (pieceInv L) holdsClaim guar (\<lambda>h r. h = Idle) (completeSteps (int i) d) (Fetching i)"
  unfolding completeSteps_def
proof (intro safeP_bind safeP_atomic)
  fix s r t assume s: "pieceInv L s" "holdsClaim (Fetching i) s" "beginComplete (int i) s = (r, t)"
  note b = section_begin [OF this]
  let ?post = "\<lambda>h (r :: managerError + unit). h = Idle"
  have stored: "safeP (pieceInv L) holdsClaim guar ?post (bindP (atomic (writeSection (int i) d))
      (\<lambda>r. case r of Inl e \<Rightarrow> failSteps (int i) e | Inr x \<Rightarrow> atomic (publish (int i)))) (Checking i)"
    if d: "int (length d) = pieceLen (fst L ! i)" "sha1 d = Hash (fst L ! i)"
  proof (intro safeP_bind safeP_atomic)
    fix w q v assume w: "pieceInv L w" "holdsClaim (Checking i) w" "writeSection (int i) d w = (q, v)"
    note wr = section_write [OF this d]
    show "\<exists>h'. pieceInv L v \<and> holdsClaim h' v \<and> guar (Checking i) w h' v \<and>
        safeP (pieceInv L) holdsClaim guar ?post
          (case q of Inl e \<Rightarrow> failSteps (int i) e | Inr x \<Rightarrow> atomic (publish (int i))) h'"
    proof (cases q)
      case (Inl e)
      then show ?thesis using wr safe_failSteps by (intro exI [of _ "Checking i"]) simp
    next
      case (Inr u)
      have "safeP (pieceInv L) holdsClaim guar ?post (atomic (publish (int i))) (Stored i)"
      proof (rule safeP_atomic)
        fix a x y assume "pieceInv L a" "holdsClaim (Stored i) a" "publish (int i) a = (x, y)"
        then show "\<exists>h'. pieceInv L y \<and> holdsClaim h' y \<and> guar (Stored i) a h' y \<and> ?post h' x"
          using section_publish [of L a i x y] by (intro exI [of _ Idle]) simp
      qed
      then show ?thesis using wr Inr by (intro exI [of _ "Stored i"]) simp
    qed
  qed
  show "\<exists>h'. pieceInv L t \<and> holdsClaim h' t \<and> guar (Fetching i) s h' t \<and>
      safeP (pieceInv L) holdsClaim guar ?post
       (case r of Inl e \<Rightarrow> Done (Inl e)
        | Inr (wantedLength, wantedHash) \<Rightarrow>
            if int (length d) \<noteq> wantedLength
              then failSteps (int i) (PieceLengthMismatch (int i) (int (length d)) wantedLength)
            else if sha1 d \<noteq> wantedHash then failSteps (int i) HashVerificationFailed
            else bindP (atomic (writeSection (int i) d))
              (\<lambda>r. case r of Inl e \<Rightarrow> failSteps (int i) e | Inr x \<Rightarrow> atomic (publish (int i)))) h'"
    using b stored safe_failSteps by (intro exI [of _ "Checking i"]) simp
qed

section \<open>The invariant of the loop\<close>

definition carries :: "layout \<Rightarrow> worker \<Rightarrow> claim \<Rightarrow> bool" where
  "carries L l h \<longleftrightarrow> (case currentPiece l of
     None \<Rightarrow> h = Idle
   | Some p \<Rightarrow> \<exists>i<length (fst L). p = fst L ! i \<and> Index p = int i \<and> h = Fetching i)"

text \<open>
  The request for the block of a piece that starts at an offset; and lists of requests in which every one is for
  the first block of a piece of the torrent, or for the block behind the one that was asked for just before.
\<close>

definition blockRequest :: "Piece \<Rightarrow> int \<Rightarrow> Message" where
  "blockRequest p start = NewRequest (Index p) start (min BlockSize (pieceLen p - start))"

definition orderly :: "layout \<Rightarrow> Message list \<Rightarrow> bool" where
  "orderly L rs \<longleftrightarrow> (\<forall>k<length rs. \<exists>p\<in>set (fst L). \<exists>start. rs ! k = blockRequest p start \<and> 0 \<le> start \<and> start < pieceLen p \<and>
     (start = 0 \<or> 0 < k \<and> BlockSize \<le> start \<and> rs ! (k - 1) = blockRequest p (start - BlockSize)))"

definition askedFrames :: "Message list \<Rightarrow> bytes" where
  "askedFrames rs = concat (map messageFrame (NewInterested # rs))"

text \<open>What stands behind \<open>s\<close> in the bytes \<open>b\<close>: everything asked for, the last request being \<open>m\<close>, or a write that failed.\<close>

definition asked :: "layout \<Rightarrow> bytes \<Rightarrow> bytes \<Rightarrow> bool" where
  "asked L s b \<longleftrightarrow> (\<exists>rs. b = s @ askedFrames rs \<and> orderly L rs)"

definition awaiting :: "layout \<Rightarrow> bytes \<Rightarrow> Message \<Rightarrow> bytes \<Rightarrow> bool" where
  "awaiting L s m b \<longleftrightarrow> (\<exists>rs. b = s @ askedFrames (rs @ [m]) \<and> orderly L (rs @ [m]))"

definition asking :: "layout \<Rightarrow> bytes \<Rightarrow> bytes \<Rightarrow> bool" where
  "asking L s b \<longleftrightarrow> (\<exists>rs k. b = s @ take k (askedFrames rs) \<and> orderly L rs)"

abbreviation sentOf :: "worker \<Rightarrow> bytes" where
  "sentOf l \<equiv> sent (Conn (client l))"

definition expecting :: "worker \<Rightarrow> bool" where
  "expecting l \<longleftrightarrow> (case currentPiece l of
     None \<Rightarrow> blockDeadline l = None
   | Some p \<Rightarrow> blockDeadline l \<noteq> None \<and> expectedBegin l = int (length (received l)) \<and>
       int (length (received l)) < pieceLen p \<and>
       expectedLength l = min BlockSize (pieceLen p - int (length (received l))))"

definition outstanding :: "layout \<Rightarrow> bytes \<Rightarrow> worker \<Rightarrow> bool" where
  "outstanding L s l \<longleftrightarrow> (case currentPiece l of
     None \<Rightarrow> asked L s (sentOf l)
   | Some p \<Rightarrow> awaiting L s (blockRequest p (int (length (received l)))) (sentOf l))"

definition atSelect :: "layout \<Rightarrow> bytes \<Rightarrow> worker \<Rightarrow> claim \<Rightarrow> bool" where
  "atSelect L s l h \<longleftrightarrow> carries L l h \<and> expecting l \<and> outstanding L s l"

text \<open>The errors that say that the code has gone wrong, not the peer or the disk.\<close>

definition internalError :: "workerError \<Rightarrow> bool" where
  "internalError e \<longleftrightarrow> e \<in> {WorkerPanics, CannotRequest, NoRemainingData}"

definition failing :: "layout \<Rightarrow> bytes \<Rightarrow> workerError \<Rightarrow> worker \<Rightarrow> claim \<Rightarrow> bool" where
  "failing L s e l h \<longleftrightarrow> \<not> internalError e \<and> carries L l h \<and> asking L s (sentOf l)"

lemma internalError_simps [simp]:
  "\<not> internalError (RequestFailed i j ce)" "\<not> internalError ContextDone" "\<not> internalError (BlockTimedOut i)"
  "\<not> internalError (ReadPeerMessage re)" "\<not> internalError (InvalidBitfield be)" "\<not> internalError (MessageFailed me)"
  "\<not> internalError (HaveFailed be)" "\<not> internalError (UnexpectedBlock i j k)" "\<not> internalError (CompleteFailed i pe)"
  "\<not> internalError EndOfStream" "\<not> internalError (SendInterested ce)" "\<not> internalError NilDependency"
  by (simp_all add: internalError_def)

lemma carries_upd [simp]:
  "carries L (l\<lparr>client := a\<rparr>) h = carries L l h"
  "carries L (l\<lparr>unchoked := b\<rparr>) h = carries L l h"
  "carries L (l\<lparr>received := c\<rparr>) h = carries L l h"
  "carries L (l\<lparr>expectedBegin := d\<rparr>) h = carries L l h"
  "carries L (l\<lparr>expectedLength := e\<rparr>) h = carries L l h"
  "carries L (l\<lparr>peerBitfield := f\<rparr>) h = carries L l h"
  "carries L (l\<lparr>blockDeadline := g\<rparr>) h = carries L l h"
  "carries L (l\<lparr>messagesOpen := m\<rparr>) h = carries L l h"
  "carries L (l\<lparr>errorsOpen := n\<rparr>) h = carries L l h"
  "carries L (l\<lparr>cancelled := k\<rparr>) h = carries L l h"
  "carries L (l\<lparr>watching := q\<rparr>) h = carries L l h"
  "carries L (l\<lparr>reports := r\<rparr>) h = carries L l h"
  by (simp_all add: carries_def)

lemma outstanding_upd [simp]:
  "outstanding L s (l\<lparr>unchoked := b\<rparr>) = outstanding L s l"
  "outstanding L s (l\<lparr>peerBitfield := f\<rparr>) = outstanding L s l"
  "outstanding L s (l\<lparr>messagesOpen := m\<rparr>) = outstanding L s l"
  "outstanding L s (l\<lparr>errorsOpen := n\<rparr>) = outstanding L s l"
  "outstanding L s (l\<lparr>cancelled := k\<rparr>) = outstanding L s l"
  "outstanding L s (l\<lparr>watching := q\<rparr>) = outstanding L s l"
  "outstanding L s (l\<lparr>reports := r\<rparr>) = outstanding L s l"
  by (simp_all add: outstanding_def split: option.split)

lemma expecting_upd [simp]:
  "expecting (l\<lparr>client := a\<rparr>) = expecting l"
  "expecting (l\<lparr>unchoked := b\<rparr>) = expecting l"
  "expecting (l\<lparr>peerBitfield := f\<rparr>) = expecting l"
  "expecting (l\<lparr>messagesOpen := m\<rparr>) = expecting l"
  "expecting (l\<lparr>errorsOpen := n\<rparr>) = expecting l"
  "expecting (l\<lparr>cancelled := k\<rparr>) = expecting l"
  "expecting (l\<lparr>watching := q\<rparr>) = expecting l"
  "expecting (l\<lparr>reports := r\<rparr>) = expecting l"
  by (simp_all add: expecting_def split: option.split)

lemma asked_asking: "asked L s b \<Longrightarrow> asking L s b"
  unfolding asked_def asking_def by (metis order_refl take_all)

lemma awaiting_asked: "awaiting L s m b \<Longrightarrow> asked L s b"
  by (auto simp: awaiting_def asked_def)

lemma outstanding_asked: "outstanding L s l \<Longrightarrow> asked L s (sentOf l)"
  by (auto simp: outstanding_def awaiting_asked split: option.splits)

lemma atSelect_failing: "atSelect L s l h \<Longrightarrow> \<not> internalError e \<Longrightarrow> failing L s e l h"
  by (simp add: atSelect_def failing_def asked_asking outstanding_asked)

text \<open>A request that may be sent next.\<close>

definition mayAsk :: "layout \<Rightarrow> bytes \<Rightarrow> Piece \<Rightarrow> int \<Rightarrow> bytes \<Rightarrow> bool" where
  "mayAsk L s p start b \<longleftrightarrow> p \<in> set (fst L) \<and> 0 \<le> start \<and> start < pieceLen p \<and>
     (start = 0 \<and> asked L s b \<or> BlockSize \<le> start \<and> awaiting L s (blockRequest p (start - BlockSize)) b)"

lemma orderly_snoc:
  assumes "orderly L rs" "p \<in> set (fst L)" "0 \<le> start" "start < pieceLen p"
    "start = 0 \<or> BlockSize \<le> start \<and> rs \<noteq> [] \<and> last rs = blockRequest p (start - BlockSize)"
  shows "orderly L (rs @ [blockRequest p start])"
  unfolding orderly_def
proof (intro allI impI)
  fix k assume k: "k < length (rs @ [blockRequest p start])"
  show "\<exists>q\<in>set (fst L). \<exists>from. (rs @ [blockRequest p start]) ! k = blockRequest q from \<and> 0 \<le> from \<and> from < pieceLen q \<and>
     (from = 0 \<or> 0 < k \<and> BlockSize \<le> from \<and> (rs @ [blockRequest p start]) ! (k - 1) = blockRequest q (from - BlockSize))"
  proof (cases "k < length rs")
    case True
    then have "(rs @ [blockRequest p start]) ! k = rs ! k" "(rs @ [blockRequest p start]) ! (k - 1) = rs ! (k - 1)"
      by (simp_all add: nth_append)
    then show ?thesis using assms(1) True unfolding orderly_def by simp
  next
    case False
    then have "k = length rs" using k by simp
    then have "(rs @ [blockRequest p start]) ! k = blockRequest p start"
      "rs \<noteq> [] \<Longrightarrow> 0 < k \<and> (rs @ [blockRequest p start]) ! (k - 1) = last rs"
      by (simp_all add: nth_append last_conv_nth)
    then show ?thesis using assms(2-5) by (intro bexI [of _ p] exI [of _ start]) auto
  qed
qed

lemma askedFrames_snoc: "askedFrames (rs @ [m]) = askedFrames rs @ messageFrame m"
  by (simp add: askedFrames_def)

lemma mayAsk_more:
  assumes "mayAsk L s p start b"
  shows "awaiting L s (blockRequest p start) (b @ messageFrame (blockRequest p start))"
    "asking L s (b @ take k (messageFrame (blockRequest p start)))"
proof -
  have p: "p \<in> set (fst L)" "0 \<le> start" "start < pieceLen p" using assms by (simp_all add: mayAsk_def)
  have "\<exists>rs. b = s @ askedFrames rs \<and> orderly L rs \<and>
      (start = 0 \<or> BlockSize \<le> start \<and> rs \<noteq> [] \<and> last rs = blockRequest p (start - BlockSize))"
    using assms unfolding mayAsk_def asked_def awaiting_def by (metis last_snoc snoc_eq_iff_butlast)
  then obtain rs where rs: "b = s @ askedFrames rs" "orderly L (rs @ [blockRequest p start])"
    using orderly_snoc p by blast
  then show "awaiting L s (blockRequest p start) (b @ messageFrame (blockRequest p start))"
    unfolding awaiting_def by (intro exI [of _ rs]) (simp add: askedFrames_snoc)
  have "b @ take k (messageFrame (blockRequest p start)) =
      s @ take (length (askedFrames rs) + k) (askedFrames (rs @ [blockRequest p start]))"
    by (simp add: askedFrames_snoc rs(1))
  then show "asking L s (b @ take k (messageFrame (blockRequest p start)))" unfolding asking_def using rs(2) by blast
qed

lemma WriteMessage_sends:
  assumes run: "WriteMessage m c = (r, c')" and wf: "Serialize (Some m) = Some (messageFrame m)"
  shows "\<exists>k. sent c' = sent c @ take k (messageFrame m) \<and> (r = Inr () \<longrightarrow> take k (messageFrame m) = messageFrame m)"
proof (cases "connClosed c")
  case True
  then show ?thesis using run by (intro exI [of _ 0]) (auto simp: WriteMessage_def SetDeadline_def act_eval)
next
  case False
  then have "writeFull (messageFrame m) c = (r, c')" using run wf by (simp add: WriteMessage_def SetDeadline_def act_eval)
  then show ?thesis using writeFull_sends by blast
qed

lemma frames: "Serialize (Some NewInterested) = Some (messageFrame NewInterested)"
  "Serialize (Some (NewRequest i a b)) = Some (messageFrame (NewRequest i a b))"
  by (rule Serialize_frame [of DefaultMaxMessageSize],
      simp add: wfMessage_def NewInterested_def NewRequest_def DefaultMaxMessageSize_def PutUint32_def)+

lemma asked_interested: "asked L s (s @ messageFrame NewInterested)"
  unfolding asked_def by (intro exI [of _ "[]"]) (simp add: askedFrames_def orderly_def)

lemma asking_interested: "asking L s (s @ take k (messageFrame NewInterested))"
  unfolding asking_def by (intro exI [of _ "[]"] exI [of _ k]) (simp add: askedFrames_def orderly_def)

section \<open>The helpers\<close>

lemma worksW_write:
  assumes "Serialize (Some m) = Some (messageFrame m)"
    "\<And>l h c. P l h \<Longrightarrow> sent c = sentOf l @ messageFrame m \<Longrightarrow> Q () (l\<lparr>client := (client l)\<lparr>Conn := c\<rparr>\<rparr>) h"
    "\<And>e l h c k. P l h \<Longrightarrow> sent c = sentOf l @ take k (messageFrame m) \<Longrightarrow> E (wrap e) (l\<lparr>client := (client l)\<lparr>Conn := c\<rparr>\<rparr>) h"
  shows "worksW L P (writeW wrap m) Q E"
  unfolding worksW_def writeW_def
proof (intro allI impI)
  fix l h assume P: "P l h"
  obtain r c where run: "WriteMessage m (Conn (client l)) = (r, c)" by fastforce
  obtain k where k: "sent c = sentOf l @ take k (messageFrame m)"
    "r = Inr () \<longrightarrow> take k (messageFrame m) = messageFrame m" using WriteMessage_sends [OF run assms(1)] by blast
  show "safeP (pieceInv L) holdsClaim guar (postW Q E) (case WriteMessage m (Conn (client l)) of
      (r, c) \<Rightarrow> Done (wrapErr wrap r, l\<lparr>client := (client l)\<lparr>Conn := c\<rparr>\<rparr>)) h"
    using assms(2,3) [OF P] k run by (cases r) simp_all
qed

text \<open>An \<open>if\<close> whose condition matters.\<close>

lemma worksW_cond: "(c \<Longrightarrow> worksW L P m Q E) \<Longrightarrow> (\<not> c \<Longrightarrow> worksW L P n Q E) \<Longrightarrow> worksW L P (if c then m else n) Q E"
  by simp

definition unclaimed :: "worker \<Rightarrow> claim \<Rightarrow> bool" where
  "unclaimed l h \<longleftrightarrow> currentPiece l = None \<and> h = Idle"

lemma unclaimed_carries: "unclaimed l h \<Longrightarrow> carries L l h"
  by (simp add: unclaimed_def carries_def)

lemma works_clear:
  "(\<And>l h. P l h \<Longrightarrow> h = Idle \<and> R (client l)) \<Longrightarrow>
     worksW L P clearCurrent (\<lambda>_ l h. unclaimed l h \<and> expecting l \<and> R (client l)) E"
  unfolding clearCurrent_def stopBlockTimer_def
  by (rule worksW_seq [where R = "\<lambda>l h. h = Idle \<and> R (client l) \<and> currentPiece l = None"];
      rule worksW_set; simp add: unclaimed_def expecting_def)

lemma works_release:
  assumes "\<And>l h. P l h \<Longrightarrow> carries L l h \<and> R (client l)"
  shows "worksW L P releaseCurrent (\<lambda>_ l h. unclaimed l h \<and> expecting l \<and> R (client l)) E"
  unfolding releaseCurrent_def
proof (rule worksW_get)
  fix l0 h0 assume P: "P l0 h0"
  show "worksW L (\<lambda>l h. l = l0 \<and> h = h0) (case currentPiece l0 of None \<Rightarrow> clearCurrent
      | Some p \<Rightarrow> seqW (locked (\<lambda>w. ((), w\<lparr>mgr := MarkFailed (Index p) (mgr w)\<rparr>))) clearCurrent)
      (\<lambda>_ l h. unclaimed l h \<and> expecting l \<and> R (client l)) E"
  proof (cases "currentPiece l0")
    case None
    have "worksW L (\<lambda>l h. l = l0 \<and> h = h0) clearCurrent (\<lambda>_ l h. unclaimed l h \<and> expecting l \<and> R (client l)) E"
      by (rule works_clear) (use assms [OF P] None in \<open>simp add: carries_def\<close>)
    then show ?thesis using None by simp
  next
    case (Some p)
    then obtain i where i: "Index p = int i" "h0 = Fetching i" "R (client l0)"
      using assms [OF P] by (auto simp: carries_def)
    have "worksW L (\<lambda>l h. l = l0 \<and> h = h0) (locked (\<lambda>w. ((), w\<lparr>mgr := MarkFailed (Index p) (mgr w)\<rparr>)))
        (\<lambda>_ l h. l = l0 \<and> h = Idle) E"
    proof (rule worksW_locked)
      fix l h w r w'
      assume "l = l0 \<and> h = h0" "pieceInv L w" "holdsClaim h w" "((), w\<lparr>mgr := MarkFailed (Index p) (mgr w)\<rparr>) = (r, w')"
      then show "\<exists>h'. pieceInv L w' \<and> holdsClaim h' w' \<and> guar h w h' w' \<and> (l = l0 \<and> h' = Idle)"
        using i section_release [of L w i] by (intro exI [of _ Idle]) auto
    qed
    moreover have "worksW L (\<lambda>l h. l = l0 \<and> h = Idle) clearCurrent (\<lambda>_ l h. unclaimed l h \<and> expecting l \<and> R (client l)) E"
      by (rule works_clear) (simp add: i)
    ultimately show ?thesis unfolding Some option.case by (rule worksW_seq)
  qed
qed

lemma works_release_failing: "worksW L (failing L s e) releaseCurrent (\<lambda>_. failing L s e) E"
proof -
  let ?R = "\<lambda>c. asking L s (sent (Conn c)) \<and> \<not> internalError e"
  have "worksW L (failing L s e) releaseCurrent (\<lambda>_ l h. unclaimed l h \<and> expecting l \<and> ?R (client l)) E"
    by (rule works_release) (simp add: failing_def)
  then show ?thesis by (rule worksW_conseq) (auto simp: failing_def unclaimed_carries)
qed

lemma unclaimed_atSelect: "unclaimed l h \<Longrightarrow> expecting l \<Longrightarrow> asked L s (sentOf l) \<Longrightarrow> atSelect L s l h"
  by (simp add: atSelect_def unclaimed_carries) (simp add: unclaimed_def outstanding_def)

lemma works_release_atSelect: "worksW L (atSelect L s) releaseCurrent (\<lambda>_. atSelect L s) E"
proof -
  have "worksW L (atSelect L s) releaseCurrent (\<lambda>_ l h. unclaimed l h \<and> expecting l \<and> asked L s (sent (Conn (client l)))) E"
    by (rule works_release) (auto simp: atSelect_def outstanding_asked)
  then show ?thesis by (rule worksW_conseq) (auto simp: unclaimed_atSelect)
qed

lemma works_requestBlock:
  assumes P: "\<And>l h. P l h \<Longrightarrow> carries L l h \<and>
    (\<exists>p. currentPiece l = Some p \<and> mayAsk L s p (int (length (received l))) (sentOf l))"
  shows "worksW L P requestBlock (\<lambda>_. atSelect L s) (failing L s)"
  unfolding requestBlock_def
proof (rule worksW_get)
  fix l0 h0 assume "P l0 h0"
  then obtain p where c: "carries L l0 h0" and p: "currentPiece l0 = Some p"
    and may: "mayAsk L s p (int (length (received l0))) (sentOf l0)" using P by blast
  define start where "start = int (length (received l0))"
  let ?len = "minInt BlockSize (pieceLen p - start)"
  have len: "?len = min BlockSize (pieceLen p - start)" by (simp add: minInt_def)
  have less: "start < pieceLen p" using may by (simp add: mayAsk_def start_def)
  have request: "NewRequest (Index p) start ?len = blockRequest p start" by (simp add: blockRequest_def len)
  let ?R = "\<lambda>l h. carries L l h \<and> sentOf l = sentOf l0 \<and> currentPiece l = Some p \<and> received l = received l0 \<and> expectedBegin l = start"
  let ?S = "\<lambda>l h. ?R l h \<and> expectedLength l = ?len"
  let ?T = "\<lambda>l h. carries L l h \<and> awaiting L s (blockRequest p start) (sentOf l) \<and> currentPiece l = Some p \<and>
    received l = received l0 \<and> expectedBegin l = start \<and> expectedLength l = ?len"
  have "worksW L ?S (writeW (RequestFailed (Index p) start) (NewRequest (Index p) start ?len)) (\<lambda>_. ?T) (failing L s)"
    by (rule worksW_write [OF frames(2)])
      (use mayAsk_more [OF may] in \<open>simp_all add: request failing_def flip: start_def\<close>)
  moreover have "worksW L ?T resetBlockTimer (\<lambda>_. atSelect L s) (failing L s)"
    unfolding resetBlockTimer_def stopBlockTimer_def
    by (rule worksW_seq [where R = ?T]; rule worksW_set)
      (use less len in \<open>auto simp: atSelect_def expecting_def outstanding_def start_def\<close>)
  moreover have "worksW L ?R (setW (\<lambda>l. l\<lparr>expectedLength := ?len\<rparr>)) (\<lambda>_. ?S) (failing L s)"
    by (rule worksW_set) simp
  moreover have "worksW L (\<lambda>l h. l = l0 \<and> h = h0) (setW (\<lambda>l. l\<lparr>expectedBegin := start\<rparr>)) (\<lambda>_. ?R) (failing L s)"
    by (rule worksW_set) (use c p in simp)
  ultimately have "worksW L (\<lambda>l h. l = l0 \<and> h = h0)
      (seqW (setW (\<lambda>l. l\<lparr>expectedBegin := start\<rparr>)) (seqW (setW (\<lambda>l. l\<lparr>expectedLength := ?len\<rparr>))
        (seqW (writeW (RequestFailed (Index p) start) (NewRequest (Index p) start ?len)) resetBlockTimer)))
      (\<lambda>_. atSelect L s) (failing L s)"
    by (intro worksW_seq)
  then show "worksW L (\<lambda>l h. l = l0 \<and> h = h0) (case currentPiece l0 of None \<Rightarrow> failW CannotRequest
      | Some p \<Rightarrow> let start = int (length (received l0)); remaining = pieceLen p - start; len = minInt BlockSize remaining in
          seqW (setW (\<lambda>l. l\<lparr>expectedBegin := start\<rparr>)) (if remaining \<le> 0 then failW NoRemainingData
            else seqW (setW (\<lambda>l. l\<lparr>expectedLength := len\<rparr>))
              (seqW (writeW (RequestFailed (Index p) start) (NewRequest (Index p) start len)) resetBlockTimer)))
      (\<lambda>_. atSelect L s) (failing L s)"
    using p less by (simp add: Let_def start_def)
qed

definition wfLayout :: "layout \<Rightarrow> bool" where
  "wfLayout L \<longleftrightarrow> (\<forall>p\<in>set (fst L). 0 < pieceLen p)"

lemma pieceInv_wfLayout: "pieceInv L w \<Longrightarrow> wfLayout L"
  using pieces_pos [of "mgr w"] by (auto simp: pieceInv_def managerInv_def layout_def wfLayout_def Piece.defs)

lemma works_take:
  assumes "P = (\<lambda>l h. l = l0 \<and> h = Idle)" "currentPiece l0 = None"
  shows "worksW L P (locked (\<lambda>w. case NextPieceForPeer bf (mgr w) of (p, pm) \<Rightarrow> (p, w\<lparr>mgr := pm\<rparr>)))
    (\<lambda>p l h. l = l0 \<and> carries L (l\<lparr>currentPiece := p\<rparr>) h) E"
proof (rule worksW_locked)
  fix l h w r w' assume P: "P l h" and w: "pieceInv L w" "holdsClaim h w"
    and run: "(case NextPieceForPeer bf (mgr w) of (p, pm) \<Rightarrow> (p, w\<lparr>mgr := pm\<rparr>)) = (r, w')"
  obtain p pm where np: "NextPieceForPeer bf (mgr w) = (p, pm)" by fastforce
  with run have rw: "r = p" "w' = w\<lparr>mgr := pm\<rparr>" by simp_all
  have h: "l = l0" "h = Idle" using P assms(1) by simp_all
  show "\<exists>h'. pieceInv L w' \<and> holdsClaim h' w' \<and> guar h w h' w' \<and> (l = l0 \<and> carries L (l\<lparr>currentPiece := r\<rparr>) h')"
  proof (cases p)
    case None
    then have "w' = w" using section_take [OF w(1) np] rw by simp
    then show ?thesis using None rw h w guar_refl by (intro exI [of _ Idle]) (simp add: carries_def)
  next
    case (Some q)
    then obtain i where "q = fst L ! i" "i < length (fst L)" "Index q = int i" "pieceInv L w'"
      "holdsClaim (Fetching i) w'" "guar Idle w (Fetching i) w'"
      using section_take [OF w(1) np] rw by auto
    then show ?thesis using Some rw h by (intro exI [of _ "Fetching i"]) (simp add: carries_def)
  qed
qed

text \<open>From variables that are known.\<close>

lemma works_here: "worksW L P m Q E \<Longrightarrow> P l0 h0 \<Longrightarrow> worksW L (\<lambda>l h. l = l0 \<and> h = h0) m Q E"
  by (erule worksW_conseq) simp_all

lemma works_requestNextPiece:
  assumes L: "wfLayout L"
  shows "worksW L (atSelect L s) requestNextPiece (\<lambda>_. atSelect L s) (failing L s)"
  unfolding requestNextPiece_def
proof (rule worksW_get)
  fix l0 h0 assume I: "atSelect L s l0 h0"
  let ?Q = "\<lambda>_ :: unit. atSelect L s" and ?E = "failing L s"
  let ?rest = "\<lambda>p. case p of None \<Rightarrow> retW () | Some piece \<Rightarrow> if pieceLen piece < 0 then failW WorkerPanics
      else seqW (setW (\<lambda>l. l\<lparr>received := []\<rparr>)) (onErrorW requestBlock releaseCurrent)"
  let ?take = "bindW (locked (\<lambda>w. case NextPieceForPeer (peerBitfield l0) (mgr w) of (p, pm) \<Rightarrow> (p, w\<lparr>mgr := pm\<rparr>)))
       (\<lambda>p. seqW (setW (\<lambda>l. l\<lparr>currentPiece := p\<rparr>)) (?rest p))"
  have skip: "worksW L (\<lambda>l h. l = l0 \<and> h = h0) (retW ()) ?Q ?E" by (rule worksW_ret) (use I in simp)
  have take: "worksW L (\<lambda>l h. l = l0 \<and> h = h0) ?take ?Q ?E" if none: "currentPiece l0 = None"
  proof (rule worksW_bind)
    have h0: "h0 = Idle" using I none by (simp add: atSelect_def carries_def)
    show "worksW L (\<lambda>l h. l = l0 \<and> h = h0)
        (locked (\<lambda>w. case NextPieceForPeer (peerBitfield l0) (mgr w) of (p, pm) \<Rightarrow> (p, w\<lparr>mgr := pm\<rparr>)))
        (\<lambda>p l h. l = l0 \<and> carries L (l\<lparr>currentPiece := p\<rparr>) h) ?E"
      by (rule works_take) (simp_all add: none h0)
  next
    fix p
    let ?R = "\<lambda>l h. carries L l h \<and> asked L s (sentOf l) \<and> currentPiece l = p \<and> blockDeadline l = None"
    have "worksW L ?R (?rest p) ?Q ?E"
    proof (cases p)
      case None
      then show ?thesis by (simp, intro worksW_ret) (simp add: atSelect_def expecting_def outstanding_def)
    next
      case (Some q)
      have pos: "0 < pieceLen q" "q \<in> set (fst L)" if "carries L l h" "currentPiece l = Some q" for l h
        using that L by (auto simp: carries_def wfLayout_def)
      have "worksW L (\<lambda>l h. ?R l h \<and> received l = []) (onErrorW requestBlock releaseCurrent) ?Q ?E"
      proof (rule worksW_onError)
        show "worksW L (\<lambda>l h. ?R l h \<and> received l = []) requestBlock ?Q ?E"
          by (rule works_requestBlock) (use Some pos in \<open>fastforce simp: mayAsk_def\<close>)
        show "worksW L (?E e) releaseCurrent (\<lambda>_. ?E e) ?E" for e by (rule works_release_failing)
      qed
      moreover have "worksW L ?R (setW (\<lambda>l. l\<lparr>received := []\<rparr>)) (\<lambda>_ l h. ?R l h \<and> received l = []) ?E"
        by (rule worksW_set) simp
      moreover have "worksW L ?R (failW WorkerPanics) ?Q ?E" if "pieceLen q < 0"
        by (rule worksW_fail) (use pos that Some in fastforce)
      ultimately show ?thesis using Some by (auto intro: worksW_seq)
    qed
    moreover have "worksW L (\<lambda>l h. l = l0 \<and> carries L (l\<lparr>currentPiece := p\<rparr>) h) (setW (\<lambda>l. l\<lparr>currentPiece := p\<rparr>)) (\<lambda>_. ?R) ?E"
      by (rule worksW_set) (use I none in \<open>auto simp: atSelect_def expecting_def outstanding_def\<close>)
    ultimately show "worksW L (\<lambda>l h. l = l0 \<and> carries L (l\<lparr>currentPiece := p\<rparr>) h)
        (seqW (setW (\<lambda>l. l\<lparr>currentPiece := p\<rparr>)) (?rest p)) ?Q ?E"
      by (rule worksW_seq [rotated])
  qed
  show "worksW L (\<lambda>l h. l = l0 \<and> h = h0) (if \<not> unchoked l0 \<or> currentPiece l0 \<noteq> None then retW () else ?take) ?Q ?E"
    using skip take by auto
qed

section \<open>Handlers\<close>

lemma works_complete:
  assumes L: "wfLayout L"
    and P: "\<And>l h. P l h \<Longrightarrow> h = Fetching i \<and> asked L s (sentOf l) \<and> blockDeadline l = None"
  shows "worksW L P (completeCurrent (int i) d) (\<lambda>_. atSelect L s) (failing L s)"
proof -
  let ?R = "\<lambda>l h. h = Fetching i \<and> asked L s (sentOf l) \<and> blockDeadline l = None \<and> currentPiece l = None"
  have idle: "atSelect L s l Idle" if "?R l h" for l h
    using that by (simp add: atSelect_def carries_def expecting_def outstanding_def)
  have "worksW L ?R (liftW (CompleteFailed (int i)) (completeSteps (int i) d)) (\<lambda>_. atSelect L s) (failing L s)"
    unfolding worksW_def liftW_def
  proof (intro allI impI safeP_bind)
    fix l h assume R: "?R l h"
    have "safeP (pieceInv L) holdsClaim guar (\<lambda>h r. h = Idle) (completeSteps (int i) d) h"
      using R safe_completeSteps by simp
    then show "safeP (pieceInv L) holdsClaim guar
        (\<lambda>h r. safeP (pieceInv L) holdsClaim guar (postW (\<lambda>_. atSelect L s) (failing L s))
          (Done (wrapErr (CompleteFailed (int i)) r, l)) h) (completeSteps (int i) d) h"
    proof (rule safeP_mono)
      fix g and r :: "managerError + unit" assume "g = Idle"
      then show "safeP (pieceInv L) holdsClaim guar (postW (\<lambda>_. atSelect L s) (failing L s))
          (Done (wrapErr (CompleteFailed (int i)) r, l)) g"
        using idle [OF R] atSelect_failing by (cases r) simp_all
    qed
  qed
  moreover have "worksW L P (setW (\<lambda>l. l\<lparr>currentPiece := None, received := []\<rparr>)) (\<lambda>_. ?R) (failing L s)"
    by (rule worksW_set) (use P in simp)
  moreover have "worksW L (atSelect L s) (setW (\<lambda>l. if OnProgress (options l) then l\<lparr>reports := reports l @ [progress]\<rparr> else l))
      (\<lambda>_. atSelect L s) (failing L s)" for progress
    by (rule worksW_set) (simp add: atSelect_def)
  moreover have "worksW L (atSelect L s) (if complete then retW False else seqW requestNextPiece (retW True))
      (\<lambda>_. atSelect L s) (failing L s)" for complete
    using works_requestNextPiece [OF L, of s] by (auto intro: worksW_ret worksW_seq)
  ultimately show ?thesis unfolding completeCurrent_def
    by (intro worksW_seq worksW_bind worksW_read) assumption+
qed

text \<open>The block that was asked for.\<close>

lemma works_accept:
  assumes L: "wfLayout L" and I: "atSelect L s l0 h0" and p: "currentPiece l0 = Some p" and block: "int (length block) = expectedLength l0"
  shows "worksW L (\<lambda>l h. l = l0 \<and> h = h0) (seqW stopBlockTimer (seqW (setW (\<lambda>l. l\<lparr>received := received l @ block\<rparr>))
      (if int (length (received l0 @ block)) < pieceLen p then seqW (onErrorW requestBlock releaseCurrent) (retW True)
       else completeCurrent (Index p) (received l0 @ block)))) (\<lambda>_. atSelect L s) (failing L s)"
proof -
  let ?P = "\<lambda>l h. l = l0 \<and> h = h0" and ?Q = "\<lambda>_ :: bool. atSelect L s" and ?E = "failing L s"
  let ?got = "int (length (received l0))"
  let ?S = "\<lambda>l h. carries L l h \<and> awaiting L s (blockRequest p ?got) (sentOf l) \<and> currentPiece l = Some p \<and> blockDeadline l = None"
  let ?R = "\<lambda>l h. ?S l h \<and> received l = received l0 @ block"
  have e: "int (length block) = min BlockSize (pieceLen p - ?got)" "p \<in> set (fst L)"
    using I p block by (auto simp: atSelect_def expecting_def carries_def)
  have "worksW L ?P stopBlockTimer (\<lambda>_ l h. ?S l h \<and> received l = received l0) ?E"
    unfolding stopBlockTimer_def by (rule worksW_set) (use I p in \<open>simp add: atSelect_def outstanding_def\<close>)
  moreover have "worksW L (\<lambda>l h. ?S l h \<and> received l = received l0) (setW (\<lambda>l. l\<lparr>received := received l @ block\<rparr>)) (\<lambda>_. ?R) ?E"
    by (rule worksW_set) simp
  moreover have "worksW L ?R (seqW (onErrorW requestBlock releaseCurrent) (retW True)) ?Q ?E"
    if more: "int (length (received l0 @ block)) < pieceLen p"
  proof (rule worksW_seq)
    have "int (length (received l0 @ block)) = ?got + BlockSize" using e(1) more by simp
    then have "mayAsk L s p (int (length (received l))) (sentOf l)" if "?R l h" for l h
      using that more e(2) by (simp add: mayAsk_def)
    then show "worksW L ?R (onErrorW requestBlock releaseCurrent) (\<lambda>_. atSelect L s) ?E"
      by (intro worksW_onError [OF works_requestBlock works_release_failing]) blast
  qed (simp add: worksW_ret)
  moreover have "worksW L ?R (completeCurrent (Index p) (received l0 @ block)) ?Q ?E"
  proof -
    obtain i where i: "Index p = int i" "h0 = Fetching i" using I p by (auto simp: atSelect_def carries_def)
    show ?thesis unfolding i(1) by (rule works_complete [OF L]) (use i in \<open>auto simp: carries_def intro: awaiting_asked\<close>)
  qed
  ultimately show ?thesis by (intro worksW_seq) (assumption | simp)+
qed

lemma works_pieceMessage:
  assumes L: "wfLayout L"
  shows "worksW L (atSelect L s) (pieceMessage payload) (\<lambda>_. atSelect L s) (failing L s)"
  unfolding pieceMessage_def
proof (rule worksW_bind [OF worksW_check, where R = "\<lambda>_. atSelect L s"], goal_cases)
  case (3 x)
  obtain index start block where x: "x = (index, start, block)" by (cases x)
  show ?case unfolding x prod.case
  proof (rule worksW_get, goal_cases)
    case (1 l0 h0)
    let ?T = "\<lambda>m. worksW L (\<lambda>l h. l = l0 \<and> h = h0) m (\<lambda>_ :: bool. atSelect L s) (failing L s)"
    have skip: "?T (retW True)" by (rule worksW_ret) (use 1 in simp)
    have drop: "?T (seqW releaseCurrent (failW e))" if "\<not> internalError e" for e
      by (rule works_here [OF worksW_seq [OF works_release_atSelect worksW_fail] 1]) (rule atSelect_failing, assumption, rule that)
    show ?case
    proof (cases "currentPiece l0")
      case (Some p)
      show ?thesis unfolding Some option.case
        by (rule worksW_if [OF skip], rule worksW_cond, rule drop, rule internalError_simps, rule works_accept [OF L 1 Some]) simp
    qed (simp add: skip)
  qed
qed (simp_all add: atSelect_failing)

lemma works_set_next:
  assumes "wfLayout L" "\<And>l h. atSelect L s l h \<Longrightarrow> atSelect L s (f l) h"
  shows "worksW L (atSelect L s) (seqW (setW f) (seqW requestNextPiece (retW True))) (\<lambda>_. atSelect L s) (failing L s)"
  by (rule worksW_seq [OF worksW_set worksW_seq [OF works_requestNextPiece worksW_ret]]) (use assms in simp_all)

lemma works_handleMessage:
  assumes L: "wfLayout L"
  shows "worksW L (atSelect L s) (handleMessage count message) (\<lambda>_. atSelect L s) (failing L s)"
proof -
  let ?T = "\<lambda>m. worksW L (atSelect L s) m (\<lambda>_. atSelect L s) (failing L s)"
  have skip: "?T (retW True)" by (rule worksW_ret)
  have check: "?T (checkW wrap r)" if "\<And>e. \<not> internalError (wrap e)" for wrap and r :: "'e + 'x"
    by (rule worksW_check) (simp_all add: atSelect_failing that)
  have bits: "?T (bindW (checkW InvalidBitfield (ParseBitfield (Payload message) count)) (\<lambda>parsed.
      seqW (setW (\<lambda>l. l\<lparr>peerBitfield := parsed\<rparr>)) (seqW requestNextPiece (retW True))))"
    by (rule worksW_bind [OF check [OF internalError_simps(5)]]) (rule works_set_next [OF L], simp add: atSelect_def)
  have haves: "?T (bindW (checkW MessageFailed (ParseHave (Payload message))) (\<lambda>index. getW (\<lambda>l.
      bindW (checkW HaveFailed (SetPiece (Some (peerBitfield l)) index)) (\<lambda>bits.
        seqW (setW (\<lambda>l. l\<lparr>peerBitfield := bits\<rparr>)) (seqW requestNextPiece (retW True))))))"
  proof (rule worksW_bind [OF check [OF internalError_simps(6)]], rule worksW_get)
    fix index l0 h0 assume I: "atSelect L s l0 h0"
    have "?T (bindW (checkW HaveFailed (SetPiece (Some (peerBitfield l0)) index)) (\<lambda>bits.
        seqW (setW (\<lambda>l. l\<lparr>peerBitfield := bits\<rparr>)) (seqW requestNextPiece (retW True))))"
      by (rule worksW_bind [OF check [OF internalError_simps(7)]]) (rule works_set_next [OF L], simp add: atSelect_def)
    then show "worksW L (\<lambda>l h. l = l0 \<and> h = h0) (bindW (checkW HaveFailed (SetPiece (Some (peerBitfield l0)) index)) (\<lambda>bits.
        seqW (setW (\<lambda>l. l\<lparr>peerBitfield := bits\<rparr>)) (seqW requestNextPiece (retW True)))) (\<lambda>_. atSelect L s) (failing L s)"
      by (rule worksW_conseq) (use I in simp_all)
  qed
  have choke: "?T (seqW (setW (\<lambda>l. l\<lparr>unchoked := False\<rparr>)) (seqW releaseCurrent (retW True)))"
    by (rule worksW_seq [OF worksW_set worksW_seq [OF works_release_atSelect skip]]) (simp add: atSelect_def)
  have unchoke: "?T (seqW (setW (\<lambda>l. l\<lparr>unchoked := True\<rparr>)) (seqW requestNextPiece (retW True)))"
    by (rule works_set_next [OF L]) (simp add: atSelect_def)
  show ?thesis
  proof (cases "ID message")
    case None
    then show ?thesis using skip by (simp add: handleMessage_def)
  next
    case (Some i)
    show ?thesis unfolding handleMessage_def Some option.case
      by (intro worksW_if skip bits haves choke unchoke works_pieceMessage L)
  qed
qed

section \<open>The loop\<close>

text \<open>What the cases of the \<open>select\<close> have in common.\<close>

lemma works_ready: "worksW L P m Q E \<Longrightarrow> worksW L P (bindW m (\<lambda>continue. retW (Some continue))) (\<lambda>r. Q (the r)) E"
  by (erule worksW_bind) (rule worksW_ret, simp)

lemma works_update: "(\<And>l h. atSelect L s l h \<Longrightarrow> atSelect L s (f l) h) \<Longrightarrow> worksW L (atSelect L s) (seqW (setW f) (retW x)) (\<lambda>_. atSelect L s) E"
  by (rule worksW_seq [OF worksW_set worksW_ret])

lemma works_updatesReady:
  assumes L: "wfLayout L"
  shows "worksW L (atSelect L s) (bindW (readMgr Updates) (\<lambda>now. if now = u then retW None
      else bindW (bindW (readMgr IsComplete) (\<lambda>complete. if complete then retW False else seqW requestNextPiece (retW True)))
        (\<lambda>continue. retW (Some continue)))) (\<lambda>_. atSelect L s) (failing L s)"
proof (rule worksW_bind [OF worksW_read], assumption, rule worksW_if [OF worksW_ret], assumption, rule works_ready)
  show "worksW L (atSelect L s) (bindW (readMgr IsComplete)
      (\<lambda>complete. if complete then retW False else seqW requestNextPiece (retW True))) (\<lambda>_. atSelect L s) (failing L s)"
    by (rule worksW_bind [OF worksW_read], assumption)
      (intro worksW_if worksW_ret worksW_seq [OF works_requestNextPiece [OF L]])
qed

lemma works_handleEvent:
  assumes L: "wfLayout L"
  shows "worksW L (atSelect L s) (handleEvent count event) (\<lambda>_. atSelect L s) (failing L s)"
proof -
  let ?Q = "\<lambda>_. atSelect L s" and ?E = "failing L s"
  let ?T = "\<lambda>l0 h0 m. worksW L (\<lambda>l h. l = l0 \<and> h = h0) m ?Q ?E"
  note open_select = handleEvent_def Let_def workerEvent.case
  have stay: "?T l0 h0 (retW None)" if "atSelect L s l0 h0" for l0 h0 by (rule worksW_ret) (use that in simp)
  have stop: "?T l0 h0 (failW e)" if "atSelect L s l0 h0" "\<not> internalError e" for l0 h0 e
    by (rule worksW_fail) (use atSelect_failing that in auto)
  have closed: "?T l0 h0 (bindW (seqW (setW f) (retW True)) (\<lambda>continue. retW (Some continue)))"
    if "atSelect L s l0 h0" "\<And>l h. atSelect L s l h \<Longrightarrow> atSelect L s (f l) h" for l0 h0 f
    by (rule works_here [OF works_ready [OF works_update [OF that(2)]] that(1)])
  have release: "?T l0 h0 (seqW releaseCurrent (failW e) :: bool option workerAct)"
    if "atSelect L s l0 h0" "\<not> internalError e" for l0 h0 e
    by (rule works_here [OF worksW_seq [OF works_release_atSelect worksW_fail] that(1)]) (rule atSelect_failing, assumption, rule that(2))
  show ?thesis
  proof (cases event)
    case Cancelled
    show ?thesis unfolding open_select Cancelled by (rule worksW_get, rule works_here [OF works_update]) (simp_all add: atSelect_def)
  next
    case ContextReady
    show ?thesis unfolding open_select ContextReady by (rule worksW_get) (intro worksW_if stay stop internalError_simps)
  next
    case DeadlineReady
    show ?thesis unfolding open_select DeadlineReady
      by (rule worksW_get) (use stay release in \<open>auto simp: atSelect_def expecting_def split: option.split\<close>)
  next
    case UpdatesReady
    show ?thesis unfolding open_select UpdatesReady by (rule worksW_get) (rule works_here [OF works_updatesReady [OF L]])
  next
    case (ErrorReady e)
    show ?thesis unfolding open_select ErrorReady by (rule worksW_get) (intro worksW_if stay stop internalError_simps)
  next
    case ErrorsClosed
    show ?thesis unfolding open_select ErrorsClosed by (rule worksW_get, intro worksW_if stay closed) (simp_all add: atSelect_def)
  next
    case (MessageReady message)
    show ?thesis unfolding open_select MessageReady
      by (rule worksW_get, rule worksW_if [OF stay], assumption, rule works_here [OF works_ready [OF works_handleMessage [OF L]]])
  next
    case MessagesClosed
    show ?thesis unfolding open_select MessagesClosed by (rule worksW_get, intro worksW_if stay closed) (simp_all add: atSelect_def)
  qed
qed

lemma works_loopHead: "worksW L (atSelect L s) loopHead (\<lambda>_. atSelect L s) (failing L s)"
  unfolding loopHead_def
proof (rule worksW_get)
  let ?Q = "\<lambda>_. atSelect L s" and ?E = "failing L s"
  fix l0 h0 assume I: "atSelect L s l0 h0"
  let ?T = "\<lambda>m. worksW L (atSelect L s) m ?Q ?E"
  have watch: "?T (bindW (readMgr Updates) (\<lambda>u. seqW (setW (\<lambda>l. l\<lparr>watching := u\<rparr>)) (retW Waiting)))"
    by (rule worksW_bind [OF worksW_read worksW_seq [OF worksW_set worksW_ret]]) (simp_all add: atSelect_def)
  have leave: "?T (bindW (readMgr IsComplete) (\<lambda>complete.
      if complete then retW Returned else if cancelled l0 then failW ContextDone else failW EndOfStream))"
    by (rule worksW_bind [OF worksW_read], assumption, intro worksW_if worksW_ret worksW_fail atSelect_failing internalError_simps)
  show "worksW L (\<lambda>l h. l = l0 \<and> h = h0) (if messagesOpen l0 \<or> errorsOpen l0
      then bindW (readMgr Updates) (\<lambda>u. seqW (setW (\<lambda>l. l\<lparr>watching := u\<rparr>)) (retW Waiting))
      else bindW (readMgr IsComplete) (\<lambda>complete.
        if complete then retW Returned else if cancelled l0 then failW ContextDone else failW EndOfStream)) ?Q ?E"
    by (rule worksW_conseq [OF worksW_if [OF watch leave]]) (use I in simp_all)
qed

lemma works_workerLoop:
  assumes L: "wfLayout L"
  shows "worksW L (atSelect L s) (workerLoop count es) (\<lambda>_. atSelect L s) (failing L s)"
proof (induction es)
  case (Cons e es)
  show ?case unfolding workerLoop.simps
  proof (rule worksW_bind [OF works_handleEvent [OF L]])
    fix x
    have "worksW L (atSelect L s) (bindW loopHead (\<lambda>out. case out of
        Returned \<Rightarrow> retW Returned | Waiting \<Rightarrow> workerLoop count es)) (\<lambda>_. atSelect L s) (failing L s)"
    proof (rule worksW_bind [OF works_loopHead])
      fix out
      show "worksW L (atSelect L s) (case out of Returned \<Rightarrow> retW Returned | Waiting \<Rightarrow> workerLoop count es)
          (\<lambda>_. atSelect L s) (failing L s)"
        using Cons.IH by (cases out) (simp_all add: worksW_ret)
    qed
    then show "worksW L (atSelect L s) (case x of None \<Rightarrow> workerLoop count es
        | Some True \<Rightarrow> bindW loopHead (\<lambda>out. case out of Waiting \<Rightarrow> workerLoop count es | Returned \<Rightarrow> retW Returned)
        | Some False \<Rightarrow> retW Returned) (\<lambda>_. atSelect L s) (failing L s)"
      using Cons.IH by (auto simp: worksW_ret split: option.split bool.split)
  qed
qed (simp add: worksW_ret)

section \<open>\<open>RunClient\<close>\<close>

fun workerEnd :: "layout \<Rightarrow> bytes \<Rightarrow> claim \<Rightarrow> (workerError + outcome) \<times> worker option \<Rightarrow> bool" where
  "workerEnd L s h (r, None) \<longleftrightarrow> h = Idle \<and> (\<exists>e. r = Inl e \<and> \<not> internalError e)"
| "workerEnd L s h (r, Some l) \<longleftrightarrow>
     (if r = Inr Waiting then atSelect L s l h
      else h = Idle \<and> asking L s (sentOf l) \<and> (\<forall>e. r = Inl e \<longrightarrow> \<not> internalError e))"

lemma CloseClient_sent [simp]: "sent (Conn (CloseClient cl)) = sent (Conn cl)"
  by (simp add: CloseClient_def connClose_def)

lemma closeWorker_sent [simp]: "sentOf (closeWorker l) = sentOf l"
  by (simp add: closeWorker_def)

lemma worksW_safe: "worksW L P m Q E \<Longrightarrow> P l h \<Longrightarrow> safeP (pieceInv L) holdsClaim guar (postW Q E) (m l) h"
  by (simp add: worksW_def)

lemma safe_finishLoop:
  assumes "postW (\<lambda>_ :: outcome. atSelect L s) (failing L s) h (r, l)"
  shows "safeP (pieceInv L) holdsClaim guar (\<lambda>h (r, l). workerEnd L s h (r, Some l)) (finishLoop (r, l)) h"
proof (cases "r = Inr Waiting")
  case True
  then show ?thesis using assms by (simp add: finishLoop_def)
next
  case False
  let ?R = "\<lambda>c. asking L s (sent (Conn c))"
  have pre: "carries L l h \<and> asking L s (sentOf l) \<and> (\<forall>e. r = Inl e \<longrightarrow> \<not> internalError e)"
    using assms by (cases r) (simp_all add: failing_def atSelect_def asked_asking outstanding_asked)
  have "worksW L (\<lambda>l h. carries L l h \<and> asking L s (sentOf l)) releaseCurrent
      (\<lambda>_ l h. unclaimed l h \<and> expecting l \<and> ?R (client l)) (\<lambda>_ _ _. False)"
    by (rule works_release) simp
  then have "safeP (pieceInv L) holdsClaim guar (postW (\<lambda>_ l h. unclaimed l h \<and> expecting l \<and> ?R (client l)) (\<lambda>_ _ _. False))
      (releaseCurrent l) h" by (rule worksW_safe) (use pre in simp)
  then have "safeP (pieceInv L) holdsClaim guar (\<lambda>h y. safeP (pieceInv L) holdsClaim guar
      (\<lambda>h (r, l). workerEnd L s h (r, Some l)) (case y of (_, l') \<Rightarrow> Done (r, closeWorker l')) h) (releaseCurrent l) h"
  proof (rule safeP_mono)
    fix g and y :: "(workerError + unit) \<times> worker"
    assume "postW (\<lambda>_ l h. unclaimed l h \<and> expecting l \<and> ?R (client l)) (\<lambda>_ _ _. False) g y"
    then show "safeP (pieceInv L) holdsClaim guar (\<lambda>h (r, l). workerEnd L s h (r, Some l))
        (case y of (_, l') \<Rightarrow> Done (r, closeWorker l')) g"
      using False pre by (cases y rule: res_cases) (auto simp: unclaimed_def closeWorker_def)
  qed
  then show ?thesis unfolding finishLoop_def prod.case if_not_P [OF False] by (rule safeP_bind)
qed

lemma safe_RunClient:
  assumes L: "wfLayout L"
  shows "safeP (pieceInv L) holdsClaim guar (workerEnd L (sent (Conn cl))) (RunClient (Some cl) (Some meta) opts es) Idle"
proof -
  let ?n = "int (length (Pieces meta))" and ?s = "sent (Conn cl)"
  let ?l = "newWorker cl opts ?n" and ?post = "workerEnd L (sent (Conn cl))"
  let ?loop = "bindW loopHead (\<lambda>_. workerLoop ?n es)"
  have new: "currentPiece ?l = None" "blockDeadline ?l = None" by (simp_all add: newWorker_def)
  have start: "safeP (pieceInv L) holdsClaim guar (postW (\<lambda>_ l h. h = Idle \<and> atSelect L ?s l h)
      (\<lambda>e l h. h = Idle \<and> \<not> internalError e \<and> asking L ?s (sentOf l))) (writeW SendInterested NewInterested ?l) Idle"
  proof (rule worksW_safe [where P = "\<lambda>l h. h = Idle \<and> l = ?l"])
    show "worksW L (\<lambda>l h. h = Idle \<and> l = ?l) (writeW SendInterested NewInterested)
        (\<lambda>_ l h. h = Idle \<and> atSelect L ?s l h) (\<lambda>e l h. h = Idle \<and> \<not> internalError e \<and> asking L ?s (sentOf l))"
      by (rule worksW_write [OF frames(1)])
        (auto simp: atSelect_def carries_def expecting_def outstanding_def new asked_interested asking_interested newWorker_def)
  qed simp
  have loop: "safeP (pieceInv L) holdsClaim guar ?post
      (bindP (?loop l) (\<lambda>rl. bindP (finishLoop rl) (\<lambda>(r, l). Done (r, Some l)))) h"
    if I: "atSelect L ?s l h" for l h
  proof (rule safeP_bind)
    have "worksW L (atSelect L ?s) ?loop (\<lambda>_. atSelect L ?s) (failing L ?s)"
      by (rule worksW_bind [OF works_loopHead works_workerLoop [OF L]])
    then have "safeP (pieceInv L) holdsClaim guar (postW (\<lambda>_. atSelect L ?s) (failing L ?s)) (?loop l) h"
      using I by (rule worksW_safe)
    then show "safeP (pieceInv L) holdsClaim guar (\<lambda>h rl. safeP (pieceInv L) holdsClaim guar ?post
        (bindP (finishLoop rl) (\<lambda>(r, l). Done (r, Some l))) h) (?loop l) h"
    proof (rule safeP_mono)
      fix g and rl :: "(workerError + outcome) \<times> worker"
      assume p: "postW (\<lambda>_. atSelect L ?s) (failing L ?s) g rl"
      obtain r k where rl: "rl = (r, k)" by fastforce
      show "safeP (pieceInv L) holdsClaim guar ?post (bindP (finishLoop rl) (\<lambda>(r, l). Done (r, Some l))) g"
        using safe_finishLoop [OF p [unfolded rl]] unfolding rl
        by (intro safeP_bind) (erule safeP_mono, auto)
    qed
  qed
  have "safeP (pieceInv L) holdsClaim guar ?post (bindP (writeW SendInterested NewInterested ?l) (\<lambda>(r, l). case r of
      Inl e \<Rightarrow> Done (Inl e, Some (closeWorker l))
    | Inr _ \<Rightarrow> bindP (?loop l) (\<lambda>rl. bindP (finishLoop rl) (\<lambda>(r, l). Done (r, Some l))))) Idle"
  proof (rule safeP_bind, rule safeP_mono [OF start])
    fix g and y :: "(workerError + unit) \<times> worker"
    assume "postW (\<lambda>_ l h. h = Idle \<and> atSelect L ?s l h) (\<lambda>e l h. h = Idle \<and> \<not> internalError e \<and> asking L ?s (sentOf l)) g y"
    then show "safeP (pieceInv L) holdsClaim guar ?post (case y of (r, l) \<Rightarrow> case r of
        Inl e \<Rightarrow> Done (Inl e, Some (closeWorker l))
      | Inr _ \<Rightarrow> bindP (?loop l) (\<lambda>rl. bindP (finishLoop rl) (\<lambda>(r, l). Done (r, Some l)))) g"
      using loop by (cases y rule: res_cases) auto
  qed
  then show ?thesis by (simp add: RunClient_def Let_def)
qed

end
