(* ===== verification/SwarmSpec.thy ===== *)
theory SwarmSpec
  imports WorkerSpec
begin

text \<open>
  A swarm: the workers of one download, interleaved at the critical sections of the piece manager in any
  order. Whatever peers, trackers, timers and disk do, pieces are never shared or lost, nothing complete is
  touched, and what a worker sends is fixed by the pieces it has reserved.
\<close>

section \<open>Swarms of workers\<close>

text \<open>One call of \<open>StartWorker\<close>: its peer, its options and what its \<open>select\<close> will find.\<close>

record job =
  jobDial :: "bytes \<Rightarrow> int \<Rightarrow> clientError + conn"
  jobPeer :: PeerAddress
  jobOptions :: WorkerOptions
  jobEvents :: "workerEvent list"

definition workerOf :: "TorrentMeta \<Rightarrow> bytes \<Rightarrow> job \<Rightarrow> (world, (workerError + outcome) \<times> worker option) prog" where
  "workerOf meta peerID j = StartWorker (jobDial j) (jobPeer j) meta peerID (jobOptions j) (jobEvents j)"

definition hasEnded :: "(workerError + outcome) \<times> worker option \<Rightarrow> bool" where
  "hasEnded x \<longleftrightarrow> fst x \<noteq> Inr Waiting"

text \<open>What a worker on the connection \<open>c\<close> has sent.\<close>

definition sentBy :: "bytes \<Rightarrow> bytes \<Rightarrow> conn \<Rightarrow> bytes" where
  "sentBy infoHash peerID c = sent c @ handshakeRequest infoHash peerID"

definition startOf :: "TorrentMeta \<Rightarrow> bytes \<Rightarrow> job \<Rightarrow> bytes" where
  "startOf meta peerID j =
     (case jobDial j (addressString (jobPeer j)) (DialTimeout (withClientDefaults (OptClientConfig (jobOptions j)))) of
        Inl e \<Rightarrow> [] | Inr c \<Rightarrow> sentBy (InfoHash meta) peerID c)"

lemma ConnectContext_sent:
  assumes "ConnectContext dial address infoHash peerID cfg = Inr cl"
  shows "\<exists>c. dial (addressString address) (DialTimeout (withClientDefaults cfg)) = Inr c \<and>
    sent (Conn cl) = sentBy infoHash peerID c"
proof -
  obtain c c' where "dial (addressString address) (DialTimeout (withClientDefaults cfg)) = Inr c"
    "performHandshake infoHash peerID c = (Inr (), c')" "cl = NewClient c' address cfg"
    using assms by (auto simp: ConnectContext_def Let_def NewClient_defaults NewClient_conn andThen_def
        split: sum.splits prod.splits)
  then show ?thesis unfolding performHandshake_iff by (auto simp: NewClient_conn sentBy_def)
qed

lemma safe_workerOf:
  assumes "wfLayout L"
  shows "safeP (pieceInv L) holdsClaim guar (workerEnd L (startOf meta peerID j)) (workerOf meta peerID j) Idle"
proof (cases "ConnectContext (jobDial j) (jobPeer j) (InfoHash meta) peerID (OptClientConfig (jobOptions j))")
  case (Inl e)
  then show ?thesis by (simp add: workerOf_def StartWorker_def internalError_def)
next
  case (Inr cl)
  then have "sent (Conn cl) = startOf meta peerID j" using ConnectContext_sent by (fastforce simp: startOf_def)
  then show ?thesis using safe_RunClient [OF assms, of cl meta] Inr by (simp add: workerOf_def StartWorker_def)
qed

lemma swarm_crew:
  assumes inv: "managerInv w" and idle: "busy w = {}"
    and run: "swarmRuns (w, map (workerOf meta peerID) js) (w', ts)"
  shows "swarm.crew (layout (mgr w)) (\<lambda>i. workerEnd (layout (mgr w)) (startOf meta peerID (js ! i))) (w', ts)" "later w w'"
proof -
  let ?L = "layout (mgr w)"
  have L: "pieceInv ?L w" using inv by (simp add: pieceInv_def)
  have "swarm.crew ?L (\<lambda>i. workerEnd ?L (startOf meta peerID (js ! i))) (w, map (workerOf meta peerID) js)"
    by (rule swarm.crew_start [OF L idle, where h = Idle])
      (simp_all add: safe_workerOf [OF pieceInv_wfLayout [OF L]])
  from swarm.crew_runs [OF run this]
  show "swarm.crew ?L (\<lambda>i. workerEnd ?L (startOf meta peerID (js ! i))) (w', ts)" "later w w'" by simp_all
qed

lemma swarmRuns_length: "swarmRuns c c' \<Longrightarrow> length (snd c') = length (snd c)"
proof (induction rule: rtranclp_induct)
  case (step d e)
  from step(2) have "length (snd e) = length (snd d)" by cases simp
  then show ?case using step(3) by simp
qed simp

text \<open>The claims of the workers, and what they say of one that waits in its \<open>select\<close>.\<close>

lemma swarm_hands:
  assumes "managerInv w" "busy w = {}" "swarmRuns (w, map (workerOf meta peerID) js) (w', ts)"
  obtains hs where "busy w' = (\<Union>k<length js. claimed (hs ! k))" "\<And>k. k < length js \<Longrightarrow> holdsClaim (hs ! k) w'"
    "\<And>k x. k < length js \<Longrightarrow> ts ! k = Done x \<Longrightarrow> workerEnd (layout (mgr w)) (startOf meta peerID (js ! k)) (hs ! k) x"
    "\<And>k k'. k < length js \<Longrightarrow> k' < length js \<Longrightarrow> k \<noteq> k' \<Longrightarrow> claimed (hs ! k) \<inter> claimed (hs ! k') = {}"
proof -
  have len: "length ts = length js" using swarmRuns_length [OF assms(3)] by simp
  show ?thesis by (rule swarm.crew_hands [OF swarm_crew(1) [OF assms]], unfold len) (rule that)
qed

lemma workerEnd_claim:
  assumes "workerEnd L s h x" "i \<in> claimed h"
  shows "\<exists>l. x = (Inr Waiting, Some l) \<and> currentPiece l = Some (fst L ! i) \<and> h = Fetching i"
proof -
  obtain r lo where x: "x = (r, lo)" by fastforce
  with assms obtain l where "lo = Some l" "r = Inr Waiting" "carries L l h"
    by (cases lo) (auto simp: atSelect_def split: if_splits)
  then show ?thesis using assms(2) x by (cases "currentPiece l") (auto simp: carries_def)
qed

lemma workerEnd_piece:
  assumes "workerEnd L s h (Inr Waiting, Some l)" "currentPiece l = Some p"
  shows "\<exists>i<length (fst L). h = Fetching i \<and> p = fst L ! i \<and> Index p = int i"
  using assms by (auto simp: atSelect_def carries_def)

text \<open>The order of the requests, in terms of the pieces of the manager.\<close>

lemma orderly_requests:
  assumes inv: "managerInv w" and o: "orderly (layout (mgr w)) rs"
  shows "\<forall>j<length rs. \<exists>i<numPieces (mgr w). \<exists>start. 0 \<le> start \<and> start < pieceLen (pieces (mgr w) ! i) \<and>
    rs ! j = NewRequest (int i) start (min BlockSize (pieceLen (pieces (mgr w) ! i) - start)) \<and>
    (start = 0 \<or> 0 < j \<and> BlockSize \<le> start \<and> rs ! (j - 1) = NewRequest (int i) (start - BlockSize) BlockSize)"
proof (intro allI impI)
  fix j assume "j < length rs"
  then obtain p start where p: "p \<in> set (fst (layout (mgr w)))" "rs ! j = blockRequest p start" "0 \<le> start" "start < pieceLen p"
    "start = 0 \<or> 0 < j \<and> BlockSize \<le> start \<and> rs ! (j - 1) = blockRequest p (start - BlockSize)"
    using o unfolding orderly_def by blast
  then obtain i where i: "i < numPieces (mgr w)" "p = Piece.truncate (pieces (mgr w) ! i)"
    by (auto simp: layout_def in_set_conv_nth numPieces_def)
  then have q: "Index p = int i" "pieceLen p = pieceLen (pieces (mgr w) ! i)"
    using inv by (simp_all add: managerInv_def geometry_def Piece.defs)
  have "min BlockSize (pieceLen p - (start - BlockSize)) = BlockSize" using p(4) by simp
  then show "\<exists>i<numPieces (mgr w). \<exists>start. 0 \<le> start \<and> start < pieceLen (pieces (mgr w) ! i) \<and>
      rs ! j = NewRequest (int i) start (min BlockSize (pieceLen (pieces (mgr w) ! i) - start)) \<and>
      (start = 0 \<or> 0 < j \<and> BlockSize \<le> start \<and> rs ! (j - 1) = NewRequest (int i) (start - BlockSize) BlockSize)"
    using p i(1) by (intro exI [of _ i] exI [of _ start] conjI) (simp_all add: blockRequest_def q)
qed

end
