(* ===== verification/Seeder.thy ===== *)
theory Seeder
  imports SwarmSpec
begin

text \<open>
  A worker and a peer that has everything: whatever pieces are missing, if the peer announces all pieces,
  unchokes the worker and answers its requests with the right bytes, the worker reserves, assembles, verifies
  and stores one missing piece after the other and returns when the torrent is complete. The missing pieces then
  hold the peer's data, and nothing else on the disk has changed.
\<close>

section \<open>Running an action alone\<close>

lemma run_bind: "runP (m l) w = ((Inr x, l'), w') \<Longrightarrow> runP (bindW m f l) w = runP (f x l') w'"
  by (simp add: bindW_def)

lemma run_seq: "runP (m l) w = ((Inr x, l'), w') \<Longrightarrow> runP (seqW m n l) w = runP (n l') w'"
  by (simp add: seqW_def run_bind)

lemma run_basic [simp]:
  "runP (retW x l) w = ((Inr x, l), w)"
  "runP (setW f l) w = ((Inr (), f l), w)"
  "runP (checkW wrap r l) w = ((wrapErr wrap r, l), w)"
  "runP (getW g l) w = runP (g l l) w"
  "runP (seqW (setW f) n l) w = runP (n (f l)) w"
  "runP (bindW (readMgr q) h l) w = runP (h (q (mgr w)) l) w"
  by (simp_all add: retW_def setW_def checkW_def getW_def seqW_def bindW_def readMgr_def locked_def)

lemma run_onError: "runP (m l) w = ((Inr x, l'), w') \<Longrightarrow> runP (onErrorW m n l) w = ((Inr x, l'), w')"
  by (simp add: onErrorW_def)

section \<open>A worker that is being served\<close>

definition serving :: "nat \<Rightarrow> worker \<Rightarrow> bool" where
  "serving n l \<longleftrightarrow> \<not> connClosed (Conn (client l)) \<and> writes (Conn (client l)) = [] \<and> unchoked l \<and>
     peerBitfield l = replicate n True \<and> messagesOpen l"

definition fetching :: "nat \<Rightarrow> Piece \<Rightarrow> bytes \<Rightarrow> worker \<Rightarrow> bool" where
  "fetching n p got l \<longleftrightarrow> serving n l \<and> currentPiece l = Some p \<and> received l = got \<and> expecting l"

lemma fetching_watching [simp]: "fetching n p got (l\<lparr>watching := q\<rparr>) = fetching n p got l"
  by (simp add: fetching_def serving_def)

lemma writeW_run:
  assumes "\<not> connClosed (Conn (client l))" "writes (Conn (client l)) = []" "Serialize (Some m) = Some (messageFrame m)"
  shows "runP (writeW wrap m l) w = ((Inr (), l\<lparr>client := (client l)\<lparr>Conn := (Conn (client l))\<lparr>sent :=
    sent (Conn (client l)) @ messageFrame m\<rparr>\<rparr>\<rparr>), w)"
  using assms by (simp add: writeW_def WriteMessage_def SetDeadline_def act_eval writeFull_ok)

lemma requestBlock_run:
  assumes "serving n l" "currentPiece l = Some p" "int (length (received l)) < pieceLen p"
  shows "\<exists>l'. runP (requestBlock l) w = ((Inr (), l'), w) \<and> fetching n p (received l) l' \<and>
    sentOf l' = sentOf l @ messageFrame (blockRequest p (int (length (received l))))"
proof -
  let ?start = "int (length (received l))"
  let ?len = "minInt BlockSize (pieceLen p - ?start)"
  let ?l = "l\<lparr>expectedBegin := ?start, expectedLength := ?len\<rparr>"
  let ?c = "(client l)\<lparr>Conn := (Conn (client l))\<lparr>sent := sent (Conn (client l)) @ messageFrame (NewRequest (Index p) ?start ?len)\<rparr>\<rparr>"
  let ?l' = "?l\<lparr>client := ?c, blockDeadline := Some (BlockTimeout (options l))\<rparr>"
  have "runP (writeW (RequestFailed (Index p) ?start) (NewRequest (Index p) ?start ?len) ?l) w =
      ((Inr (), ?l\<lparr>client := ?c\<rparr>), w)"
    using assms(1) by (subst writeW_run) (simp_all add: serving_def frames)
  then have "runP (requestBlock l) w = ((Inr (), ?l'), w)"
    using assms(2,3) by (simp add: requestBlock_def Let_def run_seq resetBlockTimer_def stopBlockTimer_def)
  moreover have "fetching n p (received l) ?l'"
    using assms by (simp add: fetching_def serving_def expecting_def minInt_def)
  moreover have "sentOf ?l' = sentOf l @ messageFrame (blockRequest p ?start)" by (simp add: blockRequest_def minInt_def min_def)
  ultimately show ?thesis by blast
qed

lemma requestNextPiece_run:
  assumes "serving n l" "currentPiece l = None" "NextPieceForPeer (replicate n True) (mgr w) = (Some p, pm)" "0 < pieceLen p"
  shows "\<exists>l'. runP (requestNextPiece l) w = ((Inr (), l'), w\<lparr>mgr := pm\<rparr>) \<and> fetching n p [] l' \<and>
    sentOf l' = sentOf l @ messageFrame (blockRequest p 0)"
proof -
  let ?l = "l\<lparr>currentPiece := Some p, received := []\<rparr>"
  have s: "serving n ?l" "currentPiece ?l = Some p" using assms(1) by (simp_all add: serving_def)
  obtain l' where l': "runP (requestBlock ?l) (w\<lparr>mgr := pm\<rparr>) = ((Inr (), l'), w\<lparr>mgr := pm\<rparr>)" "fetching n p [] l'"
    "sentOf l' = sentOf l @ messageFrame (blockRequest p 0)"
    using requestBlock_run [OF s, of "w\<lparr>mgr := pm\<rparr>"] assms(4) by auto
  let ?take = "locked (\<lambda>w. case NextPieceForPeer (peerBitfield l) (mgr w) of (p, pm) \<Rightarrow> (p, w\<lparr>mgr := pm\<rparr>))"
  have "runP (?take l) w = ((Inr (Some p), l), w\<lparr>mgr := pm\<rparr>)"
    using assms(1,3) by (simp add: locked_def serving_def)
  note taken = run_bind [of ?take l, OF this]
  have "unchoked l" using assms(1) by (simp add: serving_def)
  then have "runP (requestNextPiece l) w = ((Inr (), l'), w\<lparr>mgr := pm\<rparr>)"
    using assms(2,4) l'(1) by (simp add: requestNextPiece_def taken run_onError)
  then show ?thesis using l'(2,3) by blast
qed

section \<open>Blocks\<close>

definition blockMessage :: "nat \<Rightarrow> nat \<Rightarrow> bytes \<Rightarrow> Message" where
  "blockMessage i start block =
     \<lparr>ID = Some MsgPiece, Payload = PutUint32 (of_nat i) @ PutUint32 (of_nat start) @ block\<rparr>"

function answers :: "nat \<Rightarrow> nat \<Rightarrow> bytes \<Rightarrow> Message list" where
  "answers i start d =
     (if d = [] then [] else blockMessage i start (take 16384 d) # answers i (start + 16384) (drop 16384 d))"
  by pat_completeness auto

termination answers by (relation "measure (\<lambda>(i, start, d). length d)") auto

declare answers.simps [simp del]

lemma ParsePiece_block:
  assumes "i < 2 ^ 32" "start < 2 ^ 32"
  shows "ParsePiece (Payload (blockMessage i start block)) = Inr (int i, int start, block)"
proof -
  let ?p = "PutUint32 (of_nat i) @ PutUint32 (of_nat start) @ block"
  have "sliceOf ?p 0 4 = PutUint32 (of_nat i)" "sliceOf ?p 4 8 = PutUint32 (of_nat start)"
    by (simp_all add: sliceOf_def)
  moreover have "uint (of_nat i :: 32 word) = int i" "uint (of_nat start :: 32 word) = int start"
    using assms uint_of_int_32 [of "int i"] uint_of_int_32 [of "int start"] by simp_all
  ultimately show ?thesis
    using uint32_le(1) [of "of_nat i"] uint32_le(1) [of "of_nat start"]
    by (simp add: blockMessage_def ParsePiece_def be_simps not_less)
qed

text \<open>One round of the loop.\<close>

lemma event_message:
  assumes "messagesOpen l" "runP (handleMessage count m l) w = ((Inr continue, l1), w1)"
  shows "runP (handleEvent count (MessageReady m) l) w = ((Inr (Some continue), l1), w1)"
  using assms(1) by (simp add: handleEvent_def Let_def run_bind [of "handleMessage count m" l, OF assms(2)])

lemma loop_message:
  assumes "messagesOpen l" "runP (handleMessage count m l) w = ((Inr continue, l1), w1)" "messagesOpen l1"
  shows "runP (workerLoop count (MessageReady m # es) l) w =
    (if continue then runP (workerLoop count es (l1\<lparr>watching := Updates (mgr w1)\<rparr>)) w1 else ((Inr Returned, l1), w1))"
proof -
  have "runP (handleEvent count (MessageReady m) l) w = ((Inr (Some continue), l1), w1)"
    using assms(1,2) by (rule event_message)
  moreover have "runP (loopHead l1) w1 = ((Inr Waiting, l1\<lparr>watching := Updates (mgr w1)\<rparr>), w1)"
    using assms(3) by (simp add: loopHead_def)
  ultimately show ?thesis by (simp add: run_bind)
qed

lemma handle_piece: "ID m = Some MsgPiece \<Longrightarrow> handleMessage count m = pieceMessage (Payload m)"
  by (simp add: handleMessage_def msg_ids)

lemma handle_block:
  assumes f: "fetching n p got l" and p: "Index p = int i" "i < 2 ^ 32" "pieceLen p \<le> 2 ^ 32"
    and block: "int (length block) = min BlockSize (pieceLen p - int (length got))"
  shows "\<exists>l1. serving n l1 \<and> currentPiece l1 = Some p \<and> received l1 = got @ block \<and> blockDeadline l1 = None \<and>
    sentOf l1 = sentOf l \<and> runP (handleMessage count (blockMessage i (length got) block) l) w =
      (if int (length (got @ block)) < pieceLen p
       then runP (seqW (onErrorW requestBlock releaseCurrent) (retW True) l1) w
       else runP (completeCurrent (int i) (got @ block) l1) w)"
proof -
  let ?l1 = "l\<lparr>blockDeadline := None, received := got @ block\<rparr>"
  have e: "currentPiece l = Some p" "received l = got" "expectedBegin l = int (length got)" "int (length got) < pieceLen p"
    "expectedLength l = min BlockSize (pieceLen p - int (length got))" "serving n l"
    using f by (auto simp: fetching_def expecting_def)
  have parse: "ParsePiece (Payload (blockMessage i (length got) block)) = Inr (int i, int (length got), block)"
    using p e(4) by (intro ParsePiece_block) auto
  have sum: "\<not> int (length got) + int (length block) > pieceLen p" using block by simp
  have "runP (pieceMessage (Payload (blockMessage i (length got) block)) l) w =
      (if int (length (got @ block)) < pieceLen p
       then runP (seqW (onErrorW requestBlock releaseCurrent) (retW True) ?l1) w
       else runP (completeCurrent (int i) (got @ block) ?l1) w)"
    unfolding pieceMessage_def
    by (subst run_bind [where x = "(int i, int (length got), block)" and l' = l and w' = w])
      (use e p(1) block sum parse in \<open>simp_all add: stopBlockTimer_def\<close>)
  then show ?thesis using e by (intro exI [of _ ?l1]) (simp add: handle_piece blockMessage_def serving_def)
qed

section \<open>A piece\<close>

lemma completeCurrent_run:
  assumes s: "serving n l" "blockDeadline l = None" and run: "CompletePiece (int i) d w = (Inr (), w1)"
  shows "\<exists>l1. serving n l1 \<and> currentPiece l1 = None \<and> sentOf l1 = sentOf l \<and>
    runP (completeCurrent (int i) d l) w = (if IsComplete (mgr w1) then ((Inr False, l1), w1)
      else runP (seqW requestNextPiece (retW True) l1) w1)"
proof -
  let ?a = "l\<lparr>currentPiece := None, received := []\<rparr>"
  let ?b = "if OnProgress (options l) then ?a\<lparr>reports := reports l @ [Progress (mgr w1)]\<rparr> else ?a"
  have "runP (liftW (CompleteFailed (int i)) (completeSteps (int i) d) ?a) w = ((Inr (), ?a), w1)"
    using run by (simp add: liftW_def runP_completeSteps)
  note done' = run_seq [of "liftW (CompleteFailed (int i)) (completeSteps (int i) d)" ?a, OF this]
  have "runP (completeCurrent (int i) d l) w = (if IsComplete (mgr w1) then ((Inr False, ?b), w1)
      else runP (seqW requestNextPiece (retW True) ?b) w1)"
    by (simp add: completeCurrent_def done')
  moreover have "serving n ?b" "currentPiece ?b = None" "sentOf ?b = sentOf l" using s by (simp_all add: serving_def)
  ultimately show ?thesis by blast
qed

text \<open>The block that completes a piece: the worker returns, or has reserved the next piece.\<close>

lemma last_block_run:
  assumes l: "serving n l1" "blockDeadline l1 = None" "messagesOpen l"
    and run: "CompletePiece (int i) d w = (Inr (), w1)"
    and h: "runP (handleMessage count message l) w = runP (completeCurrent (int i) d l1) w"
    and following: "\<not> IsComplete (mgr w1) \<Longrightarrow> NextPieceForPeer (replicate n True) (mgr w1) = (Some q, pm) \<and> 0 < pieceLen q"
  shows "\<exists>l2. if IsComplete (mgr w1)
    then currentPiece l2 = None \<and> (\<forall>es. runP (workerLoop count (MessageReady message # es) l) w = ((Inr Returned, l2), w1))
    else fetching n q [] l2 \<and> sentOf l2 = sentOf l1 @ messageFrame (blockRequest q 0) \<and>
      (\<forall>es. runP (workerLoop count (MessageReady message # es) l) w = runP (workerLoop count es l2) (w1\<lparr>mgr := pm\<rparr>))"
proof -
  from completeCurrent_run [OF l(1,2) run] h obtain l2 where l2: "serving n l2" "currentPiece l2 = None" "sentOf l2 = sentOf l1"
    and h': "runP (handleMessage count message l) w =
      (if IsComplete (mgr w1) then ((Inr False, l2), w1) else runP (seqW requestNextPiece (retW True) l2) w1)" by auto
  have m2: "messagesOpen l2" using l2(1) by (simp add: serving_def)
  show ?thesis
  proof (cases "IsComplete (mgr w1)")
    case True
    then have "runP (handleMessage count message l) w = ((Inr False, l2), w1)" using h' by simp
    from loop_message [OF l(3) this m2] True l2(2) show ?thesis by auto
  next
    case inc: False
    from following [OF inc] requestNextPiece_run [OF l2(1,2), of w1 q pm] l2(3)
    obtain l3 where l3: "runP (requestNextPiece l2) w1 = ((Inr (), l3), w1\<lparr>mgr := pm\<rparr>)" "fetching n q [] l3"
      "sentOf l3 = sentOf l1 @ messageFrame (blockRequest q 0)" by auto
    note nextDone = run_seq [of requestNextPiece l2, OF l3(1)]
    have h3: "runP (handleMessage count message l) w = ((Inr True, l3), w1\<lparr>mgr := pm\<rparr>)" using h' inc by (simp add: nextDone)
    have "messagesOpen l3" using l3(2) by (simp add: fetching_def serving_def)
    from loop_message [OF l(3) h3 this] inc l3(2,3) show ?thesis
      by (intro exI [of _ "l3\<lparr>watching := Updates (mgr (w1\<lparr>mgr := pm\<rparr>))\<rparr>"]) simp
  qed
qed

section \<open>All missing pieces\<close>

definition missing :: "PieceManager \<Rightarrow> nat list" where
  "missing pm = filter (\<lambda>j. stateAt pm j = PieceMissing) [0..<numPieces pm]"

lemma missing_distinct: "distinct (missing pm)" "sorted (missing pm)"
  by (simp_all add: missing_def sorted_wrt_filter)

lemma filter_remove: "distinct xs \<Longrightarrow> xs = j # ys \<Longrightarrow> filter (\<lambda>x. x \<noteq> j) xs = ys"
  by (auto intro: filter_True)

lemma next_missing:
  assumes g: "geometry pm" and m: "missing pm = j # js"
  shows "NextPieceForPeer (replicate (numPieces pm) True) pm =
      (Some (Piece.truncate (pieces pm ! j)), setPieceState j PieceDownloading pm)"
    "missing (setPieceState j PieceDownloading pm) = js" "j < numPieces pm" "stateAt pm j = PieceMissing"
proof -
  have "j \<in> set (missing pm)" using m by simp
  then show j: "j < numPieces pm" "stateAt pm j = PieceMissing" by (simp_all add: missing_def)
  have av: "available (replicate (numPieces pm) True) (pieces pm ! i) \<longleftrightarrow> stateAt pm i = PieceMissing"
    if "i < numPieces pm" for i
    using that g by (auto simp: available_def geometry_def stateAt_def)
  have least: "j \<le> i" if "i < numPieces pm" "stateAt pm i = PieceMissing" for i
  proof -
    have "i \<in> set (missing pm)" using that by (simp add: missing_def)
    then show ?thesis using missing_distinct(2) [of pm] m by auto
  qed
  show "NextPieceForPeer (replicate (numPieces pm) True) pm =
      (Some (Piece.truncate (pieces pm ! j)), setPieceState j PieceDownloading pm)"
    using NextPieceForPeer_cases [of "replicate (numPieces pm) True" pm]
  proof (elim disjE exE conjE)
    fix k assume k: "k < numPieces pm" "available (replicate (numPieces pm) True) (pieces pm ! k)"
      "\<forall>i<k. \<not> available (replicate (numPieces pm) True) (pieces pm ! i)"
      "NextPieceForPeer (replicate (numPieces pm) True) pm =
        (Some (Piece.truncate (pieces pm ! k)), setPieceState k PieceDownloading pm)"
    have "k = j" using k(1-3) least [of k] av [OF k(1)] av [OF j(1)] j(2) by (meson linorder_neqE_nat not_less)
    then show ?thesis using k(4) by simp
  qed (use av j in auto)
  have "missing (setPieceState j PieceDownloading pm) = filter (\<lambda>x. x \<noteq> j) (missing pm)"
    using layout_eq(3) [OF setPieceState_layout [of j PieceDownloading pm]] setPieceState_state [OF j(1)]
    by (auto simp: missing_def intro: filter_cong)
  then show "missing (setPieceState j PieceDownloading pm) = js"
    using filter_remove [OF missing_distinct(1) m] by simp
qed

section \<open>Completing them\<close>

text \<open>On a disk whose calls work, all that changes is the data of the storage's files.\<close>

definition undisturbed :: "world \<Rightarrow> world \<Rightarrow> bool" where
  "undisturbed w w' \<longleftrightarrow> faults (disk w') = [] \<and>
     (\<forall>q. q \<notin> spanPath ` set (spans (storage (mgr w))) \<longrightarrow> nodes (disk w') q = nodes (disk w) q)"

lemma undisturbed_trans:
  "undisturbed u v \<Longrightarrow> undisturbed v w \<Longrightarrow> storage (mgr v) = storage (mgr u) \<Longrightarrow> undisturbed u w"
  by (simp add: undisturbed_def)

text \<open>These pieces now hold the data \<open>D\<close>, the others what they held.\<close>

definition fetched :: "nat list \<Rightarrow> (nat \<Rightarrow> bytes) \<Rightarrow> world \<Rightarrow> world \<Rightarrow> bool" where
  "fetched js D w w' \<longleftrightarrow> (\<forall>k<numPieces (mgr w). pieceData w' k = (if k \<in> set js then D k else pieceData w k))"

lemma fetched_trans:
  "fetched [i] D u v \<Longrightarrow> fetched js D v w \<Longrightarrow> numPieces (mgr v) = numPieces (mgr u) \<Longrightarrow> fetched (i # js) D u w"
  by (auto simp: fetched_def)

lemma fetched_layout: "layout (mgr v) = layout (mgr w) \<Longrightarrow> disk v = disk w \<Longrightarrow> fetched js D v x = fetched js D w x"
  using layout_eq(1,3) [of "mgr v" "mgr w"] pieceData_layout [of v w] by (auto simp: fetched_def)

lemma WritePiece_frame:
  assumes "wfStorage s st" "WritePiece st i pl d s = (r, t)" "faults s = []"
  shows "faults t = [] \<and> (\<forall>q. q \<notin> spanPath ` set (spans st) \<longrightarrow> nodes t q = nodes s q)"
  using assms WriteAt_effect [OF assms(1), of d "i64 (i * pl)" r t]
  by (auto simp: WritePiece_def Let_def split: if_splits)

lemma CompletePiece_undisturbed:
  assumes inv: "managerInv w" and run: "CompletePiece (int i) d w = (Inr (), w')" and f: "faults (disk w) = []"
  shows "undisturbed w w'"
proof -
  obtain x w1 where b: "beginComplete (int i) w = (Inr x, w1)" and fin: "finishComplete (int i) d x w1 = (Inr (), w')"
    using run by (auto simp: CompletePiece_def)
  have w1: "disk w1 = disk w" "storage (mgr w1) = storage (mgr w)"
    using b by (auto simp: beginComplete_def Let_def setPieceState_def split: if_splits)
  obtain len hash where x: "x = (len, hash)" by (cases x)
  obtain q dk where wr: "WritePiece (storage (mgr w1)) (int i) (standardPieceLength (mgr w1)) d (disk w1) = (q, dk)" by fastforce
  have "disk w' = dk" using fin wr x
    by (auto simp: finishComplete_def failPiece_def act_eval onDisk_def publish_def onMgr_def split: if_splits sum.splits)
  then show ?thesis using WritePiece_frame [OF _ wr] inv f w1 by (simp add: managerInv_def undisturbed_def)
qed

text \<open>The world while the worker fetches piece \<open>i\<close> and the pieces \<open>js\<close> are still missing.\<close>

definition underway :: "world \<Rightarrow> nat \<Rightarrow> nat list \<Rightarrow> bool" where
  "underway w i js \<longleftrightarrow> managerInv w \<and> faults (disk w) = [] \<and> \<not> closed (storage (mgr w)) \<and> i < numPieces (mgr w) \<and>
     stateAt (mgr w) i = PieceDownloading \<and> missing (mgr w) = js \<and>
     (\<forall>j<numPieces (mgr w). j \<noteq> i \<longrightarrow> stateAt (mgr w) j \<in> {PieceMissing, PieceComplete})"

definition goodData :: "world \<Rightarrow> (nat \<Rightarrow> bytes) \<Rightarrow> bool" where
  "goodData w D \<longleftrightarrow> (\<forall>i<numPieces (mgr w). int (length (D i)) = pieceLen (pieces (mgr w) ! i) \<and>
     sha1 (D i) = Hash (pieces (mgr w) ! i))"

lemma goodData_layout: "layout (mgr w') = layout (mgr w) \<Longrightarrow> goodData w D \<Longrightarrow> goodData w' D"
  using layout_eq(3,7) [of "mgr w'" "mgr w"] by (auto simp: goodData_def)

lemma complete_one:
  assumes u: "underway w i js" and D: "goodData w D"
  obtains w1 where "CompletePiece (int i) (D i) w = (Inr (), w1)" "managerInv w1" "faults (disk w1) = []"
    "layout (mgr w1) = layout (mgr w)" "stateAt (mgr w1) i = PieceComplete" "missing (mgr w1) = js"
    "\<forall>j<numPieces (mgr w). stateAt (mgr w1) j \<in> {PieceMissing, PieceComplete}" "undisturbed w w1" "fetched [i] D w w1"
proof -
  obtain r w1 where run: "CompletePiece (int i) (D i) w = (r, w1)" by fastforce
  note U = u [unfolded underway_def]
  have "int (length (D i)) = pieceLen (pieces (mgr w) ! i)" "sha1 (D i) = Hash (pieces (mgr w) ! i)"
    using D U by (simp_all add: goodData_def)
  with CompletePiece_attempted [OF _ _ _ run] U
  have r: "r = Inr ()" and a: "attempted i (D i) w r w1" by blast+
  then have o: "managerInv w1" "onlyPiece i w w1" "stateAt (mgr w1) i = PieceComplete" by (simp_all add: attempted_def)
  have lay: "layout (mgr w1) = layout (mgr w)" using o(2) by (simp add: onlyPiece_def)
  have other: "stateAt (mgr w1) j = stateAt (mgr w) j" if "j < numPieces (mgr w)" "j \<noteq> i" for j
    using o(2) that by (simp add: onlyPiece_def)
  have "stateAt (mgr w1) j = PieceMissing \<longleftrightarrow> stateAt (mgr w) j = PieceMissing" if "j < numPieces (mgr w)" for j
    using other [OF that] o(3) U by (cases "j = i") auto
  then have "missing (mgr w1) = js"
    using U layout_eq(3) [OF lay] by (auto simp: missing_def intro: filter_cong)
  moreover have "\<forall>j<numPieces (mgr w). stateAt (mgr w1) j \<in> {PieceMissing, PieceComplete}"
    using other o(3) U by (metis insertI1 insertI2)
  moreover have "CompletePiece (int i) (D i) w = (Inr (), w1)" using run r by simp
  moreover from this have "undisturbed w w1" using CompletePiece_undisturbed U by blast
  moreover from this have "faults (disk w1) = []" by (simp add: undisturbed_def)
  moreover have "fetched [i] D w w1" using a r by (auto simp: fetched_def attempted_def onlyPiece_def)
  ultimately show ?thesis using that [of w1] o(1,3) lay by blast
qed

lemma small_piece:
  assumes "managerInv w" "i < numPieces (mgr w)"
  shows "Index (Piece.truncate (pieces (mgr w) ! i)) = int i" "0 < pieceLen (Piece.truncate (pieces (mgr w) ! i))"
    "pieceLen (Piece.truncate (pieces (mgr w) ! i)) \<le> 2 ^ 32"
  using assms piece_range(2,4) [of "mgr w" i]
  by (auto simp: managerInv_def geometry_def Piece.defs MaxPieceLength_def)

text \<open>Reserving the first missing piece.\<close>

lemma reserve_underway:
  assumes inv: "managerInv w" and m: "missing (mgr w) = j # js"
    and free: "\<And>k. k < numPieces (mgr w) \<Longrightarrow> stateAt (mgr w) k \<in> {PieceMissing, PieceComplete}"
    and ok: "\<not> closed (storage (mgr w))" "faults (disk w) = []"
  shows "underway (w\<lparr>mgr := setPieceState j PieceDownloading (mgr w)\<rparr>) j js \<and>
    Piece.truncate (pieces (setPieceState j PieceDownloading (mgr w)) ! j) = Piece.truncate (pieces (mgr w) ! j)"
proof -
  have g: "geometry (mgr w)" using inv by (simp add: managerInv_def)
  note nm = next_missing [OF g m]
  let ?pm = "setPieceState j PieceDownloading (mgr w)"
  let ?w = "w\<lparr>mgr := ?pm\<rparr>"
  have lay: "layout (mgr ?w) = layout (mgr w)" by simp
  have "managerInv ?w"
    by (rule managerInv_onlyPiece [OF inv onlyPiece_set(1) [OF inv nm(3)]]) (simp add: setPieceState_state nm(3))
  moreover have "\<not> closed (storage (mgr ?w))" using layout_eq(1) [OF lay] ok by simp
  moreover have "numPieces (mgr ?w) = numPieces (mgr w)" by (rule layout_eq(3) [OF lay])
  ultimately have "underway ?w j js" using nm setPieceState_state [OF nm(3)] free ok by (simp add: underway_def)
  moreover have "Piece.truncate (pieces ?pm ! j) = Piece.truncate (pieces (mgr w) ! j)"
    using layout_eq(7) [OF setPieceState_layout [of j PieceDownloading "mgr w"]] nm(3)
      layout_eq(3) [OF setPieceState_layout [of j PieceDownloading "mgr w"]] by (simp add: Piece.defs)
  ultimately show ?thesis by blast
qed

section \<open>One answer after the other\<close>

text \<open>The piece the worker fetches, and what the peer has still to send: \<open>d\<close> of piece \<open>i\<close>, then the pieces \<open>js\<close>.\<close>

abbreviation pieceAt :: "world \<Rightarrow> nat \<Rightarrow> Piece" where
  "pieceAt w i \<equiv> Piece.truncate (pieces (mgr w) ! i)"

definition script :: "(nat \<Rightarrow> bytes) \<Rightarrow> nat \<Rightarrow> nat \<Rightarrow> bytes \<Rightarrow> nat list \<Rightarrow> Message list" where
  "script D i start d js = answers i start d @ concat (map (\<lambda>j. answers j 0 (D j)) js)"

definition midway :: "(nat \<Rightarrow> bytes) \<Rightarrow> world \<Rightarrow> nat \<Rightarrow> bytes \<Rightarrow> bytes \<Rightarrow> nat list \<Rightarrow> worker \<Rightarrow> bool" where
  "midway D w i got d js l \<longleftrightarrow> underway w i js \<and> goodData w D \<and> numPieces (mgr w) \<le> 2 ^ 32 \<and> D i = got @ d \<and>
     fetching (numPieces (mgr w)) (pieceAt w i) got l"

lemma midwayD:
  assumes "midway D w i got d js l"
  shows "Index (pieceAt w i) = int i" "i < 2 ^ 32" "pieceLen (pieceAt w i) \<le> 2 ^ 32" "int (length (got @ d)) = pieceLen (pieceAt w i)"
    "d \<noteq> []" "messagesOpen l"
proof -
  have u: "underway w i js" and D: "D i = got @ d" and f: "fetching (numPieces (mgr w)) (pieceAt w i) got l" and g: "goodData w D"
    using assms by (simp_all add: midway_def)
  have i: "managerInv w" "i < numPieces (mgr w)" using u by (simp_all add: underway_def)
  show "Index (pieceAt w i) = int i" "pieceLen (pieceAt w i) \<le> 2 ^ 32" using small_piece [OF i] by simp_all
  show "i < 2 ^ 32" using i(2) assms by (simp add: midway_def)
  show len: "int (length (got @ d)) = pieceLen (pieceAt w i)" using g i(2) by (simp add: D [symmetric] goodData_def Piece.defs)
  have "int (length got) < pieceLen (pieceAt w i)" using f by (auto simp: fetching_def expecting_def)
  then show "d \<noteq> []" using len by auto
  show "messagesOpen l" using f by (simp add: fetching_def serving_def)
qed

text \<open>What one answer does: the worker has asked for the next block or the next piece, or has returned.\<close>

definition advanced :: "(nat \<Rightarrow> bytes) \<Rightarrow> world \<Rightarrow> nat list \<Rightarrow> world \<Rightarrow> nat list \<Rightarrow> bool" where
  "advanced D w js w' js' \<longleftrightarrow> layout (mgr w') = layout (mgr w) \<and> undisturbed w w' \<and>
     (\<forall>x. fetched js' D w' x \<longrightarrow> fetched js D w x)"

lemma advancedD:
  assumes "advanced D w js w' []"
  shows "layout (mgr w') = layout (mgr w)" "undisturbed w w'" "fetched js D w w'"
proof -
  have "fetched [] D w' w'" by (simp add: fetched_def)
  then show "layout (mgr w') = layout (mgr w)" "undisturbed w w'" "fetched js D w w'"
    using assms unfolding advanced_def by blast+
qed

lemma advanced_trans:
  assumes "advanced D u is v js" "advanced D v js w ks"
  shows "advanced D u is w ks"
  using assms layout_eq(1) [of "mgr v" "mgr u"] undisturbed_trans by (auto simp: advanced_def)

definition asksNext :: "int \<Rightarrow> (nat \<Rightarrow> bytes) \<Rightarrow> world \<Rightarrow> nat list \<Rightarrow> worker \<Rightarrow> Message \<Rightarrow> Message list \<Rightarrow> bool" where
  "asksNext count D w js l m rest \<longleftrightarrow> (\<exists>l' w' i' got' d' js'. rest = script D i' (length got') d' js' \<and> midway D w' i' got' d' js' l' \<and>
     advanced D w js w' (i' # js') \<and> sentOf l' = sentOf l @ messageFrame (blockRequest (pieceAt w' i') (int (length got'))) \<and>
     (\<forall>es. runP (workerLoop count (MessageReady m # es) l) w = runP (workerLoop count es l') w'))"

definition finishes :: "int \<Rightarrow> (nat \<Rightarrow> bytes) \<Rightarrow> world \<Rightarrow> nat list \<Rightarrow> worker \<Rightarrow> Message \<Rightarrow> bool" where
  "finishes count D w js l m \<longleftrightarrow> (\<exists>l' w'. currentPiece l' = None \<and> IsComplete (mgr w') \<and> managerInv w' \<and> advanced D w js w' [] \<and>
     (\<forall>es. runP (workerLoop count (MessageReady m # es) l) w = ((Inr Returned, l'), w')))"

lemma script_more: "16384 < length d \<Longrightarrow>
    script D i start d js = blockMessage i start (take 16384 d) # script D i (start + 16384) (drop 16384 d) js"
  by (simp add: script_def answers.simps [of i start d]) (metis list.size(3) not_less_zero)

lemma script_last: "d \<noteq> [] \<Longrightarrow> length d \<le> 16384 \<Longrightarrow>
    script D i start d js = blockMessage i start d # concat (map (\<lambda>j. answers j 0 (D j)) js)"
  by (simp add: script_def answers.simps [of i start d] answers.simps [of i _ "[]"])

lemma block_asks:
  assumes m: "midway D w i got d js l" and long: "16384 < length d"
  shows "asksNext count D w (i # js) l (blockMessage i (length got) (take 16384 d)) (script D i (length got + 16384) (drop 16384 d) js)"
proof -
  let ?p = "pieceAt w i" and ?n = "numPieces (mgr w)" and ?block = "take 16384 d" and ?d = "drop 16384 d"
  note M = midwayD [OF m]
  have f: "fetching ?n ?p got l" using m by (simp add: midway_def)
  have len: "int (length ?block) = min BlockSize (pieceLen ?p - int (length got))" and less: "int (length (got @ ?block)) < pieceLen ?p"
    using M(4) long by (simp_all add: BlockSize_def)
  from handle_block [OF f M(1-3) len] less obtain l1 where l1: "serving ?n l1" "currentPiece l1 = Some ?p" "received l1 = got @ ?block"
    "sentOf l1 = sentOf l" and h: "runP (handleMessage count (blockMessage i (length got) ?block) l) w =
      runP (seqW (onErrorW requestBlock releaseCurrent) (retW True) l1) w" by (metis (no_types, lifting))
  obtain l2 where l2: "runP (requestBlock l1) w = ((Inr (), l2), w)" "fetching ?n ?p (got @ ?block) l2"
    "sentOf l2 = sentOf l @ messageFrame (blockRequest ?p (int (length (got @ ?block))))"
    using requestBlock_run [OF l1(1,2), of w] less l1(3,4) by auto
  have "runP (onErrorW requestBlock releaseCurrent l1) w = ((Inr (), l2), w)" by (rule run_onError) (rule l2(1))
  note sentNext = run_seq [of "onErrorW requestBlock releaseCurrent" l1, OF this]
  have h': "runP (handleMessage count (blockMessage i (length got) ?block) l) w = ((Inr True, l2), w)" using h by (simp add: sentNext)
  have "messagesOpen l2" using l2(2) by (simp add: fetching_def serving_def)
  from loop_message [OF M(6) h' this] have go: "runP (workerLoop count (MessageReady (blockMessage i (length got) ?block) # es) l) w =
      runP (workerLoop count es (l2\<lparr>watching := Updates (mgr w)\<rparr>)) w" for es by simp
  have "midway D w i (got @ ?block) ?d js (l2\<lparr>watching := Updates (mgr w)\<rparr>)" using m l2(2) by (simp add: midway_def)
  moreover have "script D i (length got + 16384) ?d js = script D i (length (got @ ?block)) ?d js" using long by simp
  moreover have "advanced D w (i # js) w (i # js)" using m by (simp add: advanced_def undisturbed_def midway_def underway_def)
  ultimately show ?thesis unfolding asksNext_def using l2(3) go by fastforce
qed

text \<open>The last block of a piece: the piece is verified and stored.\<close>

lemma block_completes:
  assumes m: "midway D w i got d js l" and short: "length d \<le> 16384" and w1: "CompletePiece (int i) (D i) w = (Inr (), w1)"
    and following: "\<not> IsComplete (mgr w1) \<Longrightarrow> NextPieceForPeer (replicate (numPieces (mgr w)) True) (mgr w1) = (Some q, pm) \<and> 0 < pieceLen q"
  shows "\<exists>l2. if IsComplete (mgr w1)
    then currentPiece l2 = None \<and> (\<forall>es. runP (workerLoop count (MessageReady (blockMessage i (length got) d) # es) l) w = ((Inr Returned, l2), w1))
    else fetching (numPieces (mgr w)) q [] l2 \<and> sentOf l2 = sentOf l @ messageFrame (blockRequest q 0) \<and>
      (\<forall>es. runP (workerLoop count (MessageReady (blockMessage i (length got) d) # es) l) w = runP (workerLoop count es l2) (w1\<lparr>mgr := pm\<rparr>))"
proof -
  let ?p = "pieceAt w i" and ?n = "numPieces (mgr w)"
  note M = midwayD [OF m]
  have f: "fetching ?n ?p got l" and D: "D i = got @ d" using m by (simp_all add: midway_def)
  have len: "int (length d) = min BlockSize (pieceLen ?p - int (length got))" and all: "\<not> int (length (got @ d)) < pieceLen ?p"
    using M(4) short by (simp_all add: BlockSize_def)
  from handle_block [OF f M(1-3) len] all obtain l1 where l1: "serving ?n l1" "blockDeadline l1 = None" "sentOf l1 = sentOf l"
    and h: "runP (handleMessage count (blockMessage i (length got) d) l) w = runP (completeCurrent (int i) (D i) l1) w"
    unfolding D by (metis (no_types, lifting))
  from last_block_run [OF l1(1,2) M(6) w1 h following] show ?thesis unfolding l1(3) .
qed

lemma script_step:
  assumes m: "midway D w i got d js l"
  shows "\<exists>a rest. script D i (length got) d js = a # rest \<and>
    (rest = [] \<and> finishes count D w (i # js) l a \<or> asksNext count D w (i # js) l a rest)"
proof (cases "16384 < length d")
  case True
  then show ?thesis using block_asks [OF m True] script_more [OF True] by blast
next
  case False
  note M = midwayD [OF m]
  let ?n = "numPieces (mgr w)" and ?a = "blockMessage i (length got) d" and ?rest = "concat (map (\<lambda>j. answers j 0 (D j)) js)"
  have script: "script D i (length got) d js = ?a # ?rest" using False M(5) by (intro script_last) simp_all
  from m have u: "underway w i js" and g: "goodData w D" and small: "?n \<le> 2 ^ 32" by (simp_all add: midway_def)
  obtain w1 where w1: "CompletePiece (int i) (D i) w = (Inr (), w1)" "managerInv w1" "layout (mgr w1) = layout (mgr w)"
    "missing (mgr w1) = js" "\<forall>j<?n. stateAt (mgr w1) j \<in> {PieceMissing, PieceComplete}" "faults (disk w1) = []"
    "undisturbed w w1" "fetched [i] D w w1"
    using complete_one [OF u g] by metis
  have num: "numPieces (mgr w1) = ?n" by (rule layout_eq(3) [OF w1(3)])
  show ?thesis
  proof (cases js)
    case Nil
    then have complete: "IsComplete (mgr w1)" using w1(4,5) num by (auto simp: IsComplete_iff missing_def filter_empty_conv)
    then obtain l2 where l2: "currentPiece l2 = None" "\<And>es. runP (workerLoop count (MessageReady ?a # es) l) w = ((Inr Returned, l2), w1)"
      using block_completes [OF m _ w1(1)] False by auto
    have "fetched [] D w1 x \<Longrightarrow> fetched [i] D w x" for x using w1(8) num by (auto simp: fetched_def)
    then have "advanced D w (i # js) w1 []" using w1(3,7) Nil by (simp add: advanced_def)
    then have "finishes count D w (i # js) l ?a" unfolding finishes_def using complete w1(2) l2 by blast
    then show ?thesis using script Nil by simp
  next
    case (Cons j ks)
    have g1: "geometry (mgr w1)" using w1(2) by (simp add: managerInv_def)
    have miss: "missing (mgr w1) = j # ks" using w1(4) Cons by simp
    note nm = next_missing [OF g1 miss]
    let ?pm = "setPieceState j PieceDownloading (mgr w1)"
    let ?w = "w1\<lparr>mgr := ?pm\<rparr>"
    have incomplete: "\<not> IsComplete (mgr w1)" using nm(3,4) by (auto simp: IsComplete_iff)
    have "NextPieceForPeer (replicate ?n True) (mgr w1) = (Some (pieceAt w1 j), ?pm) \<and> 0 < pieceLen (pieceAt w1 j)"
      using nm(1) num small_piece(2) [OF w1(2) nm(3)] by simp
    then obtain l2 where l2: "fetching ?n (pieceAt w1 j) [] l2" "sentOf l2 = sentOf l @ messageFrame (blockRequest (pieceAt w1 j) 0)"
      "\<And>es. runP (workerLoop count (MessageReady ?a # es) l) w = runP (workerLoop count es l2) ?w"
      using block_completes [OF m _ w1(1), of "pieceAt w1 j" ?pm count] False incomplete by auto
    have "\<not> closed (storage (mgr w1))" using layout_eq(1) [OF w1(3)] u by (simp add: underway_def)
    with reserve_underway [OF w1(2) miss _ _ w1(6)] w1(5) num
    have u': "underway ?w j ks" and piece: "pieceAt w1 j = pieceAt ?w j" by auto
    have lay: "layout (mgr ?w) = layout (mgr w)" using w1(3) by simp
    have num': "numPieces (mgr ?w) = ?n" by (rule layout_eq(3) [OF lay])
    have "fetched js D ?w x \<Longrightarrow> fetched (i # js) D w x" for x
      using fetched_trans [OF w1(8)] num fetched_layout [of ?w w1] by simp
    moreover have "undisturbed w ?w" using w1(7) by (simp add: undisturbed_def)
    ultimately have "advanced D w (i # js) ?w (j # ks)" using lay Cons by (simp add: advanced_def)
    moreover have "midway D ?w j [] (D j) ks l2"
      unfolding midway_def num' using u' goodData_layout [OF lay g] small l2(1) piece by simp
    moreover have "?rest = script D j (length []) (D j) ks" by (simp add: Cons script_def)
    ultimately have "asksNext count D w (i # js) l ?a ?rest"
      unfolding asksNext_def using l2(2,3) piece by fastforce
    then show ?thesis using script by blast
  qed
qed

text \<open>Until nothing is missing.\<close>

lemma seeder_run:
  assumes "midway D w i got d js l"
  shows "\<exists>l' w'. runP (workerLoop count (map MessageReady (script D i (length got) d js) @ es) l) w = ((Inr Returned, l'), w') \<and>
    currentPiece l' = None \<and> IsComplete (mgr w') \<and> managerInv w' \<and> advanced D w (i # js) w' []"
  using assms
proof (induction "script D i (length got) d js" arbitrary: w i got d js l)
  case Nil
  then show ?case using script_step [OF Nil.prems, of count] by auto
next
  case (Cons a rest)
  from script_step [OF Cons.prems, of count] consider "rest = []" "finishes count D w (i # js) l a"
    | "asksNext count D w (i # js) l a rest" unfolding Cons.hyps(2) [symmetric] by auto
  then show ?case
  proof cases
    case 1
    then show ?thesis unfolding Cons.hyps(2) [symmetric] finishes_def by auto
  next
    case 2
    then obtain l1 w1 i1 got1 d1 js1 where n: "rest = script D i1 (length got1) d1 js1" "midway D w1 i1 got1 d1 js1 l1"
      "advanced D w (i # js) w1 (i1 # js1)" and go: "\<And>es. runP (workerLoop count (MessageReady a # es) l) w = runP (workerLoop count es l1) w1"
      unfolding asksNext_def by blast
    from Cons.hyps(1) [OF n(1,2)] show ?thesis
      unfolding Cons.hyps(2) [symmetric] using go advanced_trans [OF n(3)] n(1) by auto
  qed
qed

section \<open>The whole client\<close>

definition bitfieldMessage :: "nat \<Rightarrow> Message" where
  "bitfieldMessage n = \<lparr>ID = Some MsgBitfield, Payload = packBits (replicate n True)\<rparr>"

definition unchokeMessage :: Message where
  "unchokeMessage = \<lparr>ID = Some MsgUnchoke, Payload = []\<rparr>"

text \<open>What a worker receives from a peer that has everything: \<open>D i\<close> is piece \<open>i\<close>.\<close>

definition seederEvents :: "PieceManager \<Rightarrow> (nat \<Rightarrow> bytes) \<Rightarrow> workerEvent list" where
  "seederEvents pm D =
     MessageReady (bitfieldMessage (numPieces pm)) # MessageReady unchokeMessage #
     concat (map (\<lambda>j. map MessageReady (answers j 0 (D j))) (missing pm))"

lemma bitfield_run:
  assumes "int n \<le> MaxInt64 - 7" "\<not> unchoked l"
  shows "runP (handleMessage (int n) (bitfieldMessage n) l) w = ((Inr True, l\<lparr>peerBitfield := replicate n True\<rparr>), w)"
proof -
  have "ParseBitfield (packBits (replicate n True)) (int n) = Inr (replicate n True)"
    using ParseBitfield_nat_iff [OF assms(1)] by simp
  then have parsed: "runP (checkW InvalidBitfield (ParseBitfield (packBits (replicate n True)) (int n)) l) w =
      ((Inr (replicate n True), l), w)" by simp
  have "runP (requestNextPiece (l\<lparr>peerBitfield := replicate n True\<rparr>)) w = ((Inr (), l\<lparr>peerBitfield := replicate n True\<rparr>), w)"
    using assms(2) by (simp add: requestNextPiece_def)
  note skipped = run_seq [of requestNextPiece "l\<lparr>peerBitfield := replicate n True\<rparr>", OF this]
  show ?thesis
    by (simp add: handleMessage_def bitfieldMessage_def skipped
        run_bind [of "checkW InvalidBitfield (ParseBitfield (packBits (replicate n True)) (int n))" l, OF parsed])
qed

lemma unchoke_run:
  assumes "runP (requestNextPiece (l\<lparr>unchoked := True\<rparr>)) w = ((Inr (), l'), w')"
  shows "runP (handleMessage count unchokeMessage l) w = ((Inr True, l'), w')"
  by (simp add: handleMessage_def unchokeMessage_def msg_ids
      run_seq [of requestNextPiece "l\<lparr>unchoked := True\<rparr>", OF assms])

text \<open>The client up to its first request, and with any shorter list of events.\<close>

lemma RunClient_start:
  assumes inv: "managerInv w" and idle: "busy w = {}" and ok: "faults (disk w) = []" "\<not> closed (storage (mgr w))"
    and n: "numPieces (mgr w) \<le> 2 ^ 32" "length (Pieces meta) = numPieces (mgr w)"
    and D: "goodData w D" and todo: "\<not> IsComplete (mgr w)"
    and cl: "\<not> connClosed (Conn cl)" "writes (Conn cl) = []"
  obtains i js l where "missing (mgr w) = i # js"
    "midway D (w\<lparr>mgr := setPieceState i PieceDownloading (mgr w)\<rparr>) i [] (D i) js l"
    "sentOf l = sent (Conn cl) @ messageFrame NewInterested @ messageFrame (blockRequest (pieceAt w i) 0)"
    "\<And>es. runP (RunClient (Some cl) (Some meta) opts
        (MessageReady (bitfieldMessage (numPieces (mgr w))) # MessageReady unchokeMessage # es)) w =
      (case runP (workerLoop (int (numPieces (mgr w))) es l) (w\<lparr>mgr := setPieceState i PieceDownloading (mgr w)\<rparr>) of
         (x, w') \<Rightarrow> runP (bindP (finishLoop x) (\<lambda>(r, l). Done (r, Some l))) w')"
    "\<And>es. length es < 2 \<Longrightarrow> es = take (length es) [MessageReady (bitfieldMessage (numPieces (mgr w))), MessageReady unchokeMessage] \<Longrightarrow>
      \<exists>l. runP (RunClient (Some cl) (Some meta) opts es) w = ((Inr Waiting, Some l), w) \<and>
        sentOf l = sent (Conn cl) @ messageFrame NewInterested"
proof -
  let ?n = "numPieces (mgr w)" and ?l0 = "newWorker cl opts (int (length (Pieces meta)))"
  obtain l1 where l1: "runP (writeW SendInterested NewInterested ?l0) w = ((Inr (), l1), w)"
    "\<not> connClosed (Conn (client l1))" "writes (Conn (client l1)) = []" "\<not> unchoked l1" "currentPiece l1 = None" "messagesOpen l1"
    "sentOf l1 = sent (Conn cl) @ messageFrame NewInterested"
    using writeW_run [of ?l0 NewInterested SendInterested w] cl frames(1) by (simp add: newWorker_def)
  let ?l2 = "l1\<lparr>watching := Updates (mgr w)\<rparr>"
  let ?l3 = "?l2\<lparr>peerBitfield := replicate ?n True, watching := Updates (mgr w)\<rparr>"
  have head: "runP (loopHead l1) w = ((Inr Waiting, ?l2), w)" using l1 by (simp add: loopHead_def)
  have free: "stateAt (mgr w) j \<in> {PieceMissing, PieceComplete}" if "j < ?n" for j
    using idle that by (cases "stateAt (mgr w) j") (auto simp: busy_def)
  then have "missing (mgr w) \<noteq> []" using todo by (fastforce simp: IsComplete_iff missing_def filter_empty_conv)
  then obtain i js where m: "missing (mgr w) = i # js" by (cases "missing (mgr w)") auto
  have g: "geometry (mgr w)" using inv by (simp add: managerInv_def)
  note nm = next_missing [OF g m]
  let ?pm = "setPieceState i PieceDownloading (mgr w)"
  let ?w = "w\<lparr>mgr := ?pm\<rparr>"
  have "serving ?n (?l3\<lparr>unchoked := True\<rparr>)" "currentPiece (?l3\<lparr>unchoked := True\<rparr>) = None"
    using l1 by (simp_all add: serving_def)
  from requestNextPiece_run [OF this nm(1) small_piece(2) [OF inv nm(3)]] obtain l4 where
    l4: "runP (requestNextPiece (?l3\<lparr>unchoked := True\<rparr>)) w = ((Inr (), l4), ?w)"
    "fetching ?n (pieceAt w i) [] l4" "sentOf l4 = sentOf l1 @ messageFrame (blockRequest (pieceAt w i) 0)" by auto
  let ?l5 = "l4\<lparr>watching := Updates ?pm\<rparr>"
  have big: "int ?n \<le> MaxInt64 - 7" using n(1) by (simp add: MaxInt64_def)
  have bits: "runP (workerLoop (int ?n) (MessageReady (bitfieldMessage ?n) # es) ?l2) w = runP (workerLoop (int ?n) es ?l3) w" for es
    using loop_message [of ?l2 "int ?n" "bitfieldMessage ?n" w True "?l2\<lparr>peerBitfield := replicate ?n True\<rparr>" w]
      bitfield_run [OF big, of ?l2 w] l1 by simp
  have "messagesOpen l4" using l4(2) by (simp add: fetching_def serving_def)
  then have unch: "runP (workerLoop (int ?n) (MessageReady unchokeMessage # es) ?l3) w = runP (workerLoop (int ?n) es ?l5) ?w" for es
    using loop_message [OF _ unchoke_run [OF l4(1)]] l1 by simp
  have lay: "layout (mgr ?w) = layout (mgr w)" by simp
  have num: "numPieces (mgr ?w) = ?n" by (rule layout_eq(3) [OF lay])
  from reserve_underway [OF inv m _ ok(2,1)] free
  have u: "underway ?w i js" and piece: "pieceAt w i = pieceAt ?w i" by auto
  have run: "runP (RunClient (Some cl) (Some meta) opts es) w = (case runP (workerLoop (int ?n) es ?l2) w of
      (x, w') \<Rightarrow> runP (bindP (finishLoop x) (\<lambda>(r, l). Done (r, Some l))) w')" for es
    using l1(1) n(2) run_bind [of loopHead l1, OF head, of "\<lambda>_. workerLoop (int ?n) es"]
    by (simp add: RunClient_def Let_def split: prod.split)
  show ?thesis
  proof (rule that [OF m, of ?l5])
    show "midway D ?w i [] (D i) js ?l5"
      unfolding midway_def num using u goodData_layout [OF lay D] n(1) l4(2) piece by simp
    show "sentOf ?l5 = sent (Conn cl) @ messageFrame NewInterested @ messageFrame (blockRequest (pieceAt w i) 0)"
      using l4(3) l1(7) by simp
    show "runP (RunClient (Some cl) (Some meta) opts (MessageReady (bitfieldMessage ?n) # MessageReady unchokeMessage # es)) w =
      (case runP (workerLoop (int ?n) es ?l5) ?w of (x, w') \<Rightarrow> runP (bindP (finishLoop x) (\<lambda>(r, l). Done (r, Some l))) w')" for es
      unfolding run bits unch by (rule refl)
    show "\<exists>l. runP (RunClient (Some cl) (Some meta) opts es) w = ((Inr Waiting, Some l), w) \<and>
        sentOf l = sent (Conn cl) @ messageFrame NewInterested"
      if "length es < 2" "es = take (length es) [MessageReady (bitfieldMessage ?n), MessageReady unchokeMessage]" for es
    proof -
      from that consider "es = []" | "es = [MessageReady (bitfieldMessage ?n)]" by (cases es) auto
      then show ?thesis
      proof cases
        case 1
        then show ?thesis using l1(7) by (simp add: run finishLoop_def)
      next
        case 2
        then show ?thesis using l1(7) bits [of "[]"] by (simp add: run finishLoop_def)
      qed
    qed
  qed
qed

lemma RunClient_seeder:
  assumes inv: "managerInv w" and idle: "busy w = {}" and ok: "faults (disk w) = []" "\<not> closed (storage (mgr w))"
    and n: "numPieces (mgr w) \<le> 2 ^ 32" "length (Pieces meta) = numPieces (mgr w)"
    and D: "goodData w D" and todo: "\<not> IsComplete (mgr w)"
    and cl: "\<not> connClosed (Conn cl)" "writes (Conn cl) = []"
  shows "\<exists>l w'. runP (RunClient (Some cl) (Some meta) opts (seederEvents (mgr w) D @ es)) w = ((Inr Returned, Some l), w') \<and>
    IsComplete (mgr w') \<and> managerInv w' \<and> layout (mgr w') = layout (mgr w) \<and> undisturbed w w' \<and>
    fetched (missing (mgr w)) D w w'"
proof -
  let ?n = "numPieces (mgr w)"
  obtain i js l where m: "missing (mgr w) = i # js" and
    mid: "midway D (w\<lparr>mgr := setPieceState i PieceDownloading (mgr w)\<rparr>) i [] (D i) js l" and
    run: "\<And>es. runP (RunClient (Some cl) (Some meta) opts (MessageReady (bitfieldMessage ?n) # MessageReady unchokeMessage # es)) w =
      (case runP (workerLoop (int ?n) es l) (w\<lparr>mgr := setPieceState i PieceDownloading (mgr w)\<rparr>) of
         (x, w') \<Rightarrow> runP (bindP (finishLoop x) (\<lambda>(r, l). Done (r, Some l))) w')"
    by (rule RunClient_start [OF assms, of opts]) (erule that, assumption+)
  let ?w = "w\<lparr>mgr := setPieceState i PieceDownloading (mgr w)\<rparr>"
  have events: "seederEvents (mgr w) D @ es = MessageReady (bitfieldMessage ?n) # MessageReady unchokeMessage #
      map MessageReady (script D i 0 (D i) js) @ es"
    by (simp add: seederEvents_def m script_def map_concat comp_def)
  from seeder_run [OF mid, of "int ?n" es, unfolded list.size(3)] obtain l' w' where
    loop: "runP (workerLoop (int ?n) (map MessageReady (script D i 0 (D i) js) @ es) l) ?w = ((Inr Returned, l'), w')"
      "currentPiece l' = None" "IsComplete (mgr w')" "managerInv w'" "advanced D ?w (i # js) w' []"
    by blast
  have lay: "layout (mgr ?w) = layout (mgr w)" by simp
  have adv: "layout (mgr w') = layout (mgr w)" "undisturbed ?w w'" "fetched (i # js) D ?w w'"
    using advancedD [OF loop(5)] unfolding lay by blast+
  have data: "fetched (missing (mgr w)) D w w'" using adv(3) fetched_layout [OF lay] m by simp
  have quiet: "undisturbed w w'" using adv(2) layout_eq(1) [OF lay] by (simp add: undisturbed_def)
  obtain l'' where "runP (releaseCurrent l') w' = ((Inr (), l''), w')"
    using loop(2) by (simp add: releaseCurrent_def clearCurrent_def stopBlockTimer_def)
  then have "\<exists>l. runP (RunClient (Some cl) (Some meta) opts (seederEvents (mgr w) D @ es)) w = ((Inr Returned, Some l), w')"
    unfolding events run loop(1) by (simp add: finishLoop_def)
  then show ?thesis using loop(3,4) adv(1) quiet data by blast
qed

end
