(* ===== verification/PeerStream.thy ===== *)
theory PeerStream
  imports Seeder PeerClientSpec
begin

text \<open>
  From the bytes of a connection to the events of a worker: what the goroutine of \<open>ReadLoop\<close> delivers of a
  stream of frames, and the stream of a peer that has everything.
\<close>

section \<open>The events of a stream\<close>

text \<open>
  One goroutine serves both channels, and the one for messages is unbuffered: when it puts an error into the
  other, the worker has received every message before it. So the worker finds what \<open>ReadLoop\<close> gives in that order.
\<close>

fun loopEvent :: "readEvent \<Rightarrow> workerEvent" where
  "loopEvent (MessageRead m) = MessageReady m"
| "loopEvent e = ErrorReady e"

definition streamEvents :: "32 word \<Rightarrow> bytes \<Rightarrow> workerEvent list" where
  "streamEvents maxSize bs = map loopEvent (fst (ReadLoop maxSize (Suc (length bs)) (wire bs)))"

lemma ReadLoop_frames:
  assumes "\<not> connClosed c" "\<forall>m\<in>set ms. wfMessage maxSize m" "incoming c = concat (map messageFrame ms) @ rest" "length ms \<le> n"
  shows "fst (ReadLoop maxSize n c) = map MessageRead ms @ fst (ReadLoop maxSize (n - length ms) (c\<lparr>incoming := rest\<rparr>))"
  using assms
proof (induction ms arbitrary: c n)
  case Nil
  then have "c\<lparr>incoming := rest\<rparr> = c" by (cases c) simp
  then show ?case by simp
next
  case (Cons m ms)
  then obtain k where n: "n = Suc k" "length ms \<le> k" by (cases n) auto
  let ?c = "c\<lparr>incoming := concat (map messageFrame ms) @ rest\<rparr>"
  have "ReadMessageWithLimit maxSize (incoming c) = Inr (m, incoming ?c)"
    using read_frame [of maxSize m "incoming ?c"] Cons.prems(2,3) by simp
  moreover have "fst (ReadLoop maxSize k ?c) = map MessageRead ms @ fst (ReadLoop maxSize (k - length ms) (c\<lparr>incoming := rest\<rparr>))"
    using Cons.IH [of ?c k] Cons.prems(1,2) n(2) by simp
  ultimately show ?case using n(1) Cons.prems(1) by (auto split: prod.splits)
qed

lemma streamEvents_frames:
  assumes "\<forall>m\<in>set ms. wfMessage maxSize m"
  shows "\<exists>es. streamEvents maxSize (concat (map messageFrame ms) @ rest) = map MessageReady ms @ es"
proof -
  let ?bs = "concat (map messageFrame ms) @ rest"
  have "length ms \<le> length (concat (map messageFrame ms))"
  proof (induction ms)
    case (Cons m ms)
    then show ?case using messageFrame_length [of m] by simp
  qed simp
  then have "fst (ReadLoop maxSize (Suc (length ?bs)) (wire ?bs)) = map MessageRead ms @
      fst (ReadLoop maxSize (Suc (length ?bs) - length ms) ((wire ?bs)\<lparr>incoming := rest\<rparr>))"
    using assms by (intro ReadLoop_frames) (simp_all add: wire_def)
  then show ?thesis by (simp add: streamEvents_def)
qed

section \<open>The stream of a peer that has everything\<close>

definition seederMessages :: "PieceManager \<Rightarrow> (nat \<Rightarrow> bytes) \<Rightarrow> Message list" where
  "seederMessages pm D =
     bitfieldMessage (numPieces pm) # unchokeMessage # concat (map (\<lambda>j. answers j 0 (D j)) (missing pm))"

lemma seederMessages_events: "map MessageReady (seederMessages pm D) = seederEvents pm D"
  by (simp add: seederMessages_def seederEvents_def map_concat comp_def)

lemma answers_wf:
  assumes "m \<in> set (answers i start d)" "16393 \<le> unat maxSize"
  shows "wfMessage maxSize m"
  using assms(1)
proof (induction i start d rule: answers.induct)
  case (1 i start d)
  from "1.prems" have "d \<noteq> []" by (auto simp: answers.simps [of i start d])
  then consider "m = blockMessage i start (take 16384 d)" | "m \<in> set (answers i (start + 16384) (drop 16384 d))"
    using "1.prems" by (auto simp: answers.simps [of i start d])
  then show ?case
  proof cases
    case 1
    then show ?thesis using assms(2) by (auto simp: wfMessage_def blockMessage_def word_less_nat_alt)
  next
    case 2
    then show ?thesis using "1.IH" \<open>d \<noteq> []\<close> by blast
  qed
qed

text \<open>Every message of the seeder fits the default limit, unless the torrent has more than 33 million pieces.\<close>

definition maxPieces :: nat where
  "maxPieces = 8 * 4194303"

lemma limit_value: "unat DefaultMaxMessageSize = 4194304"
  by (simp add: DefaultMaxMessageSize_def)

lemma seederMessages_wf:
  assumes "numPieces pm \<le> maxPieces" "m \<in> set (seederMessages pm D)"
  shows "wfMessage DefaultMaxMessageSize m"
proof -
  have "length (packBits (replicate (numPieces pm) True)) < 4194304"
    using assms(1) by (simp add: packBits_def maxPieces_def)
  then have "wfMessage DefaultMaxMessageSize (bitfieldMessage (numPieces pm))" "wfMessage DefaultMaxMessageSize unchokeMessage"
    by (simp_all add: wfMessage_def bitfieldMessage_def unchokeMessage_def limit_value word_less_nat_alt)
  then show ?thesis using assms(2) answers_wf by (auto simp: seederMessages_def limit_value)
qed

text \<open>
  A connection to such a peer: it is open, takes what we write, and the peer sends its handshake for this
  torrent and then the frames of these messages.
\<close>

definition seederConn :: "bytes \<Rightarrow> Message list \<Rightarrow> conn \<Rightarrow> bool" where
  "seederConn infoHash ms c \<longleftrightarrow> \<not> connClosed c \<and> writes c = [] \<and>
     (\<exists>h. wfHandshake h \<and> HsInfoHash h = infoHash \<and> incoming c = SerializeHandshake h @ concat (map messageFrame ms))"

lemma seederConn_connects:
  assumes "dial (addressString a) (DialTimeout (withClientDefaults cfg)) = Inr c" "seederConn infoHash ms c"
  shows "\<exists>cl. ConnectContext dial a infoHash peerID cfg = Inr cl \<and> \<not> connClosed (Conn cl) \<and> writes (Conn cl) = [] \<and>
    incoming (Conn cl) = concat (map messageFrame ms)"
proof -
  let ?rest = "concat (map messageFrame ms)"
  let ?c = "c\<lparr>sent := sent c @ handshakeRequest infoHash peerID\<rparr>"
  obtain h where h: "wfHandshake h" "HsInfoHash h = infoHash" "incoming c = SerializeHandshake h @ ?rest"
    using assms(2) by (auto simp: seederConn_def)
  have c: "\<not> connClosed c" "writes c = []" using assms(2) by (simp_all add: seederConn_def)
  have "performHandshake infoHash peerID c = (Inr (), ?c\<lparr>incoming := ?rest\<rparr>)"
    unfolding performHandshake_iff
    by (intro exI [of _ h] exI [of _ ?rest] exI [of _ ?c]) (simp add: c h writeFull_ok)
  then show ?thesis
    using assms(1) c by (simp add: ConnectContext_def Let_def NewClient_defaults NewClient_conn andThen_def)
qed

end
