(* ===== verification/Conversation.thy ===== *)
theory Conversation
  imports PeerStream
begin

text \<open>
  A peer that has everything and reacts: it hears what the worker has sent so far and says no more than that
  calls for, an unchoke after \<open>interested\<close> and a block after a request for it. \<open>conversation\<close> lets the two
  take turns; the worker's events are then not given in advance.
\<close>

section \<open>The peer\<close>

text \<open>The messages in what the peer has received, read as the program reads a stream.\<close>

definition heard :: "bytes \<Rightarrow> Message list" where
  "heard b = concat (map (\<lambda>e. case e of MessageRead m \<Rightarrow> [m] | _ \<Rightarrow> []) (fst (ReadLoop DefaultMaxMessageSize (Suc (length b)) (wire b))))"

definition reply :: "(nat \<Rightarrow> bytes) \<Rightarrow> Message \<Rightarrow> Message list" where
  "reply D m =
     (if ID m = Some MsgInterested then [unchokeMessage]
      else if ID m = Some MsgRequest \<and> length (Payload m) = 12 then
        let i = unat (Uint32 (Payload m)); start = unat (Uint32 (drop 4 (Payload m))); len = unat (Uint32 (drop 8 (Payload m)))
        in [blockMessage i start (take len (drop start (D i)))]
      else [])"

text \<open>The bitfield behind the handshake, then the replies.\<close>

definition peerSays :: "(nat \<Rightarrow> bytes) \<Rightarrow> nat \<Rightarrow> bytes \<Rightarrow> Message list" where
  "peerSays D n b = bitfieldMessage n # concat (map (reply D) (heard b))"

text \<open>
  While the worker waits in its \<open>select\<close>, the next thing the peer has to say arrives, if there is one. \<open>es\<close> is what
  has arrived so far.
\<close>

primrec conversation :: "Client \<Rightarrow> TorrentMeta \<Rightarrow> WorkerOptions \<Rightarrow> (nat \<Rightarrow> bytes) \<Rightarrow> world \<Rightarrow> nat \<Rightarrow> workerEvent list \<Rightarrow>
    workerEvent list" where
  "conversation cl meta opts D w 0 es = es"
| "conversation cl meta opts D w (Suc fuel) es =
     (case fst (runP (RunClient (Some cl) (Some meta) opts es) w) of
        (Inr Waiting, Some l) \<Rightarrow>
          (let says = peerSays D (numPieces (mgr w)) (drop (length (sent (Conn cl))) (sentOf l)) in
           if length es < length says then conversation cl meta opts D w fuel (es @ [MessageReady (says ! length es)]) else es)
      | _ \<Rightarrow> es)"

lemma heard_frames:
  assumes "\<forall>m\<in>set ms. wfMessage DefaultMaxMessageSize m"
  shows "heard (concat (map messageFrame ms)) = ms"
proof -
  let ?b = "concat (map messageFrame ms)"
  have "length ms \<le> length ?b"
  proof (induction ms)
    case (Cons m ms)
    then show ?case using messageFrame_length [of m] by simp
  qed simp
  then obtain k where k: "Suc (length ?b) - length ms = Suc k" by (metis Suc_diff_le)
  have "fst (ReadLoop DefaultMaxMessageSize (Suc (length ?b)) (wire ?b)) = map MessageRead ms @
      fst (ReadLoop DefaultMaxMessageSize (Suc k) ((wire ?b)\<lparr>incoming := []\<rparr>))"
    using ReadLoop_frames [of "wire ?b" ms DefaultMaxMessageSize "[]" "Suc (length ?b)"] assms \<open>length ms \<le> length ?b\<close> k
    by (simp add: wire_def)
  moreover have "\<exists>e. fst (ReadLoop DefaultMaxMessageSize (Suc k) ((wire ?b)\<lparr>incoming := []\<rparr>)) = [ReadError e]"
    by (simp add: wire_def ReadMessageWithLimit_def ReadFull_def DefaultMaxMessageSize_def)
  ultimately show ?thesis by (auto simp: heard_def comp_def)
qed

section \<open>What it says\<close>

lemma reply_interested [simp]: "reply D NewInterested = [unchokeMessage]"
  by (simp add: reply_def NewInterested_def)

lemma interested_wf: "wfMessage DefaultMaxMessageSize NewInterested"
  by (simp add: wfMessage_def NewInterested_def limit_value word_less_nat_alt)

lemma request_wf: "wfMessage DefaultMaxMessageSize (blockRequest p start)"
  by (simp add: wfMessage_def blockRequest_def NewRequest_def limit_value word_less_nat_alt)

lemma reply_request:
  assumes "midway D w i got d js l"
  shows "reply D (blockRequest (pieceAt w i) (int (length got))) = [blockMessage i (length got) (take 16384 d)]"
proof -
  note M = midwayD [OF assms]
  let ?len = "min BlockSize (pieceLen (pieceAt w i) - int (length got))"
  have D: "D i = got @ d" using assms by (simp add: midway_def)
  have len: "?len = int (min 16384 (length d))" using M(4) by (simp add: BlockSize_def)
  have "length got < 2 ^ 32" using M(3-5) by (cases d) simp_all
  then have "unat (of_int (int i) :: 32 word) = i" "unat (of_int (int (length got)) :: 32 word) = length got"
    "unat (of_int ?len :: 32 word) = min 16384 (length d)"
    using M(2) unfolding len by (simp_all add: unat_of_nat del: of_nat_min)
  moreover have "take (min 16384 (length d)) d = take 16384 d" by (cases "length d \<le> 16384") simp_all
  ultimately show ?thesis
    by (simp add: reply_def blockRequest_def NewRequest_def M(1) be_simps D msg_ids del: of_int_of_nat_eq)
qed

lemma script_hd:
  assumes "midway D w i got d js l"
  shows "\<exists>rest. script D i (length got) d js = blockMessage i (length got) (take 16384 d) # rest"
  using midwayD(5) [OF assms] by (cases "16384 < length d") (simp_all add: script_more script_last)

text \<open>Before the last block has arrived, the worker waits, and the replies to its requests go one block beyond what has arrived.\<close>

lemma talk_prefix:
  assumes "midway D w i got d js l" "k < length (script D i (length got) d js)"
  shows "\<exists>l' w' i' got' d' js' ms. runP (workerLoop count (map MessageReady (take k (script D i (length got) d js))) l) w = ((Inr Waiting, l'), w') \<and>
    midway D w' i' got' d' js' l' \<and> layout (mgr w') = layout (mgr w) \<and>
    sentOf l' = sentOf l @ concat (map messageFrame ms) \<and> (\<forall>m\<in>set ms. wfMessage DefaultMaxMessageSize m) \<and>
    concat (map (reply D) ms) = take k (tl (script D i (length got) d js))"
  using assms
proof (induction "script D i (length got) d js" arbitrary: w i got d js l k)
  case Nil
  then show ?case by simp
next
  case (Cons a rest)
  show ?case
  proof (cases k)
    case 0
    have "runP (workerLoop count [] l) w = ((Inr Waiting, l), w)" by simp
    then show ?thesis using Cons.prems(1) 0
      by (intro exI [of _ l] exI [of _ w] exI [of _ i] exI [of _ got] exI [of _ d] exI [of _ js] exI [of _ "[]"]) simp
  next
    case (Suc k')
    then have k': "k' < length rest" using Cons.prems(2) Cons.hyps(2) by (metis Suc_less_eq length_Cons)
    from script_step [OF Cons.prems(1), of count] k' have "asksNext count D w (i # js) l a rest"
      unfolding Cons.hyps(2) [symmetric] by auto
    then obtain l1 w1 i1 got1 d1 js1 where n: "rest = script D i1 (length got1) d1 js1" "midway D w1 i1 got1 d1 js1 l1"
      "advanced D w (i # js) w1 (i1 # js1)" "sentOf l1 = sentOf l @ messageFrame (blockRequest (pieceAt w1 i1) (int (length got1)))"
      and go: "\<And>es. runP (workerLoop count (MessageReady a # es) l) w = runP (workerLoop count es l1) w1"
      unfolding asksNext_def by blast
    have "layout (mgr w1) = layout (mgr w)" using n(3) by (simp add: advanced_def)
    moreover obtain l' w' i' got' d' js' ms where
      "runP (workerLoop count (map MessageReady (take k' rest)) l1) w1 = ((Inr Waiting, l'), w')"
      "midway D w' i' got' d' js' l'" "layout (mgr w') = layout (mgr w1)" "sentOf l' = sentOf l1 @ concat (map messageFrame ms)"
      "\<forall>m\<in>set ms. wfMessage DefaultMaxMessageSize m" "concat (map (reply D) ms) = take k' (tl rest)"
      using Cons.hyps(1) [OF n(1,2) k' [unfolded n(1)]] unfolding n(1) [symmetric] by blast
    moreover have "reply D (blockRequest (pieceAt w1 i1) (int (length got1))) @ take k' (tl rest) = take (Suc k') rest"
      using script_hd [OF n(2)] reply_request [OF n(2)] by (auto simp: n(1))
    ultimately show ?thesis unfolding Cons.hyps(2) [symmetric] Suc using go n(4) request_wf
      by (intro exI [of _ l'] exI [of _ w'] exI [of _ i'] exI [of _ got'] exI [of _ d'] exI [of _ js']
        exI [of _ "blockRequest (pieceAt w1 i1) (int (length got1)) # ms"]) simp
  qed
qed

section \<open>The whole conversation\<close>

lemma client_prefix:
  assumes w: "managerInv w" "busy w = {}" "faults (disk w) = []" "\<not> closed (storage (mgr w))"
    "numPieces (mgr w) \<le> 2 ^ 32" "length (Pieces meta) = numPieces (mgr w)" "goodData w D" "\<not> IsComplete (mgr w)"
    "\<not> connClosed (Conn cl)" "writes (Conn cl) = []"
    and k: "k < length (seederEvents (mgr w) D)"
  shows "\<exists>l w' r. runP (RunClient (Some cl) (Some meta) opts (take k (seederEvents (mgr w) D))) w = ((Inr Waiting, Some l), w') \<and>
    peerSays D (numPieces (mgr w)) (drop (length (sent (Conn cl))) (sentOf l)) = take r (seederMessages (mgr w) D) \<and> k < r \<and>
    (2 \<le> k \<longrightarrow> (\<exists>i got d js. midway D w' i got d js l))"
proof -
  let ?n = "numPieces (mgr w)" and ?s = "sent (Conn cl)"
  obtain i js l where m: "missing (mgr w) = i # js" and
    mid: "midway D (w\<lparr>mgr := setPieceState i PieceDownloading (mgr w)\<rparr>) i [] (D i) js l" and
    sent: "sentOf l = ?s @ messageFrame NewInterested @ messageFrame (blockRequest (pieceAt w i) 0)" and
    run: "\<And>es. runP (RunClient (Some cl) (Some meta) opts (MessageReady (bitfieldMessage ?n) # MessageReady unchokeMessage # es)) w =
      (case runP (workerLoop (int ?n) es l) (w\<lparr>mgr := setPieceState i PieceDownloading (mgr w)\<rparr>) of
         (x, w') \<Rightarrow> runP (bindP (finishLoop x) (\<lambda>(r, l). Done (r, Some l))) w')" and
    short: "\<And>es. length es < 2 \<Longrightarrow> es = take (length es) [MessageReady (bitfieldMessage ?n), MessageReady unchokeMessage] \<Longrightarrow>
      \<exists>l. runP (RunClient (Some cl) (Some meta) opts es) w = ((Inr Waiting, Some l), w) \<and>
        sentOf l = ?s @ messageFrame NewInterested"
    by (rule RunClient_start [OF w, of opts]) (erule that, assumption+)
  let ?w = "w\<lparr>mgr := setPieceState i PieceDownloading (mgr w)\<rparr>"
  define rest where "rest = script D i 0 (D i) js"
  have messages: "seederMessages (mgr w) D = bitfieldMessage ?n # unchokeMessage # rest"
    by (simp add: seederMessages_def m rest_def script_def)
  have events: "seederEvents (mgr w) D = MessageReady (bitfieldMessage ?n) # MessageReady unchokeMessage # map MessageReady rest"
    using messages by (simp flip: seederMessages_events)
  show ?thesis
  proof (cases "k < 2")
    case True
    then have "k = 0 \<or> k = 1" by auto
    then have "length (take k (seederEvents (mgr w) D)) = k"
      "take k (seederEvents (mgr w) D) = take k [MessageReady (bitfieldMessage ?n), MessageReady unchokeMessage]"
      using events by auto
    with short [of "take k (seederEvents (mgr w) D)"] True obtain l' where
      l': "runP (RunClient (Some cl) (Some meta) opts (take k (seederEvents (mgr w) D))) w = ((Inr Waiting, Some l'), w)"
        "sentOf l' = ?s @ messageFrame NewInterested" by auto
    have "heard (messageFrame NewInterested) = [NewInterested]" using heard_frames [of "[NewInterested]"] interested_wf by simp
    then have "peerSays D ?n (drop (length ?s) (sentOf l')) = take 2 (seederMessages (mgr w) D)"
      by (simp add: peerSays_def l'(2) messages)
    then show ?thesis using l'(1) True by (intro exI [of _ l'] exI [of _ w] exI [of _ 2]) simp
  next
    case False
    define j where "j = k - 2"
    then have k2: "k = Suc (Suc j)" "j < length rest" using False k events by simp_all
    from talk_prefix [OF mid, unfolded list.size, folded rest_def, OF k2(2), of "int ?n"] obtain l' w' i' got' d' js' ms where
      t: "runP (workerLoop (int ?n) (map MessageReady (take j rest)) l) ?w = ((Inr Waiting, l'), w')"
        "midway D w' i' got' d' js' l'" "sentOf l' = sentOf l @ concat (map messageFrame ms)"
        "\<forall>m\<in>set ms. wfMessage DefaultMaxMessageSize m" "concat (map (reply D) ms) = take j (tl rest)" by blast
    have es: "take k (seederEvents (mgr w) D) =
        MessageReady (bitfieldMessage ?n) # MessageReady unchokeMessage # map MessageReady (take j rest)"
      by (simp add: events k2(1) take_map)
    have waits: "runP (RunClient (Some cl) (Some meta) opts (take k (seederEvents (mgr w) D))) w = ((Inr Waiting, Some l'), w')"
      unfolding es run t(1) by (simp add: finishLoop_def)
    let ?ms = "NewInterested # blockRequest (pieceAt w i) 0 # ms"
    have "drop (length ?s) (sentOf l') = concat (map messageFrame ?ms)" by (simp add: t(3) sent)
    then have heard: "heard (drop (length ?s) (sentOf l')) = ?ms"
      using heard_frames [of ?ms] t(4) interested_wf request_wf by simp
    obtain more where more: "rest = blockMessage i 0 (take 16384 (D i)) # more"
      using script_hd [OF mid, unfolded list.size] by (auto simp: rest_def)
    have "pieceAt w i = pieceAt ?w i" using next_missing(3) [of "mgr w" i js] m w(1)
        layout_eq(7) [OF setPieceState_layout [of i PieceDownloading "mgr w"]]
        layout_eq(3) [OF setPieceState_layout [of i PieceDownloading "mgr w"]] by (simp add: managerInv_def Piece.defs)
    then have "reply D (blockRequest (pieceAt w i) 0) = [blockMessage i 0 (take 16384 (D i))]"
      using reply_request [OF mid] by simp
    then have "peerSays D ?n (drop (length ?s) (sentOf l')) = take (Suc k) (seederMessages (mgr w) D)"
      unfolding peerSays_def heard by (simp add: t(5) more messages k2(1))
    then show ?thesis using waits t(2) by blast
  qed
qed

lemma conversation_more:
  assumes "runP (RunClient (Some cl) (Some meta) opts es) w = ((Inr Waiting, Some l), w')"
    "length es < length (peerSays D (numPieces (mgr w)) (drop (length (sent (Conn cl))) (sentOf l)))"
    "es @ [MessageReady (peerSays D (numPieces (mgr w)) (drop (length (sent (Conn cl))) (sentOf l)) ! length es)] = fs"
  shows "conversation cl meta opts D w (Suc fuel) es = conversation cl meta opts D w fuel fs"
  unfolding conversation.simps assms(1) fst_conv prod.case sum.case outcome.case option.case Let_def if_P [OF assms(2)] assms(3)
  by (rule refl)

lemma conversation_eq:
  assumes "managerInv w" "busy w = {}" "faults (disk w) = []" "\<not> closed (storage (mgr w))"
    "numPieces (mgr w) \<le> 2 ^ 32" "length (Pieces meta) = numPieces (mgr w)" "goodData w D" "\<not> IsComplete (mgr w)"
    "\<not> connClosed (Conn cl)" "writes (Conn cl) = []" "length (seederEvents (mgr w) D) \<le> fuel"
  shows "conversation cl meta opts D w fuel [] = seederEvents (mgr w) D"
proof -
  let ?E = "seederEvents (mgr w) D" and ?M = "seederMessages (mgr w) D"
  have "conversation cl meta opts D w fuel (take k ?E) = take (k + fuel) ?E" for k
  proof (induction fuel arbitrary: k)
    case (Suc fuel)
    show ?case
    proof (cases "k < length ?E")
      case True
      from client_prefix [OF assms(1-10) True, of opts] obtain l w' r where
        p: "runP (RunClient (Some cl) (Some meta) opts (take k ?E)) w = ((Inr Waiting, Some l), w')"
          "peerSays D (numPieces (mgr w)) (drop (length (sent (Conn cl))) (sentOf l)) = take r ?M" "k < r" by blast
      have len: "length ?M = length ?E" by (simp flip: seederMessages_events)
      have "MessageReady (?M ! k) = ?E ! k" using True by (simp flip: seederMessages_events)
      then have "take k ?E @ [MessageReady (take r ?M ! k)] = take (Suc k) ?E"
        using True p(3) by (simp add: take_Suc_conv_app_nth)
      moreover have "length (take k ?E) = k" "k < length (take r ?M)" using True len p(3) by simp_all
      ultimately have "conversation cl meta opts D w (Suc fuel) (take k ?E) = conversation cl meta opts D w fuel (take (Suc k) ?E)"
        by (intro conversation_more [OF p(1)]) (simp_all only: p(2))
      then show ?thesis using Suc.IH [of "Suc k"] by simp
    next
      case False
      then have "take k ?E = ?E" by simp
      moreover obtain l w' where "runP (RunClient (Some cl) (Some meta) opts ?E) w = ((Inr Returned, Some l), w')"
        using RunClient_seeder [OF assms(1-10), of opts "[]"] by auto
      ultimately show ?thesis using False by simp
    qed
  qed simp
  from this [of 0] show ?thesis using assms(11) by simp
qed

text \<open>How many messages that takes: the bitfield, the unchoke and the blocks of the missing pieces.\<close>

definition messagesNeeded :: "PieceManager \<Rightarrow> nat" where
  "messagesNeeded pm = 2 + sum_list (map (\<lambda>i. nat ((pieceLen (pieces pm ! i) + (BlockSize - 1)) div BlockSize)) (missing pm))"

lemma answers_length: "length (answers i start d) = (length d + 16383) div 16384"
proof (induction i start d rule: answers.induct)
  case (1 i start d)
  show ?case
  proof (cases "d = []")
    case False
    then have "(length d + 16383) div 16384 = Suc ((length d - 16384 + 16383) div 16384)"
      by (cases "length d \<le> 16384") (cases d; simp add: le_div_geq)+
    then show ?thesis using "1.IH" [OF False] False by (simp add: answers.simps [of i start d])
  qed (simp add: answers.simps [of i start "[]"])
qed

lemma seederEvents_length:
  assumes "goodData w D"
  shows "length (seederEvents (mgr w) D) = messagesNeeded (mgr w)"
proof -
  have "length (answers i 0 (D i)) = nat ((pieceLen (pieces (mgr w) ! i) + (BlockSize - 1)) div BlockSize)"
    if "i \<in> set (missing (mgr w))" for i
  proof -
    have "pieceLen (pieces (mgr w) ! i) = int (length (D i))" using assms that by (simp add: goodData_def missing_def)
    then have "(pieceLen (pieces (mgr w) ! i) + (BlockSize - 1)) div BlockSize = int ((length (D i) + 16383) div 16384)"
      by (simp add: BlockSize_def zdiv_int)
    then show ?thesis by (simp add: answers_length)
  qed
  then show ?thesis
    by (simp add: seederEvents_def messagesNeeded_def length_concat comp_def cong: map_cong)
qed

end
