(* ===== verification/DownloadSpec.thy ===== *)
theory DownloadSpec
  imports Conversation
begin

text \<open>
  The properties of the worker and of the swarm, with a sample download of two pieces that shows that they
  can hold, and the one execution that goes wrong: a worker that misses the news that a piece is free again.
\<close>

section \<open>A sample\<close>

text \<open>A sample download: one missing piece, a peer that has all.\<close>

definition sampleHandshake :: Handshake where
  "sampleHandshake = \<lparr>Reserved = replicate 8 0, HsInfoHash = InfoHash sampleMeta, HsPeerID = replicate 20 1\<rparr>"

definition sampleID :: bytes where "sampleID = replicate 20 9"

definition sampleClient :: Client where
  "sampleClient = NewClient ((wire [])\<lparr>sent := handshakeRequest (InfoHash sampleMeta) sampleID\<rparr>)
     \<lparr>IP = [127, 0, 0, 1], Port = 6881\<rparr> DefaultClientConfig"

definition sampleOptions :: WorkerOptions where
  "sampleOptions = \<lparr>OptClientConfig = DefaultClientConfig, BlockTimeout = 0, OnProgress = True\<rparr>"

definition sampleData :: "nat \<Rightarrow> bytes" where
  "sampleData i = (if i = 0 then [1, 2, 3, 4] else [7])"

definition sampleJob :: "workerEvent list \<Rightarrow> job" where
  "sampleJob es = \<lparr>jobDial = \<lambda>_ _. Inr (wire (SerializeHandshake sampleHandshake)),
     jobPeer = \<lparr>IP = [127, 0, 0, 1], Port = 6881\<rparr>, jobOptions = sampleOptions, jobEvents = es\<rparr>"

lemma sample_connect:
  "workerOf sampleMeta sampleID (sampleJob es) = RunClient (Some sampleClient) (Some sampleMeta) sampleOptions es"
proof -
  let ?c = "wire (SerializeHandshake sampleHandshake)"
  have "performHandshake (InfoHash sampleMeta) sampleID ?c = (Inr (), Conn sampleClient)"
    unfolding performHandshake_iff
    by (intro exI [of _ sampleHandshake] exI [of _ "[]"] exI [of _ "?c\<lparr>sent := handshakeRequest (InfoHash sampleMeta) sampleID\<rparr>"])
      (simp add: wire_def sampleHandshake_def wfHandshake_def sampleMeta_def writeFull_ok sampleClient_def NewClient_def)
  then show ?thesis
    by (simp add: workerOf_def StartWorker_def sampleJob_def sampleOptions_def ConnectContext_def Let_def
        NewClient_defaults NewClient_conn sampleClient_def andThen_def)
qed

lemma sampleWorld_disk [simp]: "faults (disk (sampleWorld a b)) = []" "closed (storage (mgr (sampleWorld a b))) = False"
  by (simp_all add: sampleWorld_def sampleDisk_def sampleManager_def sampleStorage_def)

lemma sampleWorld_two: "i < 2 \<Longrightarrow> stateAt (mgr (sampleWorld a b)) i = (if i = 0 then a else b)"
  by (auto simp: less_Suc_eq numeral_2_eq_2)

lemma sample_incomplete: "\<not> IsComplete (mgr (sampleWorld PieceMissing b))"
  unfolding IsComplete_iff sampleWorld_numPieces by (metis PieceState.distinct(5) sampleWorld_state(1) zero_less_numeral)

lemma sampleWorld_busy:
  "a \<in> {PieceMissing, PieceComplete} \<Longrightarrow> b \<in> {PieceMissing, PieceComplete} \<Longrightarrow> busy (sampleWorld a b) = {}"
  by (auto simp: busy_def sampleWorld_two split: if_splits)

lemma sample_goodData: "goodData (sampleWorld a b) sampleData"
  by (auto simp: goodData_def less_Suc_eq numeral_2_eq_2 sampleData_def sampleWorld_def sampleManager_def numPieces_def)

lemma sample_needed: "messagesNeeded (mgr (sampleWorld PieceMissing PieceMissing)) \<le> 4"
proof -
  have "missing (mgr (sampleWorld PieceMissing PieceMissing)) = [0, 1]"
    by (simp add: missing_def sampleWorld_numPieces upt_rec numeral_2_eq_2)
  then show ?thesis by (simp add: messagesNeeded_def BlockSize_def sampleWorld_def sampleManager_def)
qed

text \<open>One worker, and the first \<open>k\<close> messages of the peer.\<close>

definition sampleRun :: "nat \<Rightarrow> (world, (workerError + outcome) \<times> worker option) prog list \<Rightarrow> world \<Rightarrow> bool" where
  "sampleRun k ts w \<longleftrightarrow> swarmRuns (sampleWorld PieceMissing PieceMissing, map (workerOf sampleMeta sampleID)
     [sampleJob (take k (seederEvents (mgr (sampleWorld PieceMissing PieceMissing)) sampleData))]) (w, ts)"

text \<open>After the unchoke it has asked for the first piece.\<close>

lemma sample_waits:
  "\<exists>l w. sampleRun 2 [Done (Inr Waiting, Some l)] w \<and> currentPiece l = Some (pieceAt (sampleWorld PieceMissing PieceMissing) 0) \<and>
     received l = []"
proof -
  let ?w = "sampleWorld PieceMissing PieceMissing"
  let ?es = "[MessageReady (bitfieldMessage 2), MessageReady unchokeMessage]"
  have todo: "\<not> IsComplete (mgr ?w)" by (rule sample_incomplete)
  have miss: "missing (mgr ?w) = [0, 1]" by (simp add: missing_def sampleWorld_numPieces upt_rec numeral_2_eq_2)
  have cl: "\<not> connClosed (Conn sampleClient)" "writes (Conn sampleClient) = []" "length (Pieces sampleMeta) = numPieces (mgr ?w)"
    by (simp_all add: sampleClient_def NewClient_def wire_def sampleMeta_def)
  have w: "managerInv ?w" "busy ?w = {}" "faults (disk ?w) = []" "\<not> closed (storage (mgr ?w))" "numPieces (mgr ?w) \<le> 2 ^ 32"
    by (simp_all add: sampleWorld_inv sampleWorld_busy)
  obtain i js l where m: "missing (mgr ?w) = i # js"
    and mid: "midway sampleData (?w\<lparr>mgr := setPieceState i PieceDownloading (mgr ?w)\<rparr>) i [] (sampleData i) js l"
    and run: "\<And>es. runP (RunClient (Some sampleClient) (Some sampleMeta) sampleOptions
        (MessageReady (bitfieldMessage (numPieces (mgr ?w))) # MessageReady unchokeMessage # es)) ?w =
      (case runP (workerLoop (int (numPieces (mgr ?w))) es l) (?w\<lparr>mgr := setPieceState i PieceDownloading (mgr ?w)\<rparr>) of
         (x, w') \<Rightarrow> runP (bindP (finishLoop x) (\<lambda>(r, l). Done (r, Some l))) w')"
    by (rule RunClient_start [OF w cl(3) sample_goodData todo cl(1,2), of sampleOptions]) (erule that, assumption)
  have i: "i = 0" using m miss by simp
  let ?w' = "?w\<lparr>mgr := setPieceState i PieceDownloading (mgr ?w)\<rparr>"
  have "runP (RunClient (Some sampleClient) (Some sampleMeta) sampleOptions ?es) ?w = ((Inr Waiting, Some l), ?w')"
    using run [of "[]"] by (simp add: finishLoop_def)
  moreover have "take 2 (seederEvents (mgr ?w) sampleData) = ?es" by (simp add: seederEvents_def)
  ultimately have "sampleRun 2 [Done (Inr Waiting, Some l)] ?w'"
    using swarmRuns_alone [of 0 "[RunClient (Some sampleClient) (Some sampleMeta) sampleOptions ?es]" _ ?w]
    by (simp add: sampleRun_def sample_connect)
  moreover have "currentPiece l = Some (pieceAt ?w 0)" "received l = []"
    using mid by (simp_all add: midway_def fetching_def i) (simp add: setPieceState_def sampleWorld_def sampleManager_def Piece.defs)
  ultimately show ?thesis by blast
qed

section \<open>Properties\<close>

text \<open>
  C4. Whatever the peers do and however the workers interleave, the piece manager stays consistent: every
  complete piece is on the disk with its hash; what was complete stays complete, byte for byte. Every piece that
  is reserved or being verified has one owner, and owners of different pieces differ. An owner that is at its
  \<open>select\<close> waits for exactly this piece, and the other way round: the current piece of a worker at its \<open>select\<close> is
  reserved in the manager and this worker is its owner, so that two such workers never have the same current piece.
  When all workers have returned no piece is left reserved.
\<close>

theorem swarm_invariant:
  assumes "managerInv w" "busy w = {}" "swarmRuns (w, map (workerOf meta peerID) js) (w', ts)"
  shows "managerInv w' \<and> layout (mgr w') = layout (mgr w) \<and>
    (\<forall>i<numPieces (mgr w). stateAt (mgr w) i = PieceComplete \<longrightarrow>
       stateAt (mgr w') i = PieceComplete \<and> pieceData w' i = pieceData w i) \<and>
    (\<exists>owner. inj_on owner (busy w') \<and>
       (\<forall>i\<in>busy w'. owner i < length js \<and> (\<forall>x. ts ! owner i = Done x \<longrightarrow>
          (\<exists>l. x = (Inr Waiting, Some l) \<and> currentPiece l = Some (pieceAt w i)))) \<and>
       (\<forall>k<length js. \<forall>l p. ts ! k = Done (Inr Waiting, Some l) \<and> currentPiece l = Some p \<longrightarrow>
          (\<exists>i\<in>busy w'. owner i = k \<and> p = pieceAt w i \<and> Index p = int i \<and> stateAt (mgr w') i = PieceDownloading))) \<and>
    (\<forall>k<length js. \<forall>k'<length js. \<forall>l l' p p'. k \<noteq> k' \<and> ts ! k = Done (Inr Waiting, Some l) \<and> currentPiece l = Some p \<and>
       ts ! k' = Done (Inr Waiting, Some l') \<and> currentPiece l' = Some p' \<longrightarrow> Index p \<noteq> Index p') \<and>
    ((\<forall>t\<in>set ts. \<exists>x. t = Done x \<and> hasEnded x) \<longrightarrow> busy w' = {})"
proof -
  let ?L = "layout (mgr w)"
  note c = swarm_crew [OF assms]
  obtain hs where all: "busy w' = (\<Union>k<length js. claimed (hs ! k))" and holds: "\<And>k. k < length js \<Longrightarrow> holdsClaim (hs ! k) w'"
    and ended: "\<And>k x. k < length js \<Longrightarrow> ts ! k = Done x \<Longrightarrow> workerEnd ?L (startOf meta peerID (js ! k)) (hs ! k) x"
    and apart: "\<And>k k'. k < length js \<Longrightarrow> k' < length js \<Longrightarrow> k \<noteq> k' \<Longrightarrow> claimed (hs ! k) \<inter> claimed (hs ! k') = {}"
    using swarm_hands [OF assms] by blast
  have lay: "layout (mgr w') = ?L" using c(2) by (simp add: later_def)
  have piece: "fst ?L ! i = pieceAt w i" if "i < numPieces (mgr w)" for i using that by (simp add: layout_def numPieces_def)
  obtain owner where o: "\<And>i. i \<in> busy w' \<Longrightarrow> owner i < length js \<and> i \<in> claimed (hs ! owner i)" unfolding all by (metis UN_E lessThan_iff)
  have inj: "inj_on owner (busy w')" by (rule inj_onI) (metis claimed_one o)
  have owned: "\<exists>l. x = (Inr Waiting, Some l) \<and> currentPiece l = Some (pieceAt w i)" if "i \<in> busy w'" "ts ! owner i = Done x" for i x
  proof -
    have "i < numPieces (mgr w)" using that(1) layout_eq(3) [OF lay] by (simp add: busy_def)
    then show ?thesis using workerEnd_claim [OF ended [OF _ that(2)]] o [OF that(1)] piece by metis
  qed
  have waiting: "\<exists>i\<in>busy w'. hs ! k = Fetching i \<and> owner i = k \<and> p = pieceAt w i \<and> Index p = int i \<and> stateAt (mgr w') i = PieceDownloading"
    if k: "k < length js" "ts ! k = Done (Inr Waiting, Some l)" "currentPiece l = Some p" for k l p
  proof -
    obtain i where i: "hs ! k = Fetching i" "p = fst ?L ! i" "Index p = int i" using workerEnd_piece [OF ended [OF k(1,2)] k(3)] by blast
    then have h: "i < numPieces (mgr w)" "stateAt (mgr w') i = PieceDownloading" using holds [OF k(1)] layout_eq(3) [OF lay] by simp_all
    have mine: "i \<in> claimed (hs ! k)" using i(1) by simp
    then have b: "i \<in> busy w'" using k(1) unfolding all by blast
    then have "owner i = k" using o apart k(1) mine by blast
    then show ?thesis using b i h piece by metis
  qed
  have distinct: "Index p \<noteq> Index p'" if "k < length js" "k' < length js" "k \<noteq> k'" "ts ! k = Done (Inr Waiting, Some l)"
    "currentPiece l = Some p" "ts ! k' = Done (Inr Waiting, Some l')" "currentPiece l' = Some p'" for k k' l l' p p'
  proof -
    from waiting [OF that(1,4,5)] obtain i where i: "owner i = k" "Index p = int i" by blast
    from waiting [OF that(2,6,7)] obtain i' where i': "owner i' = k'" "Index p' = int i'" by blast
    show ?thesis using i i' that(3) by auto
  qed
  have "busy w' = {}" if "\<forall>t\<in>set ts. \<exists>x. t = Done x \<and> hasEnded x"
  proof (rule ccontr)
    assume "busy w' \<noteq> {}"
    then obtain i where i: "i \<in> busy w'" by blast
    then have "ts ! owner i \<in> set ts" using o swarmRuns_length [OF assms(3)] by simp
    with that obtain x where "ts ! owner i = Done x" "hasEnded x" by blast
    then show False using owned [OF i] by (auto simp: hasEnded_def)
  qed
  moreover have "managerInv w'" using swarm.crew_valid [OF c(1)] by (simp add: pieceInv_def)
  moreover have "\<forall>i<numPieces (mgr w). stateAt (mgr w) i = PieceComplete \<longrightarrow>
       stateAt (mgr w') i = PieceComplete \<and> pieceData w' i = pieceData w i" using c(2) by (simp add: later_def)
  moreover have "(\<forall>i\<in>busy w'. owner i < length js \<and> (\<forall>x. ts ! owner i = Done x \<longrightarrow>
          (\<exists>l. x = (Inr Waiting, Some l) \<and> currentPiece l = Some (pieceAt w i)))) \<and>
       (\<forall>k<length js. \<forall>l p. ts ! k = Done (Inr Waiting, Some l) \<and> currentPiece l = Some p \<longrightarrow>
          (\<exists>i\<in>busy w'. owner i = k \<and> p = pieceAt w i \<and> Index p = int i \<and> stateAt (mgr w') i = PieceDownloading))"
    using o owned waiting by blast
  ultimately show ?thesis using lay inj distinct by blast
qed

theorem swarm_invariant_witness:
  "\<exists>l w owner. sampleRun 2 [Done (Inr Waiting, Some l)] w \<and> managerInv w \<and> 0 \<in> busy w \<and> owner 0 = (0 :: nat) \<and>
     inj_on owner (busy w) \<and> currentPiece l = Some (pieceAt (sampleWorld PieceMissing PieceMissing) 0)"
proof -
  let ?w = "sampleWorld PieceMissing PieceMissing"
  obtain m w where run: "sampleRun 2 [Done (Inr Waiting, Some m)] w" "currentPiece m = Some (pieceAt ?w 0)" using sample_waits by blast
  have "managerInv ?w" "busy ?w = {}" by (simp_all add: sampleWorld_inv sampleWorld_busy)
  note inv = swarm_invariant [OF this run(1) [unfolded sampleRun_def]]
  then obtain owner where o: "inj_on owner (busy w)" "\<forall>i\<in>busy w. owner i = (0 :: nat)" "\<exists>i\<in>busy w. Index (pieceAt ?w 0) = int i"
    using run(2) by auto
  have "Index (pieceAt ?w 0) = 0" using small_piece(1) [of ?w 0] sampleWorld_inv by simp
  with o(2,3) have "0 \<in> busy w \<and> owner 0 = 0" by auto
  then show ?thesis using inv o run by (intro exI [of _ m] exI [of _ w] exI [of _ owner]) auto
qed

text \<open>
  C13. A worker asks only for what it may ask. Behind its handshake it sends \<open>interested\<close> and then requests,
  nothing else; only the last message may be cut off, by a failed write. Every request is for the first block of
  a piece of the torrent or for the block behind the one requested just before, and its length is that of the
  block: \<open>BlockSize\<close>, or what is left of the piece. While the worker waits with a current piece, that piece is
  reserved for it in the manager, the last request it has sent is the one for the bytes of this piece that follow
  those it has received, and it waits for exactly this block, under a deadline. It never fails because of itself:
  no panic, no request without a piece, no empty request.
\<close>

theorem worker_requests:
  assumes "managerInv w" "busy w = {}" "swarmRuns (w, map (workerOf meta peerID) js) (w', ts)"
    "k < length js" "ts ! k = Done (r, Some l)"
  shows "(\<exists>rs n. sent (Conn (client l)) = startOf meta peerID (js ! k) @ take n (concat (map messageFrame (NewInterested # rs))) \<and>
      (\<forall>j<length rs. \<exists>i<numPieces (mgr w). \<exists>start. 0 \<le> start \<and> start < pieceLen (pieces (mgr w) ! i) \<and>
         rs ! j = NewRequest (int i) start (min BlockSize (pieceLen (pieces (mgr w) ! i) - start)) \<and>
         (start = 0 \<or> 0 < j \<and> BlockSize \<le> start \<and> rs ! (j - 1) = NewRequest (int i) (start - BlockSize) BlockSize)) \<and>
      (r = Inr Waiting \<longrightarrow> n \<ge> length (concat (map messageFrame (NewInterested # rs))) \<and>
         (\<forall>p. currentPiece l = Some p \<longrightarrow> rs \<noteq> [] \<and> last rs = NewRequest (Index p) (expectedBegin l) (expectedLength l)))) \<and>
    (\<forall>e. r = Inl e \<longrightarrow> e \<notin> {WorkerPanics, CannotRequest, NoRemainingData}) \<and>
    (r = Inr Waiting \<longrightarrow> (case currentPiece l of None \<Rightarrow> blockDeadline l = None
      | Some p \<Rightarrow> (\<exists>i<numPieces (mgr w). p = pieceAt w i \<and> Index p = int i \<and> stateAt (mgr w') i = PieceDownloading) \<and>
          blockDeadline l \<noteq> None \<and> expectedBegin l = int (length (received l)) \<and>
          int (length (received l)) < pieceLen p \<and>
          expectedLength l = min BlockSize (pieceLen p - int (length (received l)))))"
proof -
  let ?L = "layout (mgr w)" and ?s = "startOf meta peerID (js ! k)"
  obtain hs where holds: "holdsClaim (hs ! k) w'" and e: "workerEnd ?L ?s (hs ! k) (r, Some l)"
    using swarm_hands [OF assms(1-3)] assms(4,5) by metis
  have lay: "layout (mgr w') = ?L" using swarm_crew(2) [OF assms(1-3)] by (simp add: later_def)
  note good = orderly_requests [OF assms(1)]
  show ?thesis
  proof (cases "r = Inr Waiting")
    case True
    then have I: "carries ?L l (hs ! k)" "expecting l" "outstanding ?L ?s l" using e by (simp_all add: atSelect_def)
    have "\<exists>rs. sentOf l = ?s @ askedFrames rs \<and> orderly ?L rs \<and>
      (\<forall>p. currentPiece l = Some p \<longrightarrow> rs \<noteq> [] \<and> last rs = NewRequest (Index p) (expectedBegin l) (expectedLength l))"
    proof (cases "currentPiece l")
      case None
      then show ?thesis using I(3) by (auto simp: outstanding_def asked_def)
    next
      case (Some p)
      then obtain rs where "sentOf l = ?s @ askedFrames (rs @ [blockRequest p (int (length (received l)))])"
        "orderly ?L (rs @ [blockRequest p (int (length (received l)))])" using I(3) by (auto simp: outstanding_def awaiting_def)
      then show ?thesis using I(2) Some
        by (intro exI [of _ "rs @ [blockRequest p (int (length (received l)))]"]) (simp add: expecting_def blockRequest_def)
    qed
    then obtain rs where rs: "sentOf l = ?s @ askedFrames rs" "orderly ?L rs"
      "\<forall>p. currentPiece l = Some p \<longrightarrow> rs \<noteq> [] \<and> last rs = NewRequest (Index p) (expectedBegin l) (expectedLength l)" by blast
    have reserved: "\<exists>i<numPieces (mgr w). p = pieceAt w i \<and> Index p = int i \<and> stateAt (mgr w') i = PieceDownloading"
      if cur: "currentPiece l = Some p" for p
    proof -
      obtain i where i: "i < length (fst ?L)" "hs ! k = Fetching i" "p = fst ?L ! i" "Index p = int i"
        using workerEnd_piece [OF _ cur] e True by blast
      then show ?thesis using holds by (auto simp: layout_def numPieces_def)
    qed
    have "sentOf l = ?s @ take (length (askedFrames rs)) (askedFrames rs)" using rs(1) by simp
    then have "\<exists>rs n. sentOf l = ?s @ take n (askedFrames rs) \<and> orderly ?L rs \<and> n \<ge> length (askedFrames rs) \<and>
      (\<forall>p. currentPiece l = Some p \<longrightarrow> rs \<noteq> [] \<and> last rs = NewRequest (Index p) (expectedBegin l) (expectedLength l))"
      using rs(2,3) by blast
    moreover have "case currentPiece l of None \<Rightarrow> blockDeadline l = None
      | Some p \<Rightarrow> (\<exists>i<numPieces (mgr w). p = pieceAt w i \<and> Index p = int i \<and> stateAt (mgr w') i = PieceDownloading) \<and>
          blockDeadline l \<noteq> None \<and> expectedBegin l = int (length (received l)) \<and> int (length (received l)) < pieceLen p \<and>
          expectedLength l = min BlockSize (pieceLen p - int (length (received l)))"
      using I(2) reserved by (simp add: expecting_def split: option.splits)
    ultimately show ?thesis using True good unfolding askedFrames_def by (intro conjI) blast+
  next
    case False
    then have "asking ?L ?s (sentOf l)" "\<forall>e. r = Inl e \<longrightarrow> \<not> internalError e" using e by simp_all
    then show ?thesis using False good unfolding asking_def askedFrames_def internalError_def by blast
  qed
qed

theorem worker_requests_witness:
  "\<exists>l w rs. sampleRun 2 [Done (Inr Waiting, Some l)] w \<and> rs \<noteq> [] \<and> last rs = NewRequest 0 0 4 \<and> expectedLength l = 4 \<and>
     sent (Conn (client l)) = startOf sampleMeta sampleID (sampleJob (take 2 (seederEvents (mgr (sampleWorld PieceMissing PieceMissing)) sampleData))) @
       concat (map messageFrame (NewInterested # rs))"
proof -
  let ?w = "sampleWorld PieceMissing PieceMissing"
  obtain l w where run: "sampleRun 2 [Done (Inr Waiting, Some l)] w" "currentPiece l = Some (pieceAt ?w 0)" "received l = []"
    using sample_waits by blast
  have "managerInv ?w" "busy ?w = {}" by (simp_all add: sampleWorld_inv sampleWorld_busy)
  note requests = worker_requests [OF this run(1) [unfolded sampleRun_def], of 0 "Inr Waiting" l]
  have "Index (pieceAt ?w 0) = 0" using small_piece(1) [of ?w 0] sampleWorld_inv by simp
  moreover have "pieceLen (pieceAt ?w 0) = 4" by (simp add: sampleWorld_def sampleManager_def Piece.defs)
  ultimately obtain rs where "sentOf l = startOf sampleMeta sampleID (sampleJob (take 2 (seederEvents (mgr ?w) sampleData))) @
      concat (map messageFrame (NewInterested # rs))" "rs \<noteq> []" "last rs = NewRequest 0 0 4" "expectedLength l = 4"
    using requests run by (auto simp: BlockSize_def)
  then show ?thesis using run(1) by blast
qed

text \<open>
  C6. The download makes progress. Let the peer have the torrent and react: it announces all pieces, unchokes a
  worker that has said it is interested, and answers each request that it hears, and nothing else, with the bytes
  the request names. Let the disk be without faults, the storage open and the connection open and taking what is
  written. Then, when the worker and the peer take turns until one of them has nothing more to say, \<open>RunClient\<close>
  returns without an error after it has fetched, verified and stored every missing piece, however many there are:
  each holds the peer's bytes, and the others what they held. The peer has to send two messages and the blocks of the
  missing pieces, no more.
\<close>

theorem seeder_completes:
  assumes "managerInv w" "busy w = {}" "faults (disk w) = []" "\<not> closed (storage (mgr w))"
    "numPieces (mgr w) \<le> 2 ^ 32" "length (Pieces meta) = numPieces (mgr w)"
    "\<forall>i<numPieces (mgr w). int (length (D i)) = pieceLen (pieces (mgr w) ! i) \<and> sha1 (D i) = Hash (pieces (mgr w) ! i)"
    "\<not> IsComplete (mgr w)" "\<not> connClosed (Conn cl)" "writes (Conn cl) = []" "messagesNeeded (mgr w) \<le> fuel"
  shows "\<exists>l w'. runP (RunClient (Some cl) (Some meta) opts (conversation cl meta opts D w fuel [])) w = ((Inr Returned, Some l), w') \<and>
    IsComplete (mgr w') \<and> managerInv w' \<and> layout (mgr w') = layout (mgr w) \<and>
    (\<forall>i<numPieces (mgr w). pieceData w' i = (if stateAt (mgr w) i = PieceMissing then D i else pieceData w i)) \<and>
    length (conversation cl meta opts D w fuel []) = messagesNeeded (mgr w)"
proof -
  have D: "goodData w D" using assms(7) by (simp add: goodData_def)
  have e: "conversation cl meta opts D w fuel [] = seederEvents (mgr w) D"
    by (rule conversation_eq [OF assms(1-6) D assms(8-10)]) (use assms(11) seederEvents_length [OF D] in simp)
  from RunClient_seeder [OF assms(1-6) D assms(8-10), of opts "[]"] show ?thesis
    unfolding e seederEvents_length [OF D] by (auto simp: fetched_def missing_def)
qed

theorem seeder_completes_witness:
  "\<exists>l w'. runP (RunClient (Some sampleClient) (Some sampleMeta) sampleOptions
      (conversation sampleClient sampleMeta sampleOptions sampleData (sampleWorld PieceMissing PieceMissing) 4 []))
        (sampleWorld PieceMissing PieceMissing) = ((Inr Returned, Some l), w') \<and> IsComplete (mgr w') \<and>
    pieceData w' 0 = [1, 2, 3, 4] \<and> pieceData w' 1 = [7]"
proof -
  let ?w = "sampleWorld PieceMissing PieceMissing"
  have "managerInv ?w" "busy ?w = {}" by (simp_all add: sampleWorld_inv sampleWorld_busy)
  moreover have "\<forall>i<numPieces (mgr ?w). int (length (sampleData i)) = pieceLen (pieces (mgr ?w) ! i) \<and>
      sha1 (sampleData i) = Hash (pieces (mgr ?w) ! i)" using sample_goodData by (simp add: goodData_def)
  moreover have "\<not> IsComplete (mgr ?w)" by (rule sample_incomplete)
  moreover have "\<not> connClosed (Conn sampleClient)" "writes (Conn sampleClient) = []" "length (Pieces sampleMeta) = numPieces (mgr ?w)"
    by (simp_all add: sampleClient_def NewClient_def wire_def sampleMeta_def)
  ultimately show ?thesis
    using seeder_completes [of ?w sampleMeta sampleData sampleClient 4 sampleOptions] sample_needed
    by (auto simp: sampleData_def)
qed

section \<open>A lost wake-up\<close>

text \<open>Partial runs of one goroutine of a swarm.\<close>

lemma swarmRuns_prefix:
  assumes "i < length ts" "ts ! i = bindP p k" "runP p s = (x, t)"
  shows "swarmRuns (s, ts) (t, ts[i := k x])"
  using assms
proof (induction p arbitrary: s ts)
  case (Done y)
  then show ?case by (metis Pair_inject bindP.simps(1) list_update_id rtranclp.rtrancl_refl runP.simps(1))
next
  case (Step f q)
  have "swarmStep (s, ts) (f s, ts[i := bindP (q s) k])" using Step.prems by (intro section_of) simp_all
  moreover have "swarmRuns (f s, ts[i := bindP (q s) k]) (t, (ts[i := bindP (q s) k])[i := k x])"
    using Step.prems by (intro Step.IH) simp_all
  ultimately show ?case by (simp add: converse_rtranclp_into_rtranclp)
qed

lemmas swarm_trans = rtranclp_trans [where r = swarmStep]

text \<open>A worker in its loop, about to run \<open>m\<close>, and what is behind the loop.\<close>

definition finish :: "(workerError + outcome) \<times> worker \<Rightarrow> (world, (workerError + outcome) \<times> worker option) prog" where
  "finish rl = bindP (finishLoop rl) (\<lambda>(r, l). Done (r, Some l))"

definition inLoop :: "outcome workerAct \<Rightarrow> worker \<Rightarrow> (world, (workerError + outcome) \<times> worker option) prog" where
  "inLoop m l = bindP (m l) finish"

lemma inLoop_bind:
  assumes "i < length ts" "ts ! i = inLoop (bindW m f) l" "runP (m l) s = ((Inr x, l'), t)"
  shows "swarmRuns (s, ts) (t, ts[i := inLoop (f x) l'])"
proof -
  have "ts ! i = bindP (m l) (\<lambda>(r, l'). bindP (case r of Inl e \<Rightarrow> Done (Inl e, l') | Inr x \<Rightarrow> f x l') finish)"
    using assms(2) by (simp add: inLoop_def bindW_def bindP_assoc case_prod_unfold)
  from swarmRuns_prefix [OF assms(1) this assms(3)] show ?thesis by (simp add: inLoop_def)
qed

lemma inLoop_head:
  assumes "i < length ts" "ts ! i = inLoop (bindW loopHead f) l" "messagesOpen l"
  shows "swarmRuns (w, ts) (w, ts[i := inLoop (f Waiting) (l\<lparr>watching := Updates (mgr w)\<rparr>)])"
proof (rule inLoop_bind [OF assms(1,2)])
  show "runP (loopHead l) w = ((Inr Waiting, l\<lparr>watching := Updates (mgr w)\<rparr>), w)" using assms(3) by (simp add: loopHead_def)
qed

text \<open>A message and the head of the loop behind it.\<close>

definition afterEvent :: "int \<Rightarrow> workerEvent list \<Rightarrow> outcome workerAct" where
  "afterEvent count es = bindW loopHead (\<lambda>out. case out of Returned \<Rightarrow> retW Returned | Waiting \<Rightarrow> workerLoop count es)"

lemma inLoop_message:
  assumes "i < length ts" "ts ! i = inLoop (workerLoop count (MessageReady m # es)) l" "messagesOpen l"
    "runP (handleMessage count m l) w = ((Inr True, l'), w')"
  shows "swarmRuns (w, ts) (w', ts[i := inLoop (afterEvent count es) l'])"
proof -
  have "ts ! i = inLoop (bindW (handleEvent count (MessageReady m)) (\<lambda>r. case r of
       None \<Rightarrow> workerLoop count es
     | Some False \<Rightarrow> retW Returned
     | Some True \<Rightarrow> bindW loopHead (\<lambda>out. case out of
         Returned \<Rightarrow> retW Returned | Waiting \<Rightarrow> workerLoop count es))) l"
    using assms(2) by simp
  from inLoop_bind [OF assms(1) this event_message [OF assms(3,4)]] show ?thesis by (simp add: afterEvent_def)
qed

lemma inLoop_after:
  assumes "i < length ts" "ts ! i = inLoop (afterEvent count es) l" "messagesOpen l"
  shows "swarmRuns (w, ts) (w, ts[i := inLoop (workerLoop count es) (l\<lparr>watching := Updates (mgr w)\<rparr>)])"
  using inLoop_head [OF assms(1) assms(2) [unfolded afterEvent_def] assms(3)] by simp

text \<open>The sample worker after \<open>interested\<close>.\<close>

definition sampleStart :: worker where
  "sampleStart = (newWorker sampleClient sampleOptions 2)\<lparr>client := sampleClient\<lparr>Conn :=
     (Conn sampleClient)\<lparr>sent := sent (Conn sampleClient) @ messageFrame NewInterested\<rparr>\<rparr>\<rparr>"

lemma sampleStart_simps [simp]:
  "connClosed (Conn (client sampleStart)) = False" "writes (Conn (client sampleStart)) = []" "unchoked sampleStart = False"
  "currentPiece sampleStart = None" "messagesOpen sampleStart" "blockDeadline sampleStart = None"
  by (simp_all add: sampleStart_def newWorker_def sampleClient_def NewClient_def wire_def)

lemma sample_RunClient:
  "RunClient (Some sampleClient) (Some sampleMeta) sampleOptions es =
     inLoop (bindW loopHead (\<lambda>_. workerLoop 2 es)) sampleStart"
proof -
  have "\<not> connClosed (Conn sampleClient)" "writes (Conn sampleClient) = []"
    by (simp_all add: sampleClient_def NewClient_def wire_def)
  then have "writeW SendInterested NewInterested (newWorker sampleClient sampleOptions 2) = Done (Inr (), sampleStart)"
    by (simp add: writeW_def WriteMessage_def SetDeadline_def act_eval writeFull_ok frames newWorker_def sampleStart_def)
  moreover have "(\<lambda>rl. bindP (finishLoop rl) (\<lambda>(r, l). Done (r, Some l))) = finish"
    by (rule ext) (simp add: finish_def)
  ultimately show ?thesis by (simp add: RunClient_def sampleMeta_def inLoop_def)
qed

lemma sampleWorld_missing: "missing (mgr (sampleWorld PieceComplete PieceMissing)) = [1]"
  by (simp add: missing_def upt_rec numeral_2_eq_2)

lemma inLoop_bitfield:
  assumes "i < length ts" "ts ! i = inLoop (bindW loopHead (\<lambda>_. workerLoop 2 (MessageReady (bitfieldMessage 2) # es))) sampleStart"
  shows "swarmRuns (w, ts) (w, ts[i := inLoop (workerLoop 2 es)
    (sampleStart\<lparr>peerBitfield := replicate 2 True, watching := Updates (mgr w)\<rparr>)])"
proof -
  let ?l = "sampleStart\<lparr>watching := Updates (mgr w)\<rparr>"
  let ?ts = "ts[i := inLoop (workerLoop 2 (MessageReady (bitfieldMessage 2) # es)) ?l]"
  let ?us = "?ts[i := inLoop (afterEvent 2 es) (?l\<lparr>peerBitfield := replicate 2 True\<rparr>)]"
  have s1: "swarmRuns (w, ts) (w, ?ts)" by (rule inLoop_head [OF assms]) simp
  have s2: "swarmRuns (w, ?ts) (w, ?us)"
  proof (rule inLoop_message)
    show "runP (handleMessage 2 (bitfieldMessage 2) ?l) w = ((Inr True, ?l\<lparr>peerBitfield := replicate 2 True\<rparr>), w)"
      using bitfield_run [of 2 ?l w] by (simp add: MaxInt64_def)
  qed (use assms(1) in simp_all)
  have s3: "swarmRuns (w, ?us) (w, ?us[i := inLoop (workerLoop 2 es)
      (?l\<lparr>peerBitfield := replicate 2 True, watching := Updates (mgr w)\<rparr>)])"
    by (rule inLoop_after) (use assms(1) in simp_all)
  show ?thesis using swarm_trans [OF s1 swarm_trans [OF s2 s3]] by simp
qed

section \<open>An update that is lost\<close>

text \<open>The states of the execution: before, while the first worker has the second piece, and after its release.\<close>

abbreviation lostWorld :: world where
  "lostWorld \<equiv> sampleWorld PieceComplete PieceMissing"

abbreviation lostReserved :: PieceManager where
  "lostReserved \<equiv> setPieceState 1 PieceDownloading (mgr lostWorld)"

abbreviation lostWorld1 :: world where
  "lostWorld1 \<equiv> lostWorld\<lparr>mgr := lostReserved\<rparr>"

abbreviation lostWorld2 :: world where
  "lostWorld2 \<equiv> lostWorld1\<lparr>mgr := MarkFailed 1 lostReserved\<rparr>"

abbreviation lostVars :: worker where
  "lostVars \<equiv> sampleStart\<lparr>peerBitfield := replicate 2 True, watching := Updates (mgr lostWorld)\<rparr>"

abbreviation lostLoop :: "workerEvent list \<Rightarrow> worker \<Rightarrow> (world, (workerError + outcome) \<times> worker option) prog" where
  "lostLoop es \<equiv> inLoop (workerLoop 2 es)"

lemma lost_states:
  "numPieces lostReserved = 2" "stateAt lostReserved 0 = PieceComplete" "stateAt lostReserved 1 = PieceDownloading"
  "stateAt (mgr lostWorld2) 0 = PieceComplete" "stateAt (mgr lostWorld2) 1 = PieceMissing" "\<not> IsComplete (mgr lostWorld2)"
proof -
  show num: "numPieces lostReserved = 2" using layout_eq(3) [OF setPieceState_layout [of 1 PieceDownloading "mgr lostWorld"]] by simp
  show st: "stateAt lostReserved 0 = PieceComplete" "stateAt lostReserved 1 = PieceDownloading"
    using setPieceState_state [of 1 "mgr lostWorld"] by simp_all
  show free: "stateAt (mgr lostWorld2) 0 = PieceComplete" "stateAt (mgr lostWorld2) 1 = PieceMissing"
    using st num setPieceState_state [of 1 lostReserved] by (simp_all add: MarkFailed_eq validIndex_def numPieces_def)
  have "1 < numPieces (mgr lostWorld2)" using layout_eq(3) [of "mgr lostWorld2" "mgr lostWorld"] by simp
  then show "\<not> IsComplete (mgr lostWorld2)" using free(2) unfolding IsComplete_iff by fastforce
qed

text \<open>The second worker finds no piece while the first one has it.\<close>

lemma lost_none:
  "runP (requestNextPiece (lostVars\<lparr>unchoked := True\<rparr>)) lostWorld1 = ((Inr (), lostVars\<lparr>unchoked := True, currentPiece := None\<rparr>), lostWorld1)"
proof -
  have "\<not> available (replicate 2 True) (pieces lostReserved ! k)" if "k < numPieces lostReserved" for k
  proof -
    from that lost_states(1) consider "k = 0" | "k = 1" by fastforce
    then show ?thesis using lost_states(2,3) by cases (simp_all add: available_def stateAt_def)
  qed
  then have "NextPieceForPeer (replicate 2 True) lostReserved = (None, lostReserved)"
    using NextPieceForPeer_cases [of "replicate 2 True" lostReserved] by blast
  then show ?thesis by (simp add: requestNextPiece_def bindW_def locked_def)
qed

text \<open>The first worker takes the piece, and times out.\<close>

lemma lost_first:
  "\<exists>a b. runP (requestNextPiece (lostVars\<lparr>unchoked := True\<rparr>)) lostWorld = ((Inr (), a), lostWorld1) \<and> messagesOpen a \<and>
    runP (lostLoop [DeadlineReady] (a\<lparr>watching := Updates lostReserved\<rparr>)) lostWorld1 = ((Inl (BlockTimedOut 1), Some b), lostWorld2)"
proof -
  have g: "geometry (mgr lostWorld)" using sampleWorld_inv by (simp add: managerInv_def)
  note nm = next_missing [OF g sampleWorld_missing, unfolded sampleWorld_numPieces]
  have serving: "serving 2 (lostVars\<lparr>unchoked := True\<rparr>)" "currentPiece (lostVars\<lparr>unchoked := True\<rparr>) = None"
    by (simp_all add: serving_def)
  obtain a where a: "runP (requestNextPiece (lostVars\<lparr>unchoked := True\<rparr>)) lostWorld = ((Inr (), a), lostWorld1)"
    "fetching 2 (Piece.truncate (pieces (mgr lostWorld) ! 1)) [] a"
    using requestNextPiece_run [OF serving nm(1)] small_piece(2) [of lostWorld 1] sampleWorld_inv by auto
  obtain p t where "currentPiece a = Some p" "blockDeadline a = Some t" "Index p = 1"
    using a(2) small_piece(1) [of lostWorld 1] sampleWorld_inv by (auto simp: fetching_def expecting_def)
  then have "\<exists>b. runP (lostLoop [DeadlineReady] (a\<lparr>watching := Updates lostReserved\<rparr>)) lostWorld1 =
      ((Inl (BlockTimedOut 1), Some b), lostWorld2)"
    by (simp add: inLoop_def workerLoop.simps handleEvent_def Let_def bindW_def seqW_def releaseCurrent_def
        locked_def clearCurrent_def stopBlockTimer_def setW_def getW_def failW_def finish_def finishLoop_def)
  moreover have "messagesOpen a" using a(2) by (simp add: fetching_def serving_def)
  ultimately show ?thesis using a(1) by blast
qed

lemma lost_waits:
  "lostLoop [] l = Done (Inr Waiting, Some l)"
  by (simp add: inLoop_def finish_def finishLoop_def workerLoop.simps retW_def)

text \<open>The schedule: bitfield, bitfield, unchoke of the first worker, unchoke of the second, timeout, loop head.\<close>

lemma lost_schedule:
  fixes u :: workerEvent
  defines "u \<equiv> MessageReady unchokeMessage"
  defines "start \<equiv> \<lambda>es. inLoop (bindW loopHead (\<lambda>_. workerLoop 2 (MessageReady (bitfieldMessage 2) # es))) sampleStart"
  shows "\<exists>a. swarmRuns (lostWorld, [start [u, DeadlineReady], start [u]]) (lostWorld2, [Done (Inl (BlockTimedOut 1), Some a),
    Done (Inr Waiting, Some (lostVars\<lparr>unchoked := True, currentPiece := None, watching := Updates (mgr lostWorld2)\<rparr>))])"
proof -
  note [simp del] = workerLoop.simps
  let ?after = "\<lambda>es. inLoop (afterEvent 2 es)" and ?l = lostVars
  let ?b = "?l\<lparr>unchoked := True, currentPiece := None\<rparr>"
  obtain a b where a: "runP (requestNextPiece (?l\<lparr>unchoked := True\<rparr>)) lostWorld = ((Inr (), a), lostWorld1)" "messagesOpen a"
    "runP (lostLoop [DeadlineReady] (a\<lparr>watching := Updates lostReserved\<rparr>)) lostWorld1 = ((Inl (BlockTimedOut 1), Some b), lostWorld2)"
    using lost_first by blast
  let ?a = "lostLoop [DeadlineReady] (a\<lparr>watching := Updates lostReserved\<rparr>)" and ?final = "Done (Inl (BlockTimedOut 1), Some b)"
  have s1: "swarmRuns (lostWorld, [start [u, DeadlineReady], start [u]]) (lostWorld, [lostLoop [u, DeadlineReady] ?l, start [u]])"
    using inLoop_bitfield [of 0 "[start [u, DeadlineReady], start [u]]" "[u, DeadlineReady]" lostWorld] by (simp add: start_def)
  have s2: "swarmRuns (lostWorld, [lostLoop [u, DeadlineReady] ?l, start [u]]) (lostWorld, [lostLoop [u, DeadlineReady] ?l, lostLoop [u] ?l])"
    using inLoop_bitfield [of 1 "[lostLoop [u, DeadlineReady] ?l, start [u]]" "[u]" lostWorld] by (simp add: start_def)
  have s3: "swarmRuns (lostWorld, [lostLoop [u, DeadlineReady] ?l, lostLoop [u] ?l]) (lostWorld1, [?after [DeadlineReady] a, lostLoop [u] ?l])"
    using inLoop_message [of 0 "[lostLoop [u, DeadlineReady] ?l, lostLoop [u] ?l]" 2 unchokeMessage "[DeadlineReady]" ?l, OF _ _ _
      unchoke_run [OF a(1)]] by (simp add: u_def)
  have s4: "swarmRuns (lostWorld1, [?after [DeadlineReady] a, lostLoop [u] ?l]) (lostWorld1, [?a, lostLoop [u] ?l])"
    using inLoop_after [of 0 "[?after [DeadlineReady] a, lostLoop [u] ?l]" 2 "[DeadlineReady]" a lostWorld1] a(2) by simp
  have s5: "swarmRuns (lostWorld1, [?a, lostLoop [u] ?l]) (lostWorld1, [?a, ?after [] ?b])"
    using inLoop_message [of 1 "[?a, lostLoop [u] ?l]" 2 unchokeMessage "[]" ?l, OF _ _ _ unchoke_run [OF lost_none]] by (simp add: u_def)
  have s6: "swarmRuns (lostWorld1, [?a, ?after [] ?b]) (lostWorld2, [?final, ?after [] ?b])"
    using swarmRuns_alone [of 0 "[?a, ?after [] ?b]", OF _ _ a(3)] by simp
  have s7: "swarmRuns (lostWorld2, [?final, ?after [] ?b]) (lostWorld2, [?final, lostLoop [] (?b\<lparr>watching := Updates (mgr lostWorld2)\<rparr>)])"
    using inLoop_after [of 1 "[?final, ?after [] ?b]" 2 "[]" ?b lostWorld2] by simp
  show ?thesis using swarm_trans [OF s1 swarm_trans [OF s2 swarm_trans [OF s3 swarm_trans [OF s4 swarm_trans [OF s5 swarm_trans [OF s6 s7]]]]]]
    unfolding lost_waits by (rule exI)
qed

text \<open>C39. The news that a piece is free again can be lost: \<open>RunClient\<close> asks for a piece first and fetches the
  channel of \<open>Updates\<close> only afterwards, so a release in between goes unnoticed. Here the first worker times
  out between the two calls of the second one. In the end the first worker has returned, the missing piece is
  free, the peer of the second worker has it and has unchoked us, and yet the second worker waits without a
  request, and the update it waits for has already happened.\<close>

theorem update_lost:
  "\<exists>w a l. swarmRuns (sampleWorld PieceComplete PieceMissing, map (workerOf sampleMeta sampleID)
      [sampleJob [MessageReady (bitfieldMessage 2), MessageReady unchokeMessage, DeadlineReady],
       sampleJob [MessageReady (bitfieldMessage 2), MessageReady unchokeMessage]])
      (w, [Done (Inl (BlockTimedOut 1), a), Done (Inr Waiting, Some l)]) \<and>
    unchoked l \<and> peerBitfield l = [True, True] \<and> currentPiece l = None \<and> blockDeadline l = None \<and>
    stateAt (mgr w) 0 = PieceComplete \<and> stateAt (mgr w) 1 = PieceMissing \<and> \<not> IsComplete (mgr w) \<and>
    runP (handleEvent 2 UpdatesReady l) w = ((Inr None, l), w)"
proof -
  let ?b = "lostVars\<lparr>unchoked := True, currentPiece := None, watching := Updates (mgr lostWorld2)\<rparr>"
  obtain a where "swarmRuns (lostWorld, map (workerOf sampleMeta sampleID)
      [sampleJob [MessageReady (bitfieldMessage 2), MessageReady unchokeMessage, DeadlineReady],
       sampleJob [MessageReady (bitfieldMessage 2), MessageReady unchokeMessage]])
      (lostWorld2, [Done (Inl (BlockTimedOut 1), Some a), Done (Inr Waiting, Some ?b)])"
    using lost_schedule by (simp add: sample_connect sample_RunClient) blast
  moreover have "unchoked ?b" "peerBitfield ?b = [True, True]" "currentPiece ?b = None" "blockDeadline ?b = None"
    by (simp_all add: numeral_2_eq_2)
  moreover have "runP (handleEvent 2 UpdatesReady ?b) lostWorld2 = ((Inr None, ?b), lostWorld2)" by (simp add: handleEvent_def Let_def)
  ultimately show ?thesis using lost_states(4-6) by blast
qed

end
