(* ===== verification/ParseIP.thy ===== *)
theory ParseIP
  imports Address
begin

text \<open>
  \<open>net.ParseIP\<close> of the Go library, on which the dictionary form of a tracker's peer list relies: IPv4 in
  dotted decimal, IPv6 in groups of hexadecimal digits with at most one ellipsis and an IPv4 tail. The result
  is always 16 bytes, an IPv4 address mapped into IPv6. What \<open>IP.String\<close> prints for an IPv4 address is read
  back.
\<close>

section \<open>IPv4\<close>

text \<open>
  \<open>parseIPv4Fields\<close>: the fields that are complete, the value and the number of digits of the current one,
  and whether the previous character was a dot or there was none.
\<close>

fun ipv4Fields :: "bytes \<Rightarrow> nat \<Rightarrow> nat \<Rightarrow> bool \<Rightarrow> bytes \<Rightarrow> bytes option" where
  "ipv4Fields fs val digits afterDot [] =
     (if length fs < 3 then None else Some (fs @ [of_nat val]))"
| "ipv4Fields fs val digits afterDot (c # cs) =
     (if isDigit c then
        (if digits = 1 \<and> val = 0 then None
         else if 10 * val + digitVal c > 255 then None
         else ipv4Fields fs (10 * val + digitVal c) (Suc digits) False cs)
      else if c = 46 then
        (if afterDot \<or> cs = [] then None
         else if length fs = 3 then None
         else ipv4Fields (fs @ [of_nat val]) 0 0 True cs)
      else None)"

definition parseIPv4 :: "bytes \<Rightarrow> bytes option" where
  "parseIPv4 s = ipv4Fields [] 0 0 True s"

definition mapped4 :: "bytes \<Rightarrow> bytes" where
  "mapped4 ip = replicate 10 0 @ [255, 255] @ ip"

section \<open>IPv6\<close>

definition hexVal :: "byte \<Rightarrow> nat option" where
  "hexVal c =
     (if isDigit c then Some (digitVal c)
      else if 97 \<le> c \<and> c \<le> 102 then Some (unat c - 87)
      else if 65 \<le> c \<and> c \<le> 70 then Some (unat c - 55) else None)"

text \<open>The digits of one group, their value and what follows; at most four digits.\<close>

fun hexGroup :: "nat \<Rightarrow> nat \<Rightarrow> bytes \<Rightarrow> (nat \<times> nat \<times> bytes) option" where
  "hexGroup off acc [] = Some (off, acc, [])"
| "hexGroup off acc (c # cs) =
     (case hexVal c of
        None \<Rightarrow> Some (off, acc, c # cs)
      | Some d \<Rightarrow> if off > 3 then None else hexGroup (Suc off) (16 * acc + d) cs)"

definition groupBytes :: "nat \<Rightarrow> bytes" where
  "groupBytes acc = [of_nat (acc div 256), of_nat acc]"

text \<open>
  The loop over the groups: the bytes so far (at most 16), where the ellipsis stands, the rest. The fuel
  is the number of groups that still fit.
\<close>

fun ipv6Groups :: "nat \<Rightarrow> bytes \<Rightarrow> nat option \<Rightarrow> bytes \<Rightarrow> (bytes \<times> nat option \<times> bytes) option" where
  "ipv6Groups 0 ip ellipsis s = Some (ip, ellipsis, s)"
| "ipv6Groups (Suc n) ip ellipsis s =
     (case hexGroup 0 0 s of
        None \<Rightarrow> None
      | Some (off, acc, rest) \<Rightarrow>
         if off = 0 then None
         else if rest \<noteq> [] \<and> hd rest = 46 then
           (if ellipsis = None \<and> length ip \<noteq> 12 then None
            else if length ip + 4 > 16 then None
            else case parseIPv4 s of None \<Rightarrow> None | Some v4 \<Rightarrow> Some (ip @ v4, ellipsis, []))
         else
           let ip' = ip @ groupBytes acc in
           case rest of
             [] \<Rightarrow> Some (ip', ellipsis, [])
           | c # cs \<Rightarrow>
              if c \<noteq> 58 \<or> cs = [] then None
              else if hd cs = 58 then
                (if ellipsis \<noteq> None then None
                 else if tl cs = [] then Some (ip', Some (length ip'), [])
                 else ipv6Groups n ip' (Some (length ip')) (tl cs))
              else ipv6Groups n ip' ellipsis cs)"

definition parseIPv6 :: "bytes \<Rightarrow> bytes option" where
  "parseIPv6 s =
     (let lead = take 2 s = [58, 58] in
      if lead \<and> drop 2 s = [] then Some (replicate 16 0)
      else case ipv6Groups 8 [] (if lead then Some 0 else None) (if lead then drop 2 s else s) of
        None \<Rightarrow> None
      | Some (ip, ellipsis, rest) \<Rightarrow>
         if rest \<noteq> [] then None
         else if length ip < 16 then
           (case ellipsis of None \<Rightarrow> None
            | Some e \<Rightarrow> Some (take e ip @ replicate (16 - length ip) 0 @ drop e ip))
         else if ellipsis \<noteq> None then None
         else Some ip)"

text \<open>A zone (after a percent sign) is refused by \<open>ParseIP\<close>, wherever it stands.\<close>

definition goParseIP :: "bytes \<Rightarrow> bytes option" where
  "goParseIP s =
     (case filter (\<lambda>c. c \<in> {46, 58, 37}) s of
        [] \<Rightarrow> None
      | c # _ \<Rightarrow>
         if c = 46 then map_option mapped4 (parseIPv4 s)
         else if c = 58 then (if 37 \<in> set s then None else parseIPv6 s)
         else None)"

section \<open>Shape of the result\<close>

lemma ipv4Fields_length: "ipv4Fields fs v d a s = Some ip \<Longrightarrow> length fs \<le> 3 \<Longrightarrow> length ip = 4"
  by (induction fs v d a s rule: ipv4Fields.induct) (auto split: if_splits)

lemma parseIPv4_length: "parseIPv4 s = Some ip \<Longrightarrow> length ip = 4"
  by (auto simp: parseIPv4_def dest: ipv4Fields_length)

lemma ipv6Groups_length:
  "ipv6Groups n ip e s = Some (ip', e', rest) \<Longrightarrow> length ip = 16 - 2 * n \<Longrightarrow> n \<le> 8 \<Longrightarrow>
     (\<And>k. e = Some k \<Longrightarrow> k \<le> length ip) \<Longrightarrow> length ip' \<le> 16 \<and> (\<forall>k. e' = Some k \<longrightarrow> k \<le> length ip')"
proof (induction n arbitrary: ip e s)
  case (Suc n)
  obtain off acc tail where g: "hexGroup 0 0 s = Some (off, acc, tail)" "off \<noteq> 0"
    using Suc.prems(1) by (auto split: option.splits if_splits)
  let ?ip = "ip @ groupBytes acc"
  have len: "length ?ip = 16 - 2 * n" "length ?ip \<le> 16" using Suc.prems(2,3) by (simp_all add: groupBytes_def)
  have le: "k \<le> length ?ip" if "e = Some k" for k using Suc.prems(4) [OF that] by simp
  show ?case
  proof (cases "tail \<noteq> [] \<and> hd tail = 46")
    case True
    then obtain v4 where "parseIPv4 s = Some v4" "ip' = ip @ v4" "e' = e" "length ip + 4 \<le> 16"
      using Suc.prems(1) g by (auto split: option.splits if_splits)
    then show ?thesis using parseIPv4_length Suc.prems(4) by fastforce
  next
    case False
    show ?thesis
    proof (cases tail)
      case Nil
      then show ?thesis using Suc.prems(1) g len le by auto
    next
      case (Cons c cs)
      then have rest: "c = 58" "cs \<noteq> []" "hd cs \<noteq> 58 \<longrightarrow> ipv6Groups n ?ip e cs = Some (ip', e', rest)"
        "hd cs = 58 \<longrightarrow> (if tl cs = [] then ip' = ?ip \<and> e' = Some (length ?ip)
          else ipv6Groups n ?ip (Some (length ?ip)) (tl cs) = Some (ip', e', rest))"
        using Suc.prems(1) g False by (auto simp: Let_def split: if_splits)
      have n: "n \<le> 8" using Suc.prems(3) by simp
      consider "hd cs \<noteq> 58" | "hd cs = 58" "tl cs = []" | "hd cs = 58" "tl cs \<noteq> []" by blast
      then show ?thesis
      proof cases
        case 1
        then have "ipv6Groups n ?ip e cs = Some (ip', e', rest)" using rest(3) by simp
        then show ?thesis by (rule Suc.IH) (use len(1) n le in auto)
      next
        case 2
        then show ?thesis using rest(4) len(2) by simp
      next
        case 3
        then have "ipv6Groups n ?ip (Some (length ?ip)) (tl cs) = Some (ip', e', rest)" using rest(4) by simp
        then show ?thesis by (rule Suc.IH) (use len(1) n in auto)
      qed
    qed
  qed
qed auto

lemma parseIPv6_length:
  assumes "parseIPv6 s = Some ip" shows "length ip = 16"
proof (cases "take 2 s = [58, 58] \<and> drop 2 s = []")
  case False
  then obtain e0 s0 q e where r: "ipv6Groups 8 [] e0 s0 = Some (q, e, [])" "e0 = None \<or> e0 = Some 0"
    and ip: "if length q < 16 then (case e of None \<Rightarrow> False | Some k \<Rightarrow> ip = take k q @ replicate (16 - length q) 0 @ drop k q)
      else ip = q"
    using assms by (auto simp: parseIPv6_def Let_def split: option.splits if_splits prod.splits)
  have "length q \<le> 16 \<and> (\<forall>k. e = Some k \<longrightarrow> k \<le> length q)"
    by (rule ipv6Groups_length [OF r(1)]) (use r(2) in auto)
  then show ?thesis using ip by (auto split: if_splits option.splits)
qed (use assms in \<open>auto simp: parseIPv6_def Let_def\<close>)

lemma goParseIP_length: "goParseIP s = Some ip \<Longrightarrow> length ip = 16"
  by (auto simp: goParseIP_def mapped4_def split: list.splits if_splits dest: parseIPv4_length parseIPv6_length)

section \<open>What is printed is read back\<close>

lemma ipv4Fields_digits:
  assumes "\<forall>c\<in>set ds. isDigit c" "decVal v ds \<le> 255" "ds \<noteq> [] \<Longrightarrow> \<not> (k = 1 \<and> v = 0)"
    "k = 0 \<Longrightarrow> v = 0 \<and> (1 < length ds \<longrightarrow> hd ds \<noteq> 48)" "ds \<noteq> []"
  shows "ipv4Fields fs v k a (ds @ s) = ipv4Fields fs (decVal v ds) (k + length ds) False s"
  using assms
proof (induction ds arbitrary: v k a)
  case (Cons c ds)
  have le: "10 * v + digitVal c \<le> 255" using Cons.prems(2) decVal_ge [of "10 * v + digitVal c" ds] by simp
  have step: "ipv4Fields fs v k a ((c # ds) @ s) = ipv4Fields fs (10 * v + digitVal c) (Suc k) False (ds @ s)"
    using Cons.prems(1,3) le by auto
  show ?case
  proof (cases "ds = []")
    case True
    then show ?thesis using step by simp
  next
    case False
    have "c \<noteq> 48 \<Longrightarrow> 0 < digitVal c" using Cons.prems(1) digitByte_digitVal [of c] by (cases "digitVal c") (auto simp: digitByte_def)
    then have "\<not> (Suc k = 1 \<and> 10 * v + digitVal c = 0)" using Cons.prems(4) False by auto
    then have "ipv4Fields fs (10 * v + digitVal c) (Suc k) False (ds @ s) =
        ipv4Fields fs (decVal (10 * v + digitVal c) ds) (Suc k + length ds) False s"
      using Cons.prems(1,2) False by (intro Cons.IH) auto
    then show ?thesis using step by simp
  qed
qed simp

lemma ipv4Fields_byte:
  "ipv4Fields fs 0 0 a (decDigits (unat (b :: byte)) @ s) = ipv4Fields fs (unat b) (length (decDigits (unat b))) False s"
  using ipv4Fields_digits [of "decDigits (unat b)" 0 0 fs a s] decDigits_isDigit canonicalDigits_decDigits [of "unat b"]
    unsigned_less [where w = b and ?'a = nat] by (simp add: canonicalDigits_def)

lemma parseIPv4_dotted:
  assumes "length ip = 4" shows "parseIPv4 (dotted ip) = Some ip"
proof -
  obtain a b c d where ip: "ip = [a, b, c, d]" using assms by (auto simp: numeral_eq_Suc length_Suc_conv)
  show ?thesis
    using ipv4Fields_byte [where s = "[]"] by (simp add: ip parseIPv4_def dotted_def ipv4Fields_byte isDigit_def)
qed

lemma goParseIP_dotted:
  assumes "length ip = 4" shows "goParseIP (dotted ip) = Some (mapped4 ip)"
proof -
  let ?f = "filter (\<lambda>c. c \<in> {46, 58, 37}) (dotted ip)"
  have only: "set ?f \<subseteq> {46}" using dotted_chars by auto
  obtain a b c d where "ip = [a, b, c, d]" using assms by (auto simp: numeral_eq_Suc length_Suc_conv)
  then have "46 \<in> set ?f" by (simp add: dotted_def)
  then have "?f \<noteq> []" by (metis list.set(1) empty_iff)
  then obtain x xs where f: "?f = x # xs" by (meson neq_Nil_conv)
  then have "x = 46" using only by auto
  then show ?thesis using f parseIPv4_dotted [OF assms] by (simp add: goParseIP_def)
qed

end
