(* ===== verification/UrlQuery.thy ===== *)
theory UrlQuery
  imports ParseIP "HOL-Library.AList"
begin

text \<open>
  The query part of \<open>net/url\<close> that the HTTP announce uses: \<open>QueryEscape\<close>, \<open>QueryUnescape\<close>, \<open>Values\<close> with
  \<open>Set\<close> and \<open>Encode\<close>, and \<open>URL.Query\<close>. A \<open>Values\<close> is an association list with distinct keys. Whatever is
  encoded is read back.
\<close>

section \<open>Escaping\<close>

definition isUnreserved :: "byte \<Rightarrow> bool" where
  "isUnreserved c \<longleftrightarrow> isDigit c \<or> 97 \<le> c \<and> c \<le> 122 \<or> 65 \<le> c \<and> c \<le> 90 \<or> c \<in> {45, 95, 46, 126}"

definition upperHex :: "nat \<Rightarrow> byte" where
  "upperHex d = (if d < 10 then digitByte d else of_nat (55 + d))"

definition escapeByte :: "byte \<Rightarrow> bytes" where
  "escapeByte c =
     (if isUnreserved c then [c] else if c = 32 then [43]
      else [37, upperHex (unat c div 16), upperHex (unat c mod 16)])"

definition QueryEscape :: "bytes \<Rightarrow> bytes" where
  "QueryEscape s = concat (map escapeByte s)"

fun QueryUnescape :: "bytes \<Rightarrow> bytes option" where
  "QueryUnescape [] = Some []"
| "QueryUnescape (c # cs) =
     (if c = 37 then
        (case cs of
           a # b # rest \<Rightarrow>
             (case (hexVal a, hexVal b) of
                (Some x, Some y) \<Rightarrow> map_option (\<lambda>s. of_nat (16 * x + y) # s) (QueryUnescape rest)
              | _ \<Rightarrow> None)
         | _ \<Rightarrow> None)
      else map_option (\<lambda>s. (if c = 43 then 32 else c) # s) (QueryUnescape cs))"

section \<open>Values\<close>

type_synonym urlValues = "(bytes \<times> bytes list) list"

definition valuesSet :: "bytes \<Rightarrow> bytes \<Rightarrow> urlValues \<Rightarrow> urlValues" where
  "valuesSet k v q = AList.update k [v] q"

definition valuesAdd :: "bytes \<Rightarrow> bytes \<Rightarrow> urlValues \<Rightarrow> urlValues" where
  "valuesAdd k v q = AList.update k ((case map_of q k of None \<Rightarrow> [] | Some vs \<Rightarrow> vs) @ [v]) q"

fun splitOn :: "byte \<Rightarrow> bytes \<Rightarrow> bytes list" where
  "splitOn s [] = [[]]"
| "splitOn s (c # cs) =
     (if c = s then [] # splitOn s cs
      else case splitOn s cs of [] \<Rightarrow> [[c]] | x # xs \<Rightarrow> (c # x) # xs)"

text \<open>\<open>strings.Cut\<close>: before and after the first separator.\<close>

definition cutAt :: "byte \<Rightarrow> bytes \<Rightarrow> bytes \<times> bytes" where
  "cutAt s xs = (takeWhile (\<lambda>c. c \<noteq> s) xs, drop 1 (dropWhile (\<lambda>c. c \<noteq> s) xs))"

definition queryPair :: "bytes \<Rightarrow> (bytes \<times> bytes) option" where
  "queryPair s =
     (if 59 \<in> set s \<or> s = [] then None
      else case cutAt 61 s of (k, v) \<Rightarrow>
        (case (QueryUnescape k, QueryUnescape v) of (Some k', Some v') \<Rightarrow> Some (k', v') | _ \<Rightarrow> None))"

text \<open>\<open>URL.Query\<close> ignores the parts that do not parse.\<close>

definition parseQuery :: "bytes \<Rightarrow> urlValues" where
  "parseQuery s = foldl (\<lambda>q p. case queryPair p of None \<Rightarrow> q | Some (k, v) \<Rightarrow> valuesAdd k v q) [] (splitOn 38 s)"

definition encodePairs :: "urlValues \<Rightarrow> (bytes \<times> bytes) list" where
  "encodePairs q = concat (map (\<lambda>k. map (Pair k) (the (map_of q k))) (sort (map fst q)))"

definition Encode :: "urlValues \<Rightarrow> bytes" where
  "Encode q = joinWith 38 (map (\<lambda>(k, v). QueryEscape k @ 61 # QueryEscape v) (encodePairs q))"

section \<open>What is encoded is read back\<close>

lemma hexVal_upperHex: "d < 16 \<Longrightarrow> hexVal (upperHex d) = Some d"
proof -
  assume d: "d < 16"
  show ?thesis
  proof (cases "d < 10")
    case False
    then have "unat (of_nat (55 + d) :: byte) = 55 + d" using d
      by (simp add: unat_of_nat take_bit_nat_eq_self del: of_nat_add)
    then show ?thesis using False d
      by (simp add: upperHex_def hexVal_def isDigit_iff word_le_nat_alt del: of_nat_add)
  qed (simp add: upperHex_def hexVal_def)
qed

lemma unescape_byte: "QueryUnescape (escapeByte c @ s) = map_option (\<lambda>t. c # t) (QueryUnescape s)"
proof -
  have "unat c div 16 < 16" using unsigned_less [where w = c and ?'a = nat] by simp
  moreover have "16 * (unat c div 16) + unat c mod 16 = unat c" by simp
  ultimately show ?thesis
    by (auto simp: escapeByte_def isUnreserved_def isDigit_def hexVal_upperHex simp flip: of_nat_add of_nat_mult)
qed

lemma QueryUnescape_Escape: "QueryUnescape (QueryEscape s) = Some s"
  by (induction s) (simp_all add: QueryEscape_def unescape_byte)

lemma upperHex_plain: "d < 16 \<Longrightarrow> upperHex d \<notin> {38, 59, 61}"
proof
  assume d: "d < 16" "upperHex d \<in> {38, 59, 61}"
  then have "unat (upperHex d) \<in> {38, 59, 61}" by auto
  moreover have "unat (upperHex d) = (if d < 10 then 48 + d else 55 + d)" using d(1)
    by (simp add: upperHex_def unat_digitByte unat_of_nat take_bit_nat_eq_self del: of_nat_add)
  ultimately show False using d(1) by (auto split: if_splits)
qed

lemma QueryEscape_plain: "c \<in> set (QueryEscape s) \<Longrightarrow> c \<notin> {38, 59, 61}"
proof -
  assume "c \<in> set (QueryEscape s)"
  then obtain b where "c \<in> set (escapeByte b)" by (auto simp: QueryEscape_def)
  moreover have "unat b div 16 < 16" using unsigned_less [where w = b and ?'a = nat] by simp
  ultimately show ?thesis
    using upperHex_plain [of "unat b div 16"] upperHex_plain [of "unat b mod 16"]
    by (auto simp: escapeByte_def isUnreserved_def isDigit_def split: if_splits)
qed

lemma splitOn_plain: "s \<notin> set x \<Longrightarrow> splitOn s x = [x]"
  by (induction x) auto

lemma splitOn_append: "s \<notin> set x \<Longrightarrow> splitOn s (x @ s # y) = x # splitOn s y"
  by (induction x) auto

lemma splitOn_join: "\<forall>x\<in>set xs. s \<notin> set x \<Longrightarrow> xs \<noteq> [] \<Longrightarrow> splitOn s (joinWith s xs) = xs"
  by (induction s xs rule: joinWith.induct) (simp_all add: splitOn_plain splitOn_append)

lemma queryPair_encoded: "queryPair (QueryEscape k @ 61 # QueryEscape v) = Some (k, v)"
proof -
  have "61 \<notin> set (QueryEscape k)" "59 \<notin> set (QueryEscape k)" "59 \<notin> set (QueryEscape v)" using QueryEscape_plain by blast+
  moreover from this have "cutAt 61 (QueryEscape k @ 61 # QueryEscape v) = (QueryEscape k, QueryEscape v)"
    by (auto simp: cutAt_def takeWhile_append dropWhile_append)
  ultimately show ?thesis by (simp add: queryPair_def QueryUnescape_Escape)
qed

text \<open>What the pairs of a query amount to.\<close>

definition valuesOf :: "(bytes \<times> bytes) list \<Rightarrow> bytes \<Rightarrow> bytes list" where
  "valuesOf ps k = map snd (filter (\<lambda>p. fst p = k) ps)"

lemma foldl_valuesAdd:
  "map_of (foldl (\<lambda>q (k, v). valuesAdd k v q) q ps) k =
     (if valuesOf ps k = [] then map_of q k
      else Some ((case map_of q k of None \<Rightarrow> [] | Some vs \<Rightarrow> vs) @ valuesOf ps k))"
  by (induction ps arbitrary: q) (auto simp: valuesOf_def valuesAdd_def AList.update_conv' split: option.splits)

lemma parseQuery_join:
  assumes "ps \<noteq> []"
  shows "parseQuery (joinWith 38 (map (\<lambda>(k, v). QueryEscape k @ 61 # QueryEscape v) ps)) =
    foldl (\<lambda>q (k, v). valuesAdd k v q) [] ps"
proof -
  have "\<forall>x\<in>set (map (\<lambda>(k, v). QueryEscape k @ 61 # QueryEscape v) ps). 38 \<notin> set x"
    using QueryEscape_plain by fastforce
  then show ?thesis using assms
    by (simp add: parseQuery_def splitOn_join foldl_map case_prod_unfold queryPair_encoded)
qed

lemma parseQuery_Nil: "parseQuery [] = []"
  by (simp add: parseQuery_def queryPair_def)

lemma valuesOf_blocks:
  "distinct ks \<Longrightarrow> valuesOf (concat (map (\<lambda>k. map (Pair k) (f k)) ks)) k = (if k \<in> set ks then f k else [])"
proof (induction ks)
  case (Cons a ks)
  have "valuesOf (concat (map (\<lambda>k. map (Pair k) (f k)) (a # ks))) k =
      (if a = k then f a else []) @ valuesOf (concat (map (\<lambda>k. map (Pair k) (f k)) ks)) k"
    by (simp add: valuesOf_def filter_map comp_def)
  then show ?case using Cons by auto
qed (simp add: valuesOf_def)

lemma parseQuery_Encode:
  assumes "distinct (map fst q)" "\<And>k vs. map_of q k = Some vs \<Longrightarrow> vs \<noteq> []"
  shows "map_of (parseQuery (Encode q)) k = map_of q k"
proof -
  have vals: "valuesOf (encodePairs q) k = (case map_of q k of None \<Rightarrow> [] | Some vs \<Rightarrow> vs)"
  proof (cases "map_of q k")
    case None
    have "k \<notin> fst ` set q" using None by (simp add: map_of_eq_None_iff)
    then show ?thesis unfolding None option.case using assms(1) by (simp add: encodePairs_def valuesOf_blocks)
  next
    case (Some vs)
    then have "k \<in> fst ` set q" using map_of_SomeD [OF Some] by force
    then show ?thesis using assms(1) Some by (simp add: encodePairs_def valuesOf_blocks)
  qed
  show ?thesis
  proof (cases "encodePairs q = []")
    case True
    then have "map_of q k = None" using vals assms(2) by (auto simp: valuesOf_def split: option.splits)
    then show ?thesis using True by (simp add: Encode_def parseQuery_Nil)
  next
    case False
    then have "map_of (parseQuery (Encode q)) k =
        (if valuesOf (encodePairs q) k = [] then None else Some (valuesOf (encodePairs q) k))"
      by (simp add: Encode_def parseQuery_join foldl_valuesAdd)
    then show ?thesis using vals assms(2) by (auto split: option.splits)
  qed
qed

text \<open>The values of a parsed query are well formed, and \<open>Set\<close> keeps that.\<close>

definition wfValues :: "urlValues \<Rightarrow> bool" where
  "wfValues q \<longleftrightarrow> distinct (map fst q) \<and> (\<forall>k vs. map_of q k = Some vs \<longrightarrow> vs \<noteq> [])"

lemma wfValues_set: "wfValues q \<Longrightarrow> wfValues (valuesSet k v q)"
  by (auto simp: wfValues_def valuesSet_def AList.update_conv' distinct_update)

lemma wfValues_add: "wfValues q \<Longrightarrow> wfValues (valuesAdd k v q)"
  by (auto simp: wfValues_def valuesAdd_def AList.update_conv' distinct_update)

lemma wfValues_parseQuery: "wfValues (parseQuery s)"
proof -
  have "wfValues (foldl (\<lambda>q p. case queryPair p of None \<Rightarrow> q | Some (k, v) \<Rightarrow> valuesAdd k v q) q ps)" if "wfValues q" for q ps
    using that by (induction ps arbitrary: q) (auto simp: wfValues_add split: option.splits)
  moreover have "wfValues []" by (simp add: wfValues_def)
  ultimately show ?thesis unfolding parseQuery_def by blast
qed

lemma map_of_valuesSet: "map_of (valuesSet k v q) = (map_of q)(k \<mapsto> [v])"
  by (simp add: valuesSet_def AList.update_conv')

end
