(* ===== verification/Tracker.thy ===== *)
theory Tracker
  imports UrlQuery Metainfo Actions
begin

text \<open>
  \<open>internal/tracker/announce.go\<close>: announcing to HTTP and UDP trackers. The network is a record of operations
  on a state \<open>'s\<close>: parsing a URL, one HTTP request, dialling a UDP address and reading random bytes. A UDP
  connection has the datagrams that will arrive and what its writes will do; deadlines are outcomes of
  reads.
\<close>

section \<open>Data\<close>

definition defaultResponseLimit :: int where "defaultResponseLimit = push_bit 20 4"

definition udpProtocolID :: "64 word" where "udpProtocolID = 0x41727101980"

definition maxIntervalSeconds :: int where "maxIntervalSeconds = 7 * 24 * 60 * 60"

record AnnounceResponse =
  Interval :: int
  Peers :: "PeerAddress list"
  Seeders :: int
  Leechers :: int

record AnnounceOptions =
  AnnouncePort :: "16 word"
  Uploaded :: int
  Downloaded :: int
  Left :: int
  AnnounceEvent :: bytes
  NumWant :: int

datatype trackerError =
    MetaNilTracker
  | NoTrackerURLs
  | NegativeByteCount
  | InvalidEvent bytes
  | URLError
  | UnsupportedScheme bytes
  | NetworkError
  | HTTPStatus int
  | ResponseTooLong int
  | ParseResponse bencodeError
  | ResponseErr bencodeError
  | InvalidFailureReason
  | TrackerFailure bytes
  | MissingInterval
  | InvalidInterval
  | InvalidComplete
  | InvalidIncomplete
  | Peers6Err bencodeError
  | PeersNeither
  | PeerErr nat bencodeError
  | PeerMissing nat
  | PeerIPErr nat bencodeError
  | PeerInvalidIP nat bytes
  | PeerInvalidPort nat
  | InvalidCompact4
  | InvalidCompact6
  | UDPNoHost
  | UDPTooShort
  | UDPTransactionMismatch
  | UDPFailure bytes
  | UDPAction "32 word" "32 word"
  | UDPInvalidInterval
  | UDPShortWrite
  | AllTrackersFailed "(bytes \<times> trackerError) list"

section \<open>Peer lists\<close>

text \<open>The loops of \<open>parseCompactPeers\<close> and \<open>parseCompactPeers6\<close>, on the bytes that are left.\<close>

function compactLoop :: "nat \<Rightarrow> bytes \<Rightarrow> PeerAddress list" where
  "compactLoop n d =
     (if d = [] then []
      else let ip = take n d; port = Uint16 (drop n d); rest = compactLoop n (drop (n + 2) d) in
        if port \<noteq> 0 then \<lparr>IP = ip, Port = port\<rparr> # rest else rest)"
  by pat_completeness auto
termination by (relation "measure (\<lambda>(n, d). length d)") auto

declare compactLoop.simps [simp del]

definition parseCompactPeers :: "bytes \<Rightarrow> trackerError + PeerAddress list" where
  "parseCompactPeers d = (if length d mod 6 \<noteq> 0 then Inl InvalidCompact4 else Inr (compactLoop 4 d))"

definition parseCompactPeers6 :: "bytes \<Rightarrow> trackerError + PeerAddress list" where
  "parseCompactPeers6 d = (if length d mod 18 \<noteq> 0 then Inl InvalidCompact6 else Inr (compactLoop 16 d))"

definition parsePeer :: "nat \<Rightarrow> bvalue \<Rightarrow> trackerError + PeerAddress" where
  "parsePeer i item =
     andThen (wrapErr (PeerErr i) (AsDict item)) (\<lambda>dict.
       case (dictGet dict (str ''ip''), dictGet dict (str ''port'')) of
         (Some ipValue, Some portValue) \<Rightarrow>
           andThen (wrapErr (PeerIPErr i) (AsString ipValue)) (\<lambda>ipText.
             case goParseIP ipText of
               None \<Rightarrow> Inl (PeerInvalidIP i ipText)
             | Some ip \<Rightarrow>
                 (case AsInt portValue of
                    Inl e \<Rightarrow> Inl (PeerInvalidPort i)
                  | Inr port \<Rightarrow>
                      if port \<le> 0 \<or> port > 65535 then Inl (PeerInvalidPort i)
                      else Inr \<lparr>IP = ip, Port = of_int port\<rparr>))
       | _ \<Rightarrow> Inl (PeerMissing i))"

fun parsePeerLoop :: "nat \<Rightarrow> bvalue list \<Rightarrow> trackerError + PeerAddress list" where
  "parsePeerLoop i [] = Inr []"
| "parsePeerLoop i (item # items) =
     andThen (parsePeer i item) (\<lambda>p. andThen (parsePeerLoop (Suc i) items) (\<lambda>ps. Inr (p # ps)))"

definition parsePeersValue :: "bvalue \<Rightarrow> trackerError + PeerAddress list" where
  "parsePeersValue value =
     (case AsBytes value of
        Inr compact \<Rightarrow> parseCompactPeers compact
      | Inl _ \<Rightarrow>
          (case AsList value of Inl _ \<Rightarrow> Inl PeersNeither | Inr list \<Rightarrow> parsePeerLoop 0 list))"

fun uniqueLoop :: "bytes set \<Rightarrow> PeerAddress list \<Rightarrow> PeerAddress list" where
  "uniqueLoop seen [] = []"
| "uniqueLoop seen (p # ps) =
     (let key = addressString p in
      if key \<in> seen then uniqueLoop seen ps else p # uniqueLoop (insert key seen) ps)"

definition uniquePeers :: "PeerAddress list \<Rightarrow> PeerAddress list" where
  "uniquePeers peers = uniqueLoop {} peers"

section \<open>HTTP\<close>

text \<open>An optional count: \<open>complete\<close> and \<open>incomplete\<close>.\<close>

definition countOf :: "bdict \<Rightarrow> bytes \<Rightarrow> trackerError \<Rightarrow> trackerError + int" where
  "countOf dict key e =
     (case dictGet dict key of
        None \<Rightarrow> Inr 0
      | Some v \<Rightarrow> (case AsInt v of Inl _ \<Rightarrow> Inl e | Inr n \<Rightarrow> if n < 0 then Inl e else Inr n))"

definition parseAnnounceResponse :: "bytes \<Rightarrow> trackerError + AnnounceResponse" where
  "parseAnnounceResponse d =
     andThen (wrapErr ParseResponse (Parse (NewParser d))) (\<lambda>(root, _).
     andThen (wrapErr ResponseErr (AsDict root)) (\<lambda>dict.
       case dictGet dict (str ''failure reason'') of
         Some failureValue \<Rightarrow>
           (case AsString failureValue of
              Inl _ \<Rightarrow> Inl InvalidFailureReason | Inr reason \<Rightarrow> Inl (TrackerFailure reason))
       | None \<Rightarrow>
      (case dictGet dict (str ''interval'') of
         None \<Rightarrow> Inl MissingInterval
       | Some intervalValue \<Rightarrow>
      (case AsInt intervalValue of
         Inl _ \<Rightarrow> Inl InvalidInterval
       | Inr interval \<Rightarrow>
         if interval \<le> 0 \<or> interval > maxIntervalSeconds then Inl InvalidInterval
         else
     andThen (countOf dict (str ''complete'') InvalidComplete) (\<lambda>seeders.
     andThen (countOf dict (str ''incomplete'') InvalidIncomplete) (\<lambda>leechers.
     andThen (case dictGet dict (str ''peers'') of None \<Rightarrow> Inr [] | Some v \<Rightarrow> parsePeersValue v) (\<lambda>peers.
     andThen (case dictGet dict (str ''peers6'') of
         None \<Rightarrow> Inr []
       | Some v \<Rightarrow> andThen (wrapErr Peers6Err (AsBytes v)) parseCompactPeers6) (\<lambda>peers6.
       Inr \<lparr>Interval = interval, Peers = uniquePeers (peers @ peers6), Seeders = seeders, Leechers = leechers\<rparr>))))))))"

record url =
  Scheme :: bytes
  Host :: bytes
  urlRest :: bytes
  RawQuery :: bytes

record httpResponse =
  StatusCode :: int
  Body :: bytes
  BodyFails :: bool

record udpConn =
  RemoteIP :: "bytes option"
  deadlineFails :: bool
  datagrams :: "(trackerError + bytes) list"
  udpWrites :: "(nat \<times> bool) list"
  udpSent :: "bytes list"

record 's network =
  parseURL :: "bytes \<Rightarrow> trackerError + url"
  httpDo :: "url \<Rightarrow> ('s, trackerError, httpResponse) act"
  dialUDP :: "bytes \<Rightarrow> ('s, trackerError, udpConn) act"
  randRead :: "nat \<Rightarrow> ('s, trackerError, bytes) act"

record trackerClient =
  Timeout :: int
  ResponseLimit :: int

definition NewTrackerClient :: trackerClient where
  "NewTrackerClient = \<lparr>Timeout = 15 * 10 ^ 9, ResponseLimit = defaultResponseLimit\<rparr>"

definition announceQuery :: "url \<Rightarrow> TorrentMeta \<Rightarrow> bytes \<Rightarrow> AnnounceOptions \<Rightarrow> urlValues" where
  "announceQuery baseURL meta peerID opts =
     (let q0 = parseQuery (RawQuery baseURL);
          q1 = valuesSet (str ''info_hash'') (InfoHash meta) q0;
          q2 = valuesSet (str ''peer_id'') peerID q1;
          q3 = valuesSet (str ''port'') (FormatInt (uint (AnnouncePort opts))) q2;
          q4 = valuesSet (str ''uploaded'') (FormatInt (Uploaded opts)) q3;
          q5 = valuesSet (str ''downloaded'') (FormatInt (Downloaded opts)) q4;
          q6 = valuesSet (str ''left'') (FormatInt (Left opts)) q5;
          q7 = valuesSet (str ''compact'') (str ''1'') q6;
          q8 = (if AnnounceEvent opts \<noteq> [] then valuesSet (str ''event'') (AnnounceEvent opts) q7 else q7)
      in if NumWant opts \<noteq> 0 then valuesSet (str ''numwant'') (FormatInt (NumWant opts)) q8 else q8)"

text \<open>\<open>io.ReadAll(io.LimitReader(body, limit+1))\<close>.\<close>

definition readLimited :: "int \<Rightarrow> httpResponse \<Rightarrow> trackerError + bytes" where
  "readLimited limit response =
     (let n = nat (i64 (limit + 1)) in
      if BodyFails response \<and> length (Body response) < n then Inl NetworkError else Inr (take n (Body response)))"

definition announceHTTP :: "'s network \<Rightarrow> trackerClient \<Rightarrow> url \<Rightarrow> TorrentMeta \<Rightarrow> bytes \<Rightarrow> AnnounceOptions \<Rightarrow>
    ('s, trackerError, AnnounceResponse) act" where
  "announceHTTP net c baseURL meta peerID opts =
     bindA (httpDo net (baseURL\<lparr>RawQuery := Encode (announceQuery baseURL meta peerID opts)\<rparr>)) (\<lambda>response.
       if StatusCode response < 200 \<or> StatusCode response \<ge> 300 then failA (HTTPStatus (StatusCode response))
       else
         let limit = (if ResponseLimit c \<le> 0 then defaultResponseLimit else ResponseLimit c) in
         bindA (liftA (readLimited limit response)) (\<lambda>d.
           if int (length d) > limit then failA (ResponseTooLong limit)
           else liftA (parseAnnounceResponse d)))"

section \<open>UDP\<close>

definition udpEvent :: "bytes \<Rightarrow> 32 word" where
  "udpEvent event =
     (if event = str ''completed'' then 1 else if event = str ''started'' then 2
      else if event = str ''stopped'' then 3 else 0)"

definition writeDatagram :: "bytes \<Rightarrow> (udpConn, trackerError, unit) act" where
  "writeDatagram d c =
     (case udpWrites c of
        [] \<Rightarrow> (Inr (), c\<lparr>udpSent := udpSent c @ [d]\<rparr>)
      | (n, failed) # ws \<Rightarrow>
          (if failed then Inl NetworkError else if n \<noteq> length d then Inl UDPShortWrite else Inr (),
           c\<lparr>udpWrites := ws, udpSent := udpSent c @ (if failed then [] else [take n d])\<rparr>))"

text \<open>A datagram longer than the buffer is cut off; when nothing more arrives the deadline ends the read.\<close>

definition readUDPResponse :: "(udpConn, trackerError, bytes) act" where
  "readUDPResponse c =
     (case datagrams c of
        [] \<Rightarrow> (Inl NetworkError, c)
      | Inl e # ds \<Rightarrow> (Inl e, c\<lparr>datagrams := ds\<rparr>)
      | Inr d # ds \<Rightarrow> (Inr (take (64 * 1024) d), c\<lparr>datagrams := ds\<rparr>))"

definition validateUDPResponse :: "bytes \<Rightarrow> 32 word \<Rightarrow> 32 word \<Rightarrow> nat \<Rightarrow> trackerError + unit" where
  "validateUDPResponse d wantedAction transaction minimumLength =
     (if length d < 8 then Inl UDPTooShort
      else let action = Uint32 (sliceOf d 0 4); responseTransaction = Uint32 (sliceOf d 4 8) in
        if responseTransaction \<noteq> transaction then Inl UDPTransactionMismatch
        else if action = 3 then Inl (UDPFailure (drop 8 d))
        else if action \<noteq> wantedAction then Inl (UDPAction action wantedAction)
        else if length d < minimumLength then Inl UDPTooShort
        else Inr ())"

definition randomUint32 :: "'s network \<Rightarrow> ('s, trackerError, 32 word) act" where
  "randomUint32 net = bindA (randRead net 4) (\<lambda>v. retA (Uint32 v))"

definition connectRequest :: "32 word \<Rightarrow> bytes" where
  "connectRequest transaction = PutUint64 udpProtocolID @ PutUint32 0 @ PutUint32 transaction"

text \<open>The 98 bytes of an announce; bytes 84 to 87, the IP address, stay 0.\<close>

definition announceRequest :: "64 word \<Rightarrow> 32 word \<Rightarrow> 32 word \<Rightarrow> TorrentMeta \<Rightarrow> bytes \<Rightarrow> AnnounceOptions \<Rightarrow> bytes" where
  "announceRequest connectionID transaction key meta peerID opts =
     PutUint64 connectionID @ PutUint32 1 @ PutUint32 transaction @ InfoHash meta @ peerID @
     PutUint64 (of_int (Downloaded opts)) @ PutUint64 (of_int (Left opts)) @ PutUint64 (of_int (Uploaded opts)) @
     PutUint32 (udpEvent (AnnounceEvent opts)) @ replicate 4 0 @ PutUint32 key @
     PutUint32 (of_int (if NumWant opts = 0 then - 1 else NumWant opts)) @ PutUint16 (AnnouncePort opts)"

definition udpResult :: "udpConn \<Rightarrow> bytes \<Rightarrow> trackerError + AnnounceResponse" where
  "udpResult c response =
     andThen (case RemoteIP c of
         Some ip \<Rightarrow> if To4 ip = None then parseCompactPeers6 (drop 20 response) else parseCompactPeers (drop 20 response)
       | None \<Rightarrow> parseCompactPeers (drop 20 response)) (\<lambda>peers.
       let interval = uint (Uint32 (sliceOf response 8 12)) in
       if interval \<le> 0 \<or> interval > maxIntervalSeconds then Inl UDPInvalidInterval
       else Inr \<lparr>Interval = interval, Peers = peers, Seeders = uint (Uint32 (sliceOf response 16 20)),
                 Leechers = uint (Uint32 (sliceOf response 12 16))\<rparr>)"

text \<open>Actions of the network and of one connection.\<close>

definition onNet :: "('s, 'e, 'a) act \<Rightarrow> ('s \<times> udpConn, 'e, 'a) act" where
  "onNet m sc = (case sc of (s, c) \<Rightarrow> (case m s of (r, s') \<Rightarrow> (r, s', c)))"

definition onConn :: "(udpConn, 'e, 'a) act \<Rightarrow> ('s \<times> udpConn, 'e, 'a) act" where
  "onConn m sc = (case sc of (s, c) \<Rightarrow> (case m c of (r, c') \<Rightarrow> (r, s, c')))"

definition udpExchange :: "'s network \<Rightarrow> TorrentMeta \<Rightarrow> bytes \<Rightarrow> AnnounceOptions \<Rightarrow>
    ('s \<times> udpConn, trackerError, AnnounceResponse) act" where
  "udpExchange net meta peerID opts =
     bindA (\<lambda>(s, c). (if deadlineFails c then Inl NetworkError else Inr (), s, c)) (\<lambda>_.
     bindA (onNet (randomUint32 net)) (\<lambda>connectTransaction.
     seqA (onConn (writeDatagram (connectRequest connectTransaction)))
    (bindA (onConn readUDPResponse) (\<lambda>connectResponse.
     seqA (liftA (validateUDPResponse connectResponse 0 connectTransaction 16))
     (let connectionID = Uint64 (sliceOf connectResponse 8 16) in
     bindA (onNet (randomUint32 net)) (\<lambda>announceTransaction.
     bindA (onNet (randomUint32 net)) (\<lambda>key.
     seqA (onConn (writeDatagram (announceRequest connectionID announceTransaction key meta peerID opts)))
    (bindA (onConn readUDPResponse) (\<lambda>announceResponse.
     seqA (liftA (validateUDPResponse announceResponse 1 announceTransaction 20))
       (\<lambda>(s, c). (udpResult c announceResponse, s, c)))))))))))"

definition announceUDP :: "'s network \<Rightarrow> url \<Rightarrow> TorrentMeta \<Rightarrow> bytes \<Rightarrow> AnnounceOptions \<Rightarrow>
    ('s, trackerError, AnnounceResponse) act" where
  "announceUDP net trackerURL meta peerID opts =
     (if Host trackerURL = [] then failA UDPNoHost
      else bindA (dialUDP net (Host trackerURL)) (\<lambda>c s.
        case udpExchange net meta peerID opts (s, c) of (r, s', c') \<Rightarrow> (r, s')))"

section \<open>Announcing\<close>

definition AnnounceURL :: "unicode \<Rightarrow> 's network \<Rightarrow> trackerClient \<Rightarrow> bytes \<Rightarrow> TorrentMeta \<Rightarrow> bytes \<Rightarrow> AnnounceOptions \<Rightarrow>
    ('s, trackerError, AnnounceResponse) act" where
  "AnnounceURL u net c trackerURL meta peerID opts =
     (if Uploaded opts < 0 \<or> Downloaded opts < 0 \<or> Left opts < 0 then failA NegativeByteCount
      else if AnnounceEvent opts \<notin> {[], str ''started'', str ''completed'', str ''stopped''}
        then failA (InvalidEvent (AnnounceEvent opts))
      else bindA (liftA (parseURL net trackerURL)) (\<lambda>parsedURL.
        let scheme = ToLower u (Scheme parsedURL) in
        if scheme = str ''http'' \<or> scheme = str ''https'' then announceHTTP net c parsedURL meta peerID opts
        else if scheme = str ''udp'' then announceUDP net parsedURL meta peerID opts
        else failA (UnsupportedScheme (Scheme parsedURL))))"

text \<open>The loop of \<open>AnnounceFirst\<close> over the URLs, with any way to announce to one of them.\<close>

fun announceLoop :: "(bytes \<Rightarrow> ('s, trackerError, AnnounceResponse) act) \<Rightarrow> bytes \<Rightarrow> (bytes \<times> trackerError) list \<Rightarrow>
    AnnounceResponse option \<Rightarrow> bytes list \<Rightarrow> ('s, trackerError, AnnounceResponse) act" where
  "announceLoop announce event errs firstSuccessful [] =
     (case firstSuccessful of Some r \<Rightarrow> retA r | None \<Rightarrow> failA (AllTrackersFailed errs))"
| "announceLoop announce event errs firstSuccessful (trackerURL # urls) =
     catchA (announce trackerURL) (\<lambda>result.
       case result of
         Inr response \<Rightarrow>
           if Peers response \<noteq> [] \<or> event = str ''completed'' \<or> event = str ''stopped'' then retA response
           else announceLoop announce event errs
             (case firstSuccessful of None \<Rightarrow> Some response | Some r \<Rightarrow> Some r) urls
       | Inl e \<Rightarrow> announceLoop announce event (errs @ [(trackerURL, e)]) firstSuccessful urls)"

definition AnnounceFirst :: "unicode \<Rightarrow> 's network \<Rightarrow> trackerClient \<Rightarrow> TorrentMeta option \<Rightarrow> bytes \<Rightarrow> AnnounceOptions \<Rightarrow>
    ('s, trackerError, AnnounceResponse) act" where
  "AnnounceFirst u net c metaPtr peerID opts =
     (case metaPtr of
        None \<Rightarrow> failA MetaNilTracker
      | Some meta \<Rightarrow>
          let urls = TrackerURLs meta in
          if urls = [] then failA NoTrackerURLs
          else announceLoop (\<lambda>trackerURL. AnnounceURL u net c trackerURL meta peerID opts) (AnnounceEvent opts) [] None urls)"

definition AnnounceTo :: "unicode \<Rightarrow> 's network \<Rightarrow> TorrentMeta option \<Rightarrow> bytes \<Rightarrow> 16 word \<Rightarrow>
    ('s, trackerError, AnnounceResponse) act" where
  "AnnounceTo u net metaPtr peerID port =
     (case metaPtr of
        None \<Rightarrow> failA MetaNilTracker
      | Some meta \<Rightarrow>
          AnnounceFirst u net NewTrackerClient (Some meta) peerID
            \<lparr>AnnouncePort = port, Uploaded = 0, Downloaded = 0, Left = Length meta,
             AnnounceEvent = str ''started'', NumWant = - 1\<rparr>)"

end
