(* ===== verification/TrackerSpec.thy ===== *)
theory TrackerSpec
  imports Tracker Codec BencodeSpec MetainfoSpec FileStoreOpen
begin

text \<open>
  What the tracker client promises. A compact peer entry is an instance of the \<open>codec\<close> contract
  (interpretation \<open>compact\<close>), from which the compact lists are decoded exactly; a peer list of a response has
  no two addresses that print alike; the parameters that an HTTP tracker reads from the query are those that
  were meant, and its bencoded reply is understood; a UDP exchange sends two requests and believes only
  datagrams that carry their transactions; the trackers are tried in order.
\<close>

section \<open>Compact peer entries\<close>

definition wireEntry :: "PeerAddress \<Rightarrow> bytes" where
  "wireEntry p = IP p @ PutUint16 (Port p)"

definition compactEntry :: "nat \<Rightarrow> bytes \<Rightarrow> unit + (PeerAddress \<times> bytes)" where
  "compactEntry n d =
     (if length d < n + 2 then Inl () else Inr (\<lparr>IP = take n d, Port = Uint16 (drop n d)\<rparr>, drop (n + 2) d))"

lemma Uint16_take: "2 \<le> length b \<Longrightarrow> Uint16 b = Uint16 (take 2 b)"
  by (simp add: Uint16_def)

lemma wireEntry_read: "n + 2 \<le> length d \<Longrightarrow> wireEntry \<lparr>IP = take n d, Port = Uint16 (drop n d)\<rparr> = take (n + 2) d"
proof -
  assume n: "n + 2 \<le> length d"
  have "PutUint16 (Uint16 (drop n d)) = take 2 (drop n d)"
    using PutUint16_Uint16 [of "take 2 (drop n d)"] Uint16_take [of "drop n d"] n by simp
  then show ?thesis unfolding wireEntry_def by (simp only: take_add PeerAddress.simps)
qed

interpretation compact: codec wireEntry "compactEntry n" "\<lambda>p. length (IP p) = n" for n
proof
  show "compactEntry n (wireEntry a @ rest) = Inr (a, rest)" if "length (IP a) = n" for a rest
    using that by (auto simp: compactEntry_def wireEntry_def be_simps)
  show "length (IP a) = n \<and> d = wireEntry a @ rest" if "compactEntry n d = Inr (a, rest)" for d a rest
    using that wireEntry_read [of n d] by (auto simp: compactEntry_def split: if_splits)
qed

lemma PutUint16_ne: "PutUint16 w \<noteq> []"
  by (simp add: PutUint16_def)

lemma compactLoop_entry:
  "length (IP a) = n \<Longrightarrow> compactLoop n (wireEntry a @ rest) = (if Port a \<noteq> 0 then [a] else []) @ compactLoop n rest"
  by (subst compactLoop.simps) (auto simp: wireEntry_def be_simps Let_def PutUint16_ne)

lemma compactLoop_entries:
  "\<forall>a\<in>set as. length (IP a) = n \<Longrightarrow> compactLoop n (concat (map wireEntry as)) = filter (\<lambda>p. Port p \<noteq> 0) as"
proof (induction as)
  case Nil
  show ?case by (subst compactLoop.simps) simp
qed (simp add: compactLoop_entry)

lemma length_wireEntries:
  "\<forall>a\<in>set as. length (IP a) = n \<Longrightarrow> length (concat (map wireEntry as)) = (n + 2) * length as"
  by (induction as) (simp_all add: wireEntry_def)

lemma entries_total:
  "length d = k * (n + 2) \<Longrightarrow> \<exists>as. (\<forall>a\<in>set as. length (IP a) = n) \<and> d = concat (map wireEntry as)"
proof (induction k arbitrary: d)
  case (Suc k)
  then have "n + 2 \<le> length d" "length (drop (n + 2) d) = k * (n + 2)" by simp_all
  with Suc.IH obtain as where as: "\<forall>a\<in>set as. length (IP a) = n" "drop (n + 2) d = concat (map wireEntry as)" by blast
  let ?a = "\<lparr>IP = take n d, Port = Uint16 (drop n d)\<rparr>"
  have "d = wireEntry ?a @ drop (n + 2) d" using wireEntry_read [OF \<open>n + 2 \<le> length d\<close>] by simp
  then have "d = concat (map wireEntry (?a # as))" using as(2) by simp
  moreover have "\<forall>a\<in>set (?a # as). length (IP a) = n" using as(1) \<open>n + 2 \<le> length d\<close> by simp
  ultimately show ?case by blast
next
  case 0
  then show ?case by (auto intro: exI [of _ "[]"])
qed

text \<open>The entries of a list of either kind.\<close>

lemma compact_decoded:
  assumes "length d mod (n + 2) = 0"
  shows "\<exists>as. (\<forall>a\<in>set as. length (IP a) = n) \<and> d = concat (map wireEntry as) \<and>
    compactLoop n d = filter (\<lambda>p. Port p \<noteq> 0) as"
proof -
  have "length d = length d div (n + 2) * (n + 2)" using assms div_mult_mod_eq [of "length d" "n + 2"] by simp
  with entries_total compactLoop_entries show ?thesis by metis
qed

lemma parseCompact_decoded:
  "parseCompactPeers d = Inr ps \<Longrightarrow> \<exists>as. (\<forall>a\<in>set as. length (IP a) = 4) \<and> d = concat (map wireEntry as) \<and>
     ps = filter (\<lambda>p. Port p \<noteq> 0) as"
  "parseCompactPeers6 d = Inr ps \<Longrightarrow> \<exists>as. (\<forall>a\<in>set as. length (IP a) = 16) \<and> d = concat (map wireEntry as) \<and>
     ps = filter (\<lambda>p. Port p \<noteq> 0) as"
  using compact_decoded [of d 4] compact_decoded [of d 16]
  by (auto simp: parseCompactPeers_def parseCompactPeers6_def split: if_splits)

section \<open>Peer lists of a response\<close>

definition goodPeer :: "PeerAddress \<Rightarrow> bool" where
  "goodPeer p \<longleftrightarrow> Port p \<noteq> 0 \<and> length (IP p) \<in> {4, 16}"

lemma good_compact: "parseCompactPeers d = Inr ps \<Longrightarrow> \<forall>p\<in>set ps. goodPeer p"
    "parseCompactPeers6 d = Inr ps \<Longrightarrow> \<forall>p\<in>set ps. goodPeer p"
  by (auto simp: goodPeer_def dest!: parseCompact_decoded)

lemma good_parsePeer: "parsePeer i item = Inr p \<Longrightarrow> goodPeer p"
proof -
  assume run: "parsePeer i item = Inr p"
  then obtain dict where dict: "AsDict item = Inr dict" by (auto simp: parsePeer_def)
  obtain v1 v2 where v: "dictGet dict (str ''ip'') = Some v1" "dictGet dict (str ''port'') = Some v2"
    using run by (auto simp: parsePeer_def dict split: option.splits)
  obtain ipText where ipText: "AsString v1 = Inr ipText" using run v by (auto simp: parsePeer_def dict)
  obtain ip where ip: "goParseIP ipText = Some ip"
    using run v ipText by (cases "goParseIP ipText") (simp_all add: parsePeer_def dict)
  obtain port where port: "AsInt v2 = Inr port"
    using run v ipText ip by (cases "AsInt v2") (simp_all add: parsePeer_def dict)
  have "length ip = 16" "0 < port" "port \<le> 65535" "p = \<lparr>IP = ip, Port = of_int port\<rparr>"
    using run v ipText ip port goParseIP_length [OF ip] by (simp_all add: parsePeer_def dict del: As_Inr_iff split: if_splits)
  then show ?thesis by (auto simp: goodPeer_def word_of_int_eq_0_iff dest!: zdvd_imp_le)
qed

lemma good_parsePeerLoop: "parsePeerLoop i items = Inr ps \<Longrightarrow> \<forall>p\<in>set ps. goodPeer p"
  by (induction i items arbitrary: ps rule: parsePeerLoop.induct) (auto dest: good_parsePeer)

lemma good_parsePeersValue: "parsePeersValue v = Inr ps \<Longrightarrow> \<forall>p\<in>set ps. goodPeer p"
  by (auto simp: parsePeersValue_def split: sum.splits dest: good_compact good_parsePeerLoop)

lemma uniqueLoop_distinct:
  "distinct (map addressString (uniqueLoop seen ps)) \<and> addressString ` set (uniqueLoop seen ps) = addressString ` set ps - seen \<and>
     set (uniqueLoop seen ps) \<subseteq> set ps"
  by (induction seen ps rule: uniqueLoop.induct) (auto simp: Let_def)

lemma uniqueLoop_id: "distinct (map addressString ps) \<Longrightarrow> addressString ` set ps \<inter> seen = {} \<Longrightarrow> uniqueLoop seen ps = ps"
  by (induction seen ps rule: uniqueLoop.induct) (auto simp: Let_def)

lemmas uniquePeers_facts = uniqueLoop_distinct [where seen = "{}", folded uniquePeers_def, simplified]

lemma countOf_nonneg: "countOf dict k e = Inr n \<Longrightarrow> 0 \<le> n"
  by (auto simp: countOf_def split: option.splits sum.splits if_splits)

lemma parseAnnounceResponse_parts:
  assumes "parseAnnounceResponse d = Inr r"
  shows "\<exists>peers peers6. Peers r = uniquePeers (peers @ peers6) \<and> (\<forall>p\<in>set peers. goodPeer p) \<and> (\<forall>p\<in>set peers6. goodPeer p) \<and>
    0 < Interval r \<and> Interval r \<le> maxIntervalSeconds \<and> 0 \<le> Seeders r \<and> 0 \<le> Leechers r"
proof -
  note [simp del] = As_Inr_iff
  note run = assms [unfolded parseAnnounceResponse_def]
  obtain root p' dict where root: "Parse (NewParser d) = Inr (root, p')" "AsDict root = Inr dict" using run by auto
  have "dictGet dict (str ''failure reason'') = None"
  proof (cases "dictGet dict (str ''failure reason'')")
    case (Some v)
    then show ?thesis using run root by (cases "AsString v") simp_all
  qed
  note root = root this
  obtain vt where vt: "dictGet dict (str ''interval'') = Some vt"
    using run root by (cases "dictGet dict (str ''interval'')") simp_all
  obtain interval where interval: "AsInt vt = Inr interval" using run root vt by (cases "AsInt vt") simp_all
  have bounds: "0 < interval" "interval \<le> maxIntervalSeconds" using run root vt interval by (simp_all split: if_splits)
  obtain seeders leechers peers peers6 where
    counts: "countOf dict (str ''complete'') InvalidComplete = Inr seeders"
      "countOf dict (str ''incomplete'') InvalidIncomplete = Inr leechers"
    and peers: "(case dictGet dict (str ''peers'') of None \<Rightarrow> Inr [] | Some v \<Rightarrow> parsePeersValue v) = Inr peers"
    and peers6: "(case dictGet dict (str ''peers6'') of None \<Rightarrow> Inr []
      | Some v \<Rightarrow> andThen (wrapErr Peers6Err (AsBytes v)) parseCompactPeers6) = Inr peers6"
    and r: "r = \<lparr>Interval = interval, Peers = uniquePeers (peers @ peers6), Seeders = seeders, Leechers = leechers\<rparr>"
    using run root vt interval bounds by auto
  have "\<forall>p\<in>set peers. goodPeer p" using peers good_parsePeersValue by (auto split: option.splits)
  moreover have "\<forall>p\<in>set peers6. goodPeer p" using peers6 good_compact(2) by (auto split: option.splits)
  ultimately show ?thesis using bounds countOf_nonneg [OF counts(1)] countOf_nonneg [OF counts(2)] unfolding r
    by (intro exI [of _ peers] exI [of _ peers6]) simp
qed

section \<open>Replies\<close>

text \<open>What an HTTP tracker answers, with the peers in compact form.\<close>

definition trackerReply :: "int \<Rightarrow> int \<Rightarrow> int \<Rightarrow> PeerAddress list \<Rightarrow> btree" where
  "trackerReply interval seeders leechers peers =
     TDict [(str ''complete'', TInt seeders), (str ''incomplete'', TInt leechers),
       (str ''interval'', TInt interval), (str ''peers'', TString (concat (map wireEntry peers)))]"

lemma absV_eq:
  "absV v = TInt n \<longleftrightarrow> Value v = BInt n" "absV v = TString s \<longleftrightarrow> Value v = BString s"
  by (cases v; cases "Value v"; auto)+

lemma AsBytes_Value: "Value v = BString s \<Longrightarrow> AsBytes v = Inr s"
  by (cases v) simp

lemma trackerReply_canonical:
  assumes "isInt64 interval" "isInt64 seeders" "isInt64 leechers" "6 * length peers \<le> 1048576"
    "\<forall>p\<in>set peers. length (IP p) = 4"
  shows "canonical DefaultMaxStringLength DefaultMaxDepth (trackerReply interval seeders leechers peers) 0"
  using assms(1-4) length_wireEntries [OF assms(5)]
  by (simp add: trackerReply_def okString_def DefaultMaxStringLength_def DefaultMaxDepth_def MaxInt64_def)

lemma trackerReply_parsed:
  assumes "absV v = trackerReply interval seeders leechers peers"
  shows "\<exists>d vc vi vt vp. AsDict v = Inr d \<and> dictGet d (str ''failure reason'') = None \<and> dictGet d (str ''peers6'') = None \<and>
    dictGet d (str ''complete'') = Some vc \<and> AsInt vc = Inr seeders \<and>
    dictGet d (str ''incomplete'') = Some vi \<and> AsInt vi = Inr leechers \<and>
    dictGet d (str ''interval'') = Some vt \<and> AsInt vt = Inr interval \<and>
    dictGet d (str ''peers'') = Some vp \<and> AsBytes vp = Inr (concat (map wireEntry peers))"
proof -
  obtain d s e where v: "v = BValue (BDict d) s e" using assms
    by (cases v; cases "Value v") (auto simp: trackerReply_def)
  then have "map absEntry d = [(str ''complete'', TInt seeders), (str ''incomplete'', TInt leechers),
      (str ''interval'', TInt interval), (str ''peers'', TString (concat (map wireEntry peers)))]"
    using assms by (simp add: trackerReply_def)
  then obtain vc vi vt vp where "d = [(str ''complete'', vc), (str ''incomplete'', vi), (str ''interval'', vt), (str ''peers'', vp)]"
    "absV vc = TInt seeders" "absV vi = TInt leechers" "absV vt = TInt interval"
    "absV vp = TString (concat (map wireEntry peers))"
    by (auto simp: map_eq_Cons_conv absEntry_def)
  then show ?thesis unfolding v by (simp add: dictGet_def absV_eq AsBytes_Value)
qed

lemma parse_trackerReply:
  assumes "0 < interval" "interval \<le> maxIntervalSeconds" "0 \<le> seeders" "seeders \<le> MaxInt64" "0 \<le> leechers" "leechers \<le> MaxInt64"
    and peers: "\<forall>p\<in>set peers. length (IP p) = 4 \<and> Port p \<noteq> 0" "distinct peers" "6 * length peers \<le> 1048576"
  shows "parseAnnounceResponse (encode (trackerReply interval seeders leechers peers)) =
    Inr \<lparr>Interval = interval, Peers = peers, Seeders = seeders, Leechers = leechers\<rparr>"
proof -
  have "isInt64 interval" "isInt64 seeders" "isInt64 leechers" using assms(1-6)
    by (simp_all add: isInt64_def MinInt64_def MaxInt64_def maxIntervalSeconds_def)
  then obtain v p' where v: "Parse (NewParser (encode (trackerReply interval seeders leechers peers))) = Inr (v, p')"
    "absV v = trackerReply interval seeders leechers peers"
    using Parse_NewParser_complete [OF trackerReply_canonical] peers by blast
  have len: "length (concat (map wireEntry peers)) = 6 * length peers"
    using length_wireEntries [of peers 4] peers(1) by simp
  have "inj_on addressString (set peers)" using addressString_inj peers(1) by (metis inj_onI)
  then have "uniquePeers peers = peers" using peers(2)
    by (simp add: uniquePeers_def uniqueLoop_id distinct_map)
  moreover have "parseCompactPeers (concat (map wireEntry peers)) = Inr peers"
    using compactLoop_entries [of peers 4] peers(1) len by (simp add: parseCompactPeers_def)
  ultimately show ?thesis using trackerReply_parsed [OF v(2)] v(1) assms(1-6)
    by (auto simp: parseAnnounceResponse_def countOf_def parsePeersValue_def simp del: As_Inr_iff)
qed

section \<open>The query\<close>

lemma wfValues_announceQuery: "wfValues (announceQuery baseURL meta peerID opts)"
  by (simp add: announceQuery_def Let_def wfValues_set wfValues_parseQuery)

lemma map_of_announceQuery:
  "map_of (announceQuery baseURL meta peerID opts) =
     (let m = (map_of (parseQuery (RawQuery baseURL)))(str ''info_hash'' \<mapsto> [InfoHash meta],
        str ''peer_id'' \<mapsto> [peerID], str ''port'' \<mapsto> [FormatInt (uint (AnnouncePort opts))],
        str ''uploaded'' \<mapsto> [FormatInt (Uploaded opts)], str ''downloaded'' \<mapsto> [FormatInt (Downloaded opts)],
        str ''left'' \<mapsto> [FormatInt (Left opts)], str ''compact'' \<mapsto> [str ''1'']);
      m' = (if AnnounceEvent opts = [] then m else m(str ''event'' \<mapsto> [AnnounceEvent opts]))
      in if NumWant opts = 0 then m' else m'(str ''numwant'' \<mapsto> [FormatInt (NumWant opts)]))"
  by (simp add: announceQuery_def Let_def map_of_valuesSet)

lemma announceQuery_read:
  "map_of (parseQuery (Encode (announceQuery baseURL meta peerID opts))) = map_of (announceQuery baseURL meta peerID opts)"
  using parseQuery_Encode [of "announceQuery baseURL meta peerID opts"]
    wfValues_announceQuery [of baseURL meta peerID opts]
  by (intro ext) (auto simp: wfValues_def)

lemma readLimited_whole:
  assumes "\<not> BodyFails response" "0 < limit" "limit < MaxInt64" "int (length (Body response)) \<le> limit"
  shows "readLimited limit response = Inr (Body response)"
  using assms by (simp add: readLimited_def i64_nonneg_id)

section \<open>Datagrams\<close>

lemma sliceOf_take: "j \<le> n \<Longrightarrow> sliceOf (take n d) i j = sliceOf d i j"
  by (simp add: sliceOf_def drop_take min_def)

lemma PutUint32_slice: "i + 4 \<le> length d \<Longrightarrow> PutUint32 (Uint32 (sliceOf d i (i + 4))) = sliceOf d i (i + 4)"
  by (simp add: PutUint32_Uint32 length_sliceOf)

text \<open>A response that was accepted starts with its action and its transaction.\<close>

lemma validateUDPResponse_accepts:
  assumes "validateUDPResponse d action transaction n = Inr ()"
  shows "take 8 d = PutUint32 action @ PutUint32 transaction \<and> n \<le> length d"
proof -
  have d: "8 \<le> length d" "Uint32 (sliceOf d 0 4) = action" "Uint32 (sliceOf d 4 8) = transaction" "n \<le> length d"
    using assms by (auto simp: validateUDPResponse_def Let_def split: if_splits)
  then have "sliceOf d 0 4 = PutUint32 action" "sliceOf d 4 8 = PutUint32 transaction"
    using PutUint32_slice [of 0 d] PutUint32_slice [of 4 d] by simp_all
  moreover have "take 8 d = sliceOf d 0 4 @ sliceOf d 4 8"
    using sliceOf_split [of 0 4 8 d] by (simp add: sliceOf_def)
  ultimately show ?thesis using d(4) by simp
qed

lemma PutUint64_Uint64: "length b = 8 \<Longrightarrow> PutUint64 (Uint64 b) = b"
proof -
  assume "length b = 8"
  then obtain a1 a2 a3 a4 a5 a6 a7 a8 where b: "b = [a1, a2, a3, a4, a5, a6, a7, a8]"
    by (auto simp: numeral_eq_Suc length_Suc_conv)
  let ?w = "push_bit 56 (ucast a1) OR push_bit 48 (ucast a2) OR push_bit 40 (ucast a3) OR push_bit 32 (ucast a4) OR
    push_bit 24 (ucast a5) OR push_bit 16 (ucast a6) OR push_bit 8 (ucast a7) OR ucast a8 :: 64 word"
  have "ucast (drop_bit 56 ?w) = a1" "ucast (drop_bit 48 ?w) = a2" "ucast (drop_bit 40 ?w) = a3"
    "ucast (drop_bit 32 ?w) = a4" "ucast (drop_bit 24 ?w) = a5" "ucast (drop_bit 16 ?w) = a6"
    "ucast (drop_bit 8 ?w) = a7" "ucast ?w = a8"
    by (rule bit_word_eqI; auto simp: bit_simps dest: bit_imp_le_length)+
  then show ?thesis by (simp add: b Uint64_def PutUint64_def)
qed

text \<open>What a UDP tracker answers.\<close>

definition connectReply :: "32 word \<Rightarrow> 64 word \<Rightarrow> bytes" where
  "connectReply transaction connectionID = PutUint32 0 @ PutUint32 transaction @ PutUint64 connectionID"

definition announceReply :: "32 word \<Rightarrow> AnnounceResponse \<Rightarrow> PeerAddress list \<Rightarrow> bytes" where
  "announceReply transaction r entries =
     PutUint32 1 @ PutUint32 transaction @ PutUint32 (of_int (Interval r)) @ PutUint32 (of_int (Leechers r)) @
     PutUint32 (of_int (Seeders r)) @ concat (map wireEntry entries)"

lemma uint_pos: "0 < uint w \<longleftrightarrow> uint w \<noteq> 0"
  using uint_ge_0 [of w] by linarith

lemma udpResult_reply:
  assumes "udpResult c d = Inr r" "validateUDPResponse d 1 transaction 20 = Inr ()"
  shows "\<exists>n entries. n \<in> {4, 16} \<and> (n = 16 \<longleftrightarrow> (\<exists>ip. RemoteIP c = Some ip \<and> To4 ip = None)) \<and>
    (\<forall>a\<in>set entries. length (IP a) = n) \<and> Peers r = filter (\<lambda>p. Port p \<noteq> 0) entries \<and>
    d = announceReply transaction r entries \<and> 0 < Interval r \<and> Interval r \<le> maxIntervalSeconds"
proof -
  let ?six = "\<exists>ip. RemoteIP c = Some ip \<and> To4 ip = None"
  have r: "(if ?six then parseCompactPeers6 (drop 20 d) else parseCompactPeers (drop 20 d)) = Inr (Peers r)"
    "Interval r = uint (Uint32 (sliceOf d 8 12))" "Seeders r = uint (Uint32 (sliceOf d 16 20))"
    "Leechers r = uint (Uint32 (sliceOf d 12 16))" "0 < Interval r" "Interval r \<le> maxIntervalSeconds"
    using assms(1) by (auto simp: udpResult_def Let_def uint_pos split: option.splits if_splits)
  let ?n = "if ?six then 16 else 4 :: nat"
  obtain entries where e: "\<forall>a\<in>set entries. length (IP a) = ?n" "drop 20 d = concat (map wireEntry entries)"
    "Peers r = filter (\<lambda>p. Port p \<noteq> 0) entries"
    using r(1) parseCompact_decoded [of "drop 20 d" "Peers r"] by (cases ?six) (simp_all, blast+)
  have v: "take 8 d = PutUint32 1 @ PutUint32 transaction" "20 \<le> length d"
    using validateUDPResponse_accepts [OF assms(2)] by auto
  have "d = take 8 d @ sliceOf d 8 12 @ sliceOf d 12 16 @ sliceOf d 16 20 @ drop 20 d"
  proof -
    have "take 20 d = sliceOf d 0 8 @ sliceOf d 8 12 @ sliceOf d 12 16 @ sliceOf d 16 20"
      using sliceOf_split [of 0 8 20 d] sliceOf_split [of 8 12 20 d] sliceOf_split [of 12 16 20 d] by (simp add: sliceOf_def)
    then show ?thesis by (metis append.assoc append_take_drop_id diff_zero drop0 sliceOf_def)
  qed
  then have "d = announceReply transaction r entries"
    using v e(2) r(2-4) PutUint32_slice [of 8 d] PutUint32_slice [of 12 d] PutUint32_slice [of 16 d]
    by (simp add: announceReply_def)
  moreover have "?n \<in> {4, 16}" "?n = 16 \<longleftrightarrow> ?six" by (cases ?six; simp)+
  ultimately show ?thesis using e(1,3) r(5,6) by blast
qed

lemma writeDatagram_ok: "writeDatagram d c = (Inr (), c') \<Longrightarrow> udpSent c' = udpSent c @ [d] \<and> datagrams c' = datagrams c \<and> RemoteIP c' = RemoteIP c"
  by (auto simp: writeDatagram_def split: list.splits if_splits)

lemma readUDPResponse_ok:
  "readUDPResponse c = (Inr d, c') \<Longrightarrow> \<exists>full. datagrams c = Inr full # datagrams c' \<and> d = take 65536 full \<and>
     udpSent c' = udpSent c \<and> RemoteIP c' = RemoteIP c"
  by (auto simp: readUDPResponse_def split: list.splits sum.splits)

lemma onNet_Inr: "onNet m (s, c) = (Inr x, u) \<longleftrightarrow> (\<exists>s'. m s = (Inr x, s') \<and> u = (s', c))"
  by (auto simp: onNet_def split: prod.splits)

lemma onConn_Inr: "onConn m (s, c) = (Inr x, u) \<longleftrightarrow> (\<exists>c'. m c = (Inr x, c') \<and> u = (s, c'))"
  by (auto simp: onConn_def split: prod.splits)

text \<open>What the two sides have sent after an exchange that succeeded.\<close>

lemma udpExchange_ok:
  assumes "udpExchange net meta peerID opts (s, c) = (Inr r, s', c')"
  shows "\<exists>t1 cid t2 key d1 d2 n entries. udpSent c' = udpSent c @
      [connectRequest t1, announceRequest cid t2 key meta peerID opts] \<and>
    datagrams c = Inr d1 # Inr d2 # datagrams c' \<and>
    (\<exists>rest. take 65536 d1 = connectReply t1 cid @ rest) \<and>
    take 65536 d2 = announceReply t2 r entries \<and>
    n \<in> {4, 16} \<and> (\<forall>a\<in>set entries. length (IP a) = n) \<and> (n = 16 \<longleftrightarrow> (\<exists>ip. RemoteIP c = Some ip \<and> To4 ip = None)) \<and>
    Peers r = filter (\<lambda>p. Port p \<noteq> 0) entries \<and> 0 < Interval r \<and> Interval r \<le> maxIntervalSeconds"
proof -
  obtain t1 t2 key b1 b2 c1 c2 c3 where
    w1: "writeDatagram (connectRequest t1) c = (Inr (), c1)" and r1: "readUDPResponse c1 = (Inr b1, c2)"
    and v1: "validateUDPResponse b1 0 t1 16 = Inr ()"
    and w2: "writeDatagram (announceRequest (Uint64 (sliceOf b1 8 16)) t2 key meta peerID opts) c2 = (Inr (), c3)"
    and r2: "readUDPResponse c3 = (Inr b2, c')" and v2: "validateUDPResponse b2 1 t2 20 = Inr ()"
    and res: "udpResult c' b2 = Inr r"
    using assms unfolding udpExchange_def
    by (auto simp: Let_def onNet_Inr onConn_Inr split: if_splits)
  obtain d1 where d1: "datagrams c1 = Inr d1 # datagrams c2" "b1 = take 65536 d1" "udpSent c2 = udpSent c1" "RemoteIP c2 = RemoteIP c1"
    using readUDPResponse_ok [OF r1] by blast
  obtain d2 where d2: "datagrams c3 = Inr d2 # datagrams c'" "b2 = take 65536 d2" "udpSent c' = udpSent c3" "RemoteIP c' = RemoteIP c3"
    using readUDPResponse_ok [OF r2] by blast
  note k = writeDatagram_ok [OF w1] writeDatagram_ok [OF w2]
  have b1: "take 8 b1 = PutUint32 0 @ PutUint32 t1" "16 \<le> length b1" using validateUDPResponse_accepts [OF v1] by auto
  have "sliceOf b1 0 16 = sliceOf b1 0 8 @ sliceOf b1 8 16" by (rule sliceOf_split) simp_all
  then have "take 16 b1 = take 8 b1 @ sliceOf b1 8 16" by (simp add: sliceOf_def)
  then have "b1 = take 8 b1 @ sliceOf b1 8 16 @ drop 16 b1" by (metis append.assoc append_take_drop_id)
  then have "\<exists>rest. b1 = connectReply t1 (Uint64 (sliceOf b1 8 16)) @ rest"
    using b1 by (auto simp: connectReply_def PutUint64_Uint64 length_sliceOf)
  then obtain rest where first: "take 65536 d1 = connectReply t1 (Uint64 (sliceOf b1 8 16)) @ rest" using d1(2) by auto
  have remote: "RemoteIP c' = RemoteIP c" and sent: "udpSent c' = udpSent c @
      [connectRequest t1, announceRequest (Uint64 (sliceOf b1 8 16)) t2 key meta peerID opts]"
    and got: "datagrams c = Inr d1 # Inr d2 # datagrams c'" using d1 d2 k by simp_all
  obtain n entries where n: "n \<in> {4, 16}" "n = 16 \<longleftrightarrow> (\<exists>ip. RemoteIP c = Some ip \<and> To4 ip = None)"
    "\<forall>a\<in>set entries. length (IP a) = n" "Peers r = filter (\<lambda>p. Port p \<noteq> 0) entries"
    "take 65536 d2 = announceReply t2 r entries" "0 < Interval r" "Interval r \<le> maxIntervalSeconds"
    using udpResult_reply [OF res v2] unfolding remote d2(2) by blast
  show ?thesis
    by (rule exI [of _ t1], rule exI [of _ "Uint64 (sliceOf b1 8 16)"], rule exI [of _ t2], rule exI [of _ key],
        rule exI [of _ d1], rule exI [of _ d2], rule exI [of _ n], rule exI [of _ entries])
      (intro conjI sent got exI [of _ rest] first n)
qed

section \<open>Failover\<close>

text \<open>The trackers that were asked, one after the other, with what each of them answered.\<close>

primrec answersFrom :: "(bytes \<Rightarrow> ('s, 'e, 'a) act) \<Rightarrow> 's \<Rightarrow> (bytes \<times> ('e + 'a)) list \<Rightarrow> 's \<Rightarrow> bool" where
  "answersFrom announce s [] t \<longleftrightarrow> s = t"
| "answersFrom announce s (e # log) t \<longleftrightarrow> (\<exists>u. announce (fst e) s = (snd e, u) \<and> answersFrom announce u log t)"

text \<open>An answer that ends the search.\<close>

definition settles :: "bytes \<Rightarrow> trackerError + AnnounceResponse \<Rightarrow> bool" where
  "settles event result =
     (case result of Inl _ \<Rightarrow> False
      | Inr r \<Rightarrow> Peers r \<noteq> [] \<or> event = str ''completed'' \<or> event = str ''stopped'')"

definition successes :: "(bytes \<times> (trackerError + AnnounceResponse)) list \<Rightarrow> AnnounceResponse list" where
  "successes log = concat (map (\<lambda>e. case snd e of Inl _ \<Rightarrow> [] | Inr r \<Rightarrow> [r]) log)"

definition failures :: "(bytes \<times> (trackerError + AnnounceResponse)) list \<Rightarrow> (bytes \<times> trackerError) list" where
  "failures log = concat (map (\<lambda>e. case snd e of Inl x \<Rightarrow> [(fst e, x)] | Inr _ \<Rightarrow> []) log)"

definition verdict :: "(bytes \<times> trackerError) list \<Rightarrow> AnnounceResponse option \<Rightarrow>
    (bytes \<times> (trackerError + AnnounceResponse)) list \<Rightarrow> trackerError + AnnounceResponse" where
  "verdict errs first log =
     (case first of Some r \<Rightarrow> Inr r
      | None \<Rightarrow> (case successes log of r # _ \<Rightarrow> Inr r | [] \<Rightarrow> Inl (AllTrackersFailed (errs @ failures log))))"

lemma log_simps [simp]:
  "successes [] = []" "successes ((x, Inl e) # log) = successes log" "successes ((x, Inr r) # log) = r # successes log"
  "failures [] = []" "failures ((x, Inl e) # log) = (x, e) # failures log" "failures ((x, Inr r) # log) = failures log"
  by (simp_all add: successes_def failures_def)

lemma announceLoop_asked:
  assumes "announceLoop announce event errs first urls s = (res, t)"
  shows "\<exists>log. answersFrom announce s log t \<and>
    (map fst log = urls \<and> (\<forall>e\<in>set log. \<not> settles event (snd e)) \<and> res = verdict errs first log \<or>
     (\<exists>front last rest. log = front @ [last] \<and> urls = map fst log @ rest \<and> res = snd last \<and>
        (\<forall>e\<in>set front. \<not> settles event (snd e)) \<and> settles event (snd last)))"
  using assms
proof (induction urls arbitrary: errs first s)
  case Nil
  then show ?case
    by (intro exI [of _ "[]"]) (auto simp: verdict_def retA_def failA_def split: option.splits)
next
  case (Cons x urls)
  obtain result u where run: "announce x s = (result, u)" by fastforce
  show ?case
  proof (cases "settles event result")
    case True
    then obtain r where "result = Inr r" "Peers r \<noteq> [] \<or> event = str ''completed'' \<or> event = str ''stopped''"
      by (auto simp: settles_def split: sum.splits)
    then have "res = result" "t = u" using Cons.prems run by (auto simp: catchA_iff)
    then show ?thesis using run True
      by (intro exI [of _ "[(x, result)]"] conjI disjI2 exI [of _ "[]"] exI [of _ "(x, result)"] exI [of _ urls]) simp_all
  next
    case False
    obtain errs' first' where go: "announceLoop announce event errs' first' urls u = (res, t)"
      and v: "\<And>log. verdict errs' first' log = verdict errs first ((x, result) # log)"
    proof (cases result)
      case (Inl e)
      with Cons.prems run have "announceLoop announce event (errs @ [(x, e)]) first urls u = (res, t)" by (simp add: catchA_iff)
      moreover have "verdict (errs @ [(x, e)]) first log = verdict errs first ((x, result) # log)" for log
        by (simp add: verdict_def Inl split: option.splits list.splits)
      ultimately show ?thesis by (rule that)
    next
      case (Inr r)
      with Cons.prems run False
      have "announceLoop announce event errs (case first of None \<Rightarrow> Some r | Some r \<Rightarrow> Some r) urls u = (res, t)"
        by (simp add: catchA_iff settles_def)
      moreover have "verdict errs (case first of None \<Rightarrow> Some r | Some r \<Rightarrow> Some r) log =
          verdict errs first ((x, result) # log)" for log
        by (simp add: verdict_def Inr split: option.splits)
      ultimately show ?thesis by (rule that)
    qed
    from Cons.IH [OF go] obtain log where log: "answersFrom announce u log t"
      "map fst log = urls \<and> (\<forall>e\<in>set log. \<not> settles event (snd e)) \<and> res = verdict errs' first' log \<or>
       (\<exists>front last rest. log = front @ [last] \<and> urls = map fst log @ rest \<and> res = snd last \<and>
          (\<forall>e\<in>set front. \<not> settles event (snd e)) \<and> settles event (snd last))" by blast
    have "answersFrom announce s ((x, result) # log) t" using run log(1) by simp
    moreover from log(2) have "map fst ((x, result) # log) = x # urls \<and> (\<forall>e\<in>set ((x, result) # log). \<not> settles event (snd e)) \<and>
        res = verdict errs first ((x, result) # log) \<or>
       (\<exists>front last rest. (x, result) # log = front @ [last] \<and> x # urls = map fst ((x, result) # log) @ rest \<and> res = snd last \<and>
          (\<forall>e\<in>set front. \<not> settles event (snd e)) \<and> settles event (snd last))"
    proof (elim disjE exE conjE)
      fix front last rest
      assume "log = front @ [last]" "urls = map fst log @ rest" "res = snd last" "\<forall>e\<in>set front. \<not> settles event (snd e)"
        "settles event (snd last)"
      then show ?thesis using False
        by (intro disjI2 exI [of _ "(x, result) # front"] exI [of _ last] exI [of _ rest]) simp
    qed (use v False in simp)
    ultimately show ?thesis by (rule_tac x = "(x, result) # log" in exI) (rule conjI)
  qed
qed

section \<open>Properties\<close>

text \<open>
  C32. Every response that \<open>parseAnnounceResponse\<close> accepts is usable: the interval is between a second and
  a week, the counts are not negative, and the peers are distinct addresses with a port and an IPv4 or IPv6
  address, whether they came compact, as dictionaries or in \<open>peers6\<close>.
\<close>

theorem parseAnnounceResponse_usable:
  assumes "parseAnnounceResponse d = Inr r"
  shows "0 < Interval r \<and> Interval r \<le> 7 * 24 * 60 * 60 \<and> 0 \<le> Seeders r \<and> 0 \<le> Leechers r \<and>
    distinct (map addressString (Peers r)) \<and> list_all goodPeer (Peers r)"
proof -
  obtain peers peers6 where p: "Peers r = uniquePeers (peers @ peers6)" "\<forall>p\<in>set peers. goodPeer p" "\<forall>p\<in>set peers6. goodPeer p"
    and i: "0 < Interval r" "Interval r \<le> maxIntervalSeconds" "0 \<le> Seeders r" "0 \<le> Leechers r"
    using parseAnnounceResponse_parts [OF assms] by blast
  have "list_all goodPeer (Peers r)" using p uniquePeers_facts [of "peers @ peers6"] by (auto simp: list_all_iff)
  then show ?thesis using i p(1) uniquePeers_facts [of "peers @ peers6"] by (simp add: maxIntervalSeconds_def)
qed

theorem parseAnnounceResponse_usable_witness:
  "\<exists>r. parseAnnounceResponse (str ''d8:intervali9e5:peers6:abcdefe'') = Inr r \<and> Interval r = 9 \<and>
     list_all goodPeer (Peers r) \<and> length (Peers r) = 1"
proof -
  let ?r = "\<lparr>Interval = 9, Peers = [\<lparr>IP = str ''abcd'', Port = Uint16 (str ''ef'')\<rparr>], Seeders = 0, Leechers = 0\<rparr>"
  have "parseAnnounceResponse (str ''d8:intervali9e5:peers6:abcdefe'') = Inr ?r"
    by (simp add: parseAnnounceResponse_def parse_eval dictGet_def countOf_def parsePeersValue_def AsInt_def
        parseCompactPeers_def compactLoop.simps uniquePeers_def maxIntervalSeconds_def Uint16_def cong: andThen_weak_cong)
  from parseAnnounceResponse_usable [OF this] this show ?thesis by auto
qed

text \<open>
  C20. An HTTP announce is understood on both sides. Out of the query the tracker reads the info hash, the
  peer id, the port, the counts, the event and the number of wanted peers, and what else the announce URL
  had; out of the tracker's reply the client reads the interval, the counts and the peers it was given.
\<close>

theorem announceHTTP_understood:
  assumes answer: "httpDo net (baseURL\<lparr>RawQuery := Encode (announceQuery baseURL meta peerID opts)\<rparr>) s = (Inr response, t)"
    and status: "200 \<le> StatusCode response" "StatusCode response < 300"
    and body: "Body response = encode (trackerReply interval seeders leechers peers)" "\<not> BodyFails response"
      "int (length (Body response)) \<le> ResponseLimit c" "ResponseLimit c < MaxInt64"
    and "0 < interval" "interval \<le> maxIntervalSeconds" "0 \<le> seeders" "seeders \<le> MaxInt64" "0 \<le> leechers" "leechers \<le> MaxInt64"
    and "\<forall>p\<in>set peers. length (IP p) = 4 \<and> Port p \<noteq> 0" "distinct peers" "6 * length peers \<le> 1048576"
  shows "announceHTTP net c baseURL meta peerID opts s =
      (Inr \<lparr>Interval = interval, Peers = peers, Seeders = seeders, Leechers = leechers\<rparr>, t) \<and>
    map_of (parseQuery (Encode (announceQuery baseURL meta peerID opts))) =
     (let m = (map_of (parseQuery (RawQuery baseURL)))(str ''info_hash'' \<mapsto> [InfoHash meta],
        str ''peer_id'' \<mapsto> [peerID], str ''port'' \<mapsto> [FormatInt (uint (AnnouncePort opts))],
        str ''uploaded'' \<mapsto> [FormatInt (Uploaded opts)], str ''downloaded'' \<mapsto> [FormatInt (Downloaded opts)],
        str ''left'' \<mapsto> [FormatInt (Left opts)], str ''compact'' \<mapsto> [str ''1'']);
      m' = (if AnnounceEvent opts = [] then m else m(str ''event'' \<mapsto> [AnnounceEvent opts]))
      in if NumWant opts = 0 then m' else m'(str ''numwant'' \<mapsto> [FormatInt (NumWant opts)]))"
proof
  have "length (Body response) \<noteq> 0" unfolding body(1) by (simp add: trackerReply_def encode_TDict)
  then have limit: "0 < ResponseLimit c" using body(3) by linarith
  then have "readLimited (ResponseLimit c) response = Inr (Body response)"
    using readLimited_whole body(2-4) by blast
  then show "announceHTTP net c baseURL meta peerID opts s =
      (Inr \<lparr>Interval = interval, Peers = peers, Seeders = seeders, Leechers = leechers\<rparr>, t)"
    using answer status body(3) limit parse_trackerReply [OF assms(8-16)]
    by (simp add: announceHTTP_def act_eval Let_def body(1) cong: act_cong)
qed (simp only: announceQuery_read map_of_announceQuery)

definition quietNetwork :: "unit network" where
  "quietNetwork =
     \<lparr>parseURL = (\<lambda>raw. Inr \<lparr>Scheme = str ''udp'', Host = raw, urlRest = [], RawQuery = []\<rparr>),
      httpDo = (\<lambda>request. retA \<lparr>StatusCode = 200,
          Body = encode (trackerReply 1800 1 0 [\<lparr>IP = [127, 0, 0, 1], Port = 6881\<rparr>]), BodyFails = False\<rparr>),
      dialUDP = (\<lambda>host. if host = str ''down'' then failA NetworkError
         else retA \<lparr>RemoteIP = Some [127, 0, 0, 1], deadlineFails = False,
          datagrams = [Inr (connectReply 0 7), Inr (announceReply 0 \<lparr>Interval = 60, Peers = [], Seeders = 2, Leechers = 3\<rparr>
            [\<lparr>IP = [10, 0, 0, 1], Port = 99\<rparr>, \<lparr>IP = [10, 0, 0, 2], Port = 0\<rparr>])],
          udpWrites = [], udpSent = []\<rparr>),
      randRead = (\<lambda>n. retA (replicate n 0))\<rparr>"

definition startedOptions :: AnnounceOptions where
  "startedOptions = \<lparr>AnnouncePort = 6881, Uploaded = 0, Downloaded = 0, Left = 5, AnnounceEvent = str ''started'', NumWant = - 1\<rparr>"

theorem announceHTTP_understood_witness:
  "fst (announceHTTP quietNetwork NewTrackerClient \<lparr>Scheme = str ''http'', Host = str ''h'', urlRest = [], RawQuery = []\<rparr>
      sampleMeta (replicate 20 0) startedOptions ()) =
    Inr \<lparr>Interval = 1800, Peers = [\<lparr>IP = [127, 0, 0, 1], Port = 6881\<rparr>], Seeders = 1, Leechers = 0\<rparr>"
proof -
  let ?base = "\<lparr>Scheme = str ''http'', Host = str ''h'', urlRest = [], RawQuery = []\<rparr> :: url"
  let ?reply = "trackerReply 1800 1 0 [\<lparr>IP = [127, 0, 0, 1], Port = 6881\<rparr>]"
  have "length (encode ?reply) \<le> 100" by code_simp
  then have len: "int (length (encode ?reply)) \<le> ResponseLimit NewTrackerClient" "ResponseLimit NewTrackerClient < MaxInt64"
    by (simp_all add: NewTrackerClient_def defaultResponseLimit_def MaxInt64_def push_bit_eq_mult)
  have answer: "httpDo quietNetwork (?base\<lparr>RawQuery := Encode (announceQuery ?base sampleMeta (replicate 20 0) startedOptions)\<rparr>) () =
      (Inr \<lparr>StatusCode = 200, Body = encode ?reply, BodyFails = False\<rparr>, ())"
    by (simp add: quietNetwork_def retA_def)
  from announceHTTP_understood [OF answer, of 1800 1 0 "[\<lparr>IP = [127, 0, 0, 1], Port = 6881\<rparr>]" NewTrackerClient] len
  show ?thesis by (simp add: MaxInt64_def maxIntervalSeconds_def)
qed

text \<open>
  C19. A UDP announce that succeeds was a whole exchange with one tracker: a 16-byte connect request and a
  98-byte announce request were sent, nothing else, the second one under the connection id of the first
  answer; the two datagrams that were believed carry the transactions of these requests; and the response is
  what the second one says, its peers those entries that have a port, IPv6 entries exactly when the
  tracker's address is one.
\<close>

theorem announceUDP_exchange:
  assumes "announceUDP net trackerURL meta peerID opts s = (Inr r, s')" "length (InfoHash meta) = 20" "length peerID = 20"
  shows "\<exists>c s1 c' t1 cid t2 key d1 rest d2 n entries. dialUDP net (Host trackerURL) s = (Inr c, s1) \<and>
    udpExchange net meta peerID opts (s1, c) = (Inr r, s', c') \<and>
    udpSent c' = udpSent c @ [connectRequest t1, announceRequest cid t2 key meta peerID opts] \<and>
    length (connectRequest t1) = 16 \<and> length (announceRequest cid t2 key meta peerID opts) = 98 \<and>
    datagrams c = Inr d1 # Inr d2 # datagrams c' \<and>
    take 65536 d1 = connectReply t1 cid @ rest \<and> take 65536 d2 = announceReply t2 r entries \<and>
    n \<in> {4, 16} \<and> list_all (\<lambda>a. length (IP a) = n) entries \<and> (n = 16 \<longleftrightarrow> (\<exists>ip. RemoteIP c = Some ip \<and> To4 ip = None)) \<and>
    Peers r = filter (\<lambda>p. Port p \<noteq> 0) entries \<and> 0 < Interval r \<and> Interval r \<le> 7 * 24 * 60 * 60"
proof -
  obtain c s1 c' where dial: "dialUDP net (Host trackerURL) s = (Inr c, s1)"
    and run: "udpExchange net meta peerID opts (s1, c) = (Inr r, s', c')"
  proof -
    from assms(1) have "bindA (dialUDP net (Host trackerURL)) (\<lambda>c s.
        case udpExchange net meta peerID opts (s, c) of (r, s', c') \<Rightarrow> (r, s')) s = (Inr r, s')"
      by (simp only: announceUDP_def failA_iff split: if_splits) simp
    then obtain c s1 where c: "dialUDP net (Host trackerURL) s = (Inr c, s1)"
      "(case udpExchange net meta peerID opts (s1, c) of (r, s', c') \<Rightarrow> (r, s')) = (Inr r, s')"
      unfolding bindA_Inr by (elim exE conjE)
    then show ?thesis by (cases "udpExchange net meta peerID opts (s1, c)") (auto intro: that)
  qed
  have "length (connectRequest t) = 16" "length (announceRequest cid t2 key meta peerID opts) = 98" for t cid t2 key
    using assms(2,3) by (simp_all add: connectRequest_def announceRequest_def)
  then show ?thesis using dial run udpExchange_ok [OF run] unfolding list_all_iff maxIntervalSeconds_def by blast
qed

theorem announceUDP_exchange_witness:
  "\<exists>r (c' :: udpConn) t1 cid t2 key. announceUDP quietNetwork \<lparr>Scheme = str ''udp'', Host = str ''h'', urlRest = [], RawQuery = []\<rparr>
      sampleMeta (replicate 20 0) startedOptions () = (Inr r, ()) \<and> Interval r = 60 \<and> Peers r = [\<lparr>IP = [10, 0, 0, 1], Port = 99\<rparr>] \<and>
    udpSent c' = [connectRequest t1, announceRequest cid t2 key sampleMeta (replicate 20 0) startedOptions] \<and>
    length (announceRequest cid t2 key sampleMeta (replicate 20 0) startedOptions) = 98"
proof -
  let ?url = "\<lparr>Scheme = str ''udp'', Host = str ''h'', urlRest = [], RawQuery = []\<rparr> :: url"
  let ?r = "\<lparr>Interval = 60, Peers = [\<lparr>IP = [10, 0, 0, 1], Port = 99\<rparr>], Seeders = 2, Leechers = 3\<rparr>"
  have "announceUDP quietNetwork ?url sampleMeta (replicate 20 0) startedOptions () =
      (Inr \<lparr>Interval = 60, Peers = [\<lparr>IP = [10, 0, 0, 1], Port = 99\<rparr>], Seeders = 2, Leechers = 3\<rparr>, ())"
    by (simp add: announceUDP_def udpExchange_def quietNetwork_def randomUint32_def onNet_def onConn_def writeDatagram_def
        readUDPResponse_def validateUDPResponse_def connectReply_def announceReply_def connectRequest_def
        announceRequest_def wireEntry_def udpResult_def udpEvent_def parseCompactPeers_def compactLoop.simps To4_def
        PutUint16_def PutUint32_def PutUint64_def Uint16_def Uint32_def Uint64_def sliceOf_def maxIntervalSeconds_def
        act_eval Let_def cong: act_cong)
  note run = this
  from announceUDP_exchange [OF run]
  obtain c c' :: udpConn and t1 cid t2 key where d: "dialUDP quietNetwork (Host ?url) () = (Inr c, ())"
    "udpSent c' = udpSent c @ [connectRequest t1, announceRequest cid t2 key sampleMeta (replicate 20 0) startedOptions]"
    "length (announceRequest cid t2 key sampleMeta (replicate 20 0) startedOptions) = 98"
    by (auto simp: sampleMeta_def)
  from d(1) have "udpSent c = []" by (auto simp: quietNetwork_def retA_def)
  with d(2) have "udpSent c' = [connectRequest t1, announceRequest cid t2 key sampleMeta (replicate 20 0) startedOptions]" by simp
  with run d(3) have "announceUDP quietNetwork ?url sampleMeta (replicate 20 0) startedOptions () = (Inr ?r, ()) \<and>
      udpSent c' = [connectRequest t1, announceRequest cid t2 key sampleMeta (replicate 20 0) startedOptions] \<and>
      length (announceRequest cid t2 key sampleMeta (replicate 20 0) startedOptions) = 98" by simp
  moreover have "Interval ?r = 60" "Peers ?r = [\<lparr>IP = [10, 0, 0, 1], Port = 99\<rparr>]" by simp_all
  ultimately show ?thesis by blast
qed

text \<open>
  C33. \<open>AnnounceFirst\<close> asks the trackers of the metainfo in order, each at most once and from the state the one
  before left. An answer without peers does not end the search, unless the event is \<open>completed\<close> or \<open>stopped\<close>:
  the first answer with peers, for these events the first answer at all, is returned and nobody is asked after
  that. When no answer settles the matter, every tracker was asked: the first answer that succeeded is returned,
  and if none did, the failures of all of them. (The comment above the function says that trackers are tried
  until one responds; the code goes on after a response without peers.)
\<close>

theorem AnnounceFirst_failover:
  assumes "AnnounceFirst u net c (Some meta) peerID opts s = (res, t)" "TrackerURLs meta \<noteq> []"
  shows "\<exists>log. answersFrom (\<lambda>trackerURL. AnnounceURL u net c trackerURL meta peerID opts) s log t \<and>
    (map fst log = TrackerURLs meta \<and> list_all (\<lambda>e. \<not> settles (AnnounceEvent opts) (snd e)) log \<and>
       res = (case successes log of r # _ \<Rightarrow> Inr r | [] \<Rightarrow> Inl (AllTrackersFailed (failures log))) \<or>
     (\<exists>front last rest. log = front @ [last] \<and> TrackerURLs meta = map fst log @ rest \<and> res = snd last \<and>
        list_all (\<lambda>e. \<not> settles (AnnounceEvent opts) (snd e)) front \<and> settles (AnnounceEvent opts) (snd last)))"
proof -
  from assms have "announceLoop (\<lambda>trackerURL. AnnounceURL u net c trackerURL meta peerID opts) (AnnounceEvent opts) [] None
      (TrackerURLs meta) s = (res, t)" by (simp add: AnnounceFirst_def Let_def)
  from announceLoop_asked [OF this] show ?thesis by (simp only: verdict_def list_all_iff option.case append_Nil)
qed

text \<open>
  A network that notes whom it was asked to reach: the tracker \<open>down\<close> cannot be reached, \<open>idle\<close> knows no peers,
  the others know one.
\<close>

definition notedNetwork :: "bytes list network" where
  "notedNetwork =
     \<lparr>parseURL = (\<lambda>raw. Inr \<lparr>Scheme = str ''udp'', Host = raw, urlRest = [], RawQuery = []\<rparr>),
      httpDo = (\<lambda>request. failA NetworkError),
      dialUDP = (\<lambda>host hosts. (if host = str ''down'' then Inl NetworkError
         else Inr \<lparr>RemoteIP = Some [127, 0, 0, 1], deadlineFails = False,
          datagrams = [Inr (connectReply 0 7), Inr (announceReply 0 \<lparr>Interval = 60, Peers = [], Seeders = 2, Leechers = 3\<rparr>
            (if host = str ''idle'' then [] else [\<lparr>IP = [10, 0, 0, 1], Port = 99\<rparr>]))],
          udpWrites = [], udpSent = []\<rparr>, hosts @ [host])),
      randRead = (\<lambda>n. retA (replicate n 0))\<rparr>"

lemma noted_announce:
  assumes "host \<noteq> []"
  shows "AnnounceURL plainUnicode notedNetwork c host meta peerID startedOptions hosts =
    (if host = str ''down'' then Inl NetworkError
     else Inr \<lparr>Interval = 60, Peers = (if host = str ''idle'' then [] else [\<lparr>IP = [10, 0, 0, 1], Port = 99\<rparr>]),
       Seeders = 2, Leechers = 3\<rparr>, hosts @ [host])"
  using assms
  by (simp add: AnnounceURL_def startedOptions_def plainUnicode_def ToLower_def lowerRune_def runes_def decodeAll.simps encodeRune_def
      notedNetwork_def announceUDP_def udpExchange_def randomUint32_def onNet_def onConn_def writeDatagram_def readUDPResponse_def
      validateUDPResponse_def connectReply_def announceReply_def wireEntry_def udpResult_def parseCompactPeers_def compactLoop.simps
      To4_def PutUint16_def PutUint32_def PutUint64_def Uint16_def Uint32_def Uint64_def sliceOf_def maxIntervalSeconds_def
      act_eval Let_def cong: act_cong)

lemma answersFrom_hosts:
  "(\<And>x s. x \<in> fst ` set log \<Longrightarrow> snd (announce x s) = s @ [x]) \<Longrightarrow> answersFrom announce s log t \<Longrightarrow> t = s @ map fst log"
proof (induction log arbitrary: s)
  case (Cons e log)
  then obtain u where u: "announce (fst e) s = (snd e, u)" "answersFrom announce u log t" by auto
  have "snd (announce (fst e) s) = s @ [fst e]" by (rule Cons.prems(1)) simp
  then have "u = s @ [fst e]" using u(1) by simp
  then show ?case using Cons.IH [OF _ u(2)] Cons.prems(1) by simp
qed simp

theorem AnnounceFirst_failover_witness:
  "\<exists>r log. AnnounceFirst plainUnicode notedNetwork NewTrackerClient
      (Some (sampleMeta\<lparr>Announce := str ''down'', AnnounceList := [[str ''idle'', str ''up''], [str ''spare'']]\<rparr>))
      (replicate 20 0) startedOptions [] = (Inr r, [str ''down'', str ''idle'', str ''up'']) \<and>
    answersFrom (\<lambda>trackerURL. AnnounceURL plainUnicode notedNetwork NewTrackerClient trackerURL
       (sampleMeta\<lparr>Announce := str ''down'', AnnounceList := [[str ''idle'', str ''up''], [str ''spare'']]\<rparr>)
       (replicate 20 0) startedOptions) [] log [str ''down'', str ''idle'', str ''up''] \<and>
    map fst log = [str ''down'', str ''idle'', str ''up''] \<and> snd (last log) = Inr r \<and> Peers r \<noteq> [] \<and>
    list_all (\<lambda>e. \<not> settles (str ''started'') (snd e)) (butlast log)"
proof -
  let ?meta = "sampleMeta\<lparr>Announce := str ''down'', AnnounceList := [[str ''idle'', str ''up''], [str ''spare'']]\<rparr>"
  let ?announce = "\<lambda>trackerURL. AnnounceURL plainUnicode notedNetwork NewTrackerClient trackerURL ?meta (replicate 20 0) startedOptions"
  let ?r = "\<lparr>Interval = 60, Peers = [\<lparr>IP = [10, 0, 0, 1], Port = 99\<rparr>], Seeders = 2, Leechers = 3\<rparr>"
  let ?hosts = "[str ''down'', str ''idle'', str ''up'']"
  have urls: "TrackerURLs ?meta = ?hosts @ [str ''spare'']" by (simp add: TrackerURLs_def addURL_def)
  then have ne: "TrackerURLs ?meta \<noteq> []" by simp
  have event: "AnnounceEvent startedOptions = str ''started''" by (simp add: startedOptions_def)
  have run: "AnnounceFirst plainUnicode notedNetwork NewTrackerClient (Some ?meta) (replicate 20 0) startedOptions [] = (Inr ?r, ?hosts)"
    unfolding AnnounceFirst_def option.case urls Let_def event by (simp add: noted_announce catchA_def retA_def)
  from AnnounceFirst_failover [OF run ne] obtain log where a: "answersFrom ?announce [] log ?hosts" and
    cases: "map fst log = TrackerURLs ?meta \<or> (\<exists>front last rest. log = front @ [last] \<and> TrackerURLs ?meta = map fst log @ rest \<and>
      Inr ?r = snd last \<and> list_all (\<lambda>e. \<not> settles (AnnounceEvent startedOptions) (snd e)) front)" by blast
  have known: "set (map fst log) \<subseteq> set (TrackerURLs ?meta)" using cases by (elim disjE exE conjE) (metis order_refl, metis Un_upper1 set_append)
  have "[] \<notin> set (TrackerURLs ?meta)" unfolding urls by simp
  then have nonempty: "x \<noteq> []" if "x \<in> fst ` set log" for x using known that unfolding set_map by (meson subsetD)
  have "snd (?announce x s) = s @ [x]" if "x \<in> fst ` set log" for x s
    unfolding noted_announce [OF nonempty [OF that]] by simp
  then have "?hosts = [] @ map fst log" by (rule answersFrom_hosts [OF _ a])
  then have asked: "map fst log = ?hosts" by simp
  with cases obtain front last where "log = front @ [last]" "Inr ?r = snd last"
    "list_all (\<lambda>e. \<not> settles (str ''started'') (snd e)) front" unfolding urls event by fastforce
  then show ?thesis using run a asked by (intro exI [of _ ?r] exI [of _ log]) simp
qed

end
