(* ===== verification/TrackerWatch.thy ===== *)
theory TrackerWatch
  imports Prelude
begin

text \<open>
  The goroutine that \<open>announceUDP\<close> starts beside its exchange (\<open>internal/tracker/announce.go\<close>): when the context is
  cancelled it moves the deadline of the connection to the present, so that the read or write that is under way
  fails. Both set the same deadline, without a lock between them.
\<close>

datatype udpDeadline = NoDeadline | AtOnce | AtLimit

datatype announcePhase = Dialled | Exchanging | Finished

record udpWatch =
  ctxDone :: bool
  connDeadline :: udpDeadline
  phase :: announcePhase
  watcherRuns :: bool

text \<open>After dialling, when the goroutine has been started.\<close>

definition dialledWatch :: "bool \<Rightarrow> udpWatch" where
  "dialledWatch done = \<lparr>ctxDone = done, connDeadline = NoDeadline, phase = Dialled, watcherRuns = True\<rparr>"

text \<open>
  The context is cancelled; \<open>announceUDP\<close> sets its own deadline, which may fail, exchanges and returns, which closes
  \<open>stopCancellationWatch\<close>; the goroutine takes a case of its \<open>select\<close> that is ready.
\<close>

inductive watchStep :: "udpWatch \<Rightarrow> udpWatch \<Rightarrow> bool" where
  cancel: "watchStep s (s\<lparr>ctxDone := True\<rparr>)"
| setLimit: "phase s = Dialled \<Longrightarrow> watchStep s (s\<lparr>connDeadline := AtLimit, phase := Exchanging\<rparr>)"
| limitFails: "phase s = Dialled \<Longrightarrow> watchStep s (s\<lparr>phase := Finished\<rparr>)"
| exchanged: "phase s = Exchanging \<Longrightarrow> watchStep s (s\<lparr>phase := Finished\<rparr>)"
| watchDone: "watcherRuns s \<Longrightarrow> ctxDone s \<Longrightarrow> watchStep s (s\<lparr>connDeadline := AtOnce, watcherRuns := False\<rparr>)"
| watchStopped: "watcherRuns s \<Longrightarrow> phase s = Finished \<Longrightarrow> watchStep s (s\<lparr>watcherRuns := False\<rparr>)"

code_pred watchStep .

abbreviation watchRuns :: "udpWatch \<Rightarrow> udpWatch \<Rightarrow> bool" where
  "watchRuns \<equiv> watchStep\<^sup>*\<^sup>*"

text \<open>The goroutine does not outlive its context or the announce for ever: one of its cases is ready then.\<close>

lemma watcher_ends:
  assumes "watcherRuns s" "ctxDone s \<or> phase s = Finished"
  shows "\<exists>t. watchStep s t \<and> \<not> watcherRuns t"
  using assms by (auto intro: watchDone watchStopped)

text \<open>A cancellation after \<open>announceUDP\<close> has set its deadline is not lost.\<close>

definition watched :: "udpWatch \<Rightarrow> bool" where
  "watched s \<longleftrightarrow> phase s \<noteq> Dialled \<and> (watcherRuns s \<or> phase s = Finished \<or> connDeadline s = AtOnce)"

lemma watched_step: "watchStep s t \<Longrightarrow> watched s \<Longrightarrow> watched t"
  by (induction rule: watchStep.induct) (auto simp: watched_def)

lemma cancel_in_time:
  assumes "watchRuns s t" "phase s = Exchanging" "watcherRuns s" "phase t = Exchanging" "\<not> watcherRuns t"
  shows "connDeadline t = AtOnce"
proof -
  have "watched s" using assms(2,3) by (simp add: watched_def)
  with assms(1) have "watched t" by (induction rule: rtranclp_induct) (auto intro: watched_step)
  then show ?thesis using assms(4,5) by (simp add: watched_def)
qed

text \<open>
  A cancellation before that can be: the goroutine moves the deadline, \<open>announceUDP\<close> moves it back, and the exchange
  goes on to its limit although the context is done and nobody watches it any more.
\<close>

lemma cancel_overwritten:
  "\<exists>t. watchRuns (dialledWatch False) t \<and> ctxDone t \<and> phase t = Exchanging \<and> \<not> watcherRuns t \<and> connDeadline t = AtLimit"
proof -
  let ?s = "dialledWatch False"
  let ?s1 = "?s\<lparr>ctxDone := True\<rparr>"
  let ?s2 = "?s1\<lparr>connDeadline := AtOnce, watcherRuns := False\<rparr>"
  let ?s3 = "?s2\<lparr>connDeadline := AtLimit, phase := Exchanging\<rparr>"
  have "watchStep ?s ?s1" by (rule cancel)
  moreover have "watchStep ?s1 ?s2" by (rule watchDone) (simp_all add: dialledWatch_def)
  moreover have "watchStep ?s2 ?s3" by (rule setLimit) (simp add: dialledWatch_def)
  ultimately have "watchRuns ?s ?s3" by (meson r_into_rtranclp rtranclp_trans)
  then show ?thesis by (intro exI [of _ ?s3]) (simp add: dialledWatch_def)
qed

end
