(* ===== verification/Supervised.thy ===== *)
theory Supervised
  imports Goroutine
begin

text \<open>
  A program beside other ones: its sections interleave with steps of the rest in any order. When what the
  program knows about the shared state is stable under the steps of the rest, the safety of the program
  alone carries over to every interleaving; this is the contract \<open>supervised\<close>.
\<close>

inductive besideStep :: "('s \<Rightarrow> 's \<Rightarrow> bool) \<Rightarrow> 's \<times> ('s, 'a) prog \<Rightarrow> 's \<times> ('s, 'a) prog \<Rightarrow> bool" for rest where
  own_step: "besideStep rest (c, Step f p) (f c, p c)"
| rest_step: "rest c c' \<Longrightarrow> besideStep rest (c, p) (c', p)"

inductive_cases besideStepE: "besideStep rest (c, p) (d, q)"

abbreviation besideRuns :: "('s \<Rightarrow> 's \<Rightarrow> bool) \<Rightarrow> 's \<times> ('s, 'a) prog \<Rightarrow> 's \<times> ('s, 'a) prog \<Rightarrow> bool" where
  "besideRuns rest \<equiv> (besideStep rest)\<^sup>*\<^sup>*"

lemma besideRuns_alone: "runP p s = (x, t) \<Longrightarrow> besideRuns rest (s, p) (t, Done x)"
proof (induction p arbitrary: s)
  case (Step f p)
  then have "besideRuns rest (f s, p s) (t, Done x)" by simp
  moreover have "besideStep rest (s, Step f p) (f s, p s)" by (rule own_step)
  ultimately show ?case by (rule converse_rtranclp_into_rtranclp [rotated])
qed simp

locale supervised =
  fixes knows :: "'h \<Rightarrow> 's \<Rightarrow> bool"
    and rest :: "'s \<Rightarrow> 's \<Rightarrow> bool"
  assumes stable: "knows h s \<Longrightarrow> rest s t \<Longrightarrow> knows h t"
begin

abbreviation safe :: "('h \<Rightarrow> 'a \<Rightarrow> bool) \<Rightarrow> ('s, 'a) prog \<Rightarrow> 'h \<Rightarrow> bool" where
  "safe \<equiv> safeP (\<lambda>_. True) knows (\<lambda>_ _ _ _. True)"

lemma beside_step:
  assumes "besideStep rest (s, p) (t, q)" "knows h s" "safe post p h"
  shows "\<exists>h'. knows h' t \<and> safe post q h'"
proof -
  from assms(1) consider f k where "p = Step f k" "t = f s" "q = k s" | "rest s t" "q = p"
    by (rule besideStepE)
  then show ?thesis
  proof cases
    case 1
    then show ?thesis using assms(2,3) by auto
  next
    case 2
    then show ?thesis using assms(2,3) stable by blast
  qed
qed

lemma beside_runs: "besideRuns rest c d \<Longrightarrow> knows h (fst c) \<Longrightarrow> safe post (snd c) h \<Longrightarrow>
    \<exists>h'. knows h' (fst d) \<and> safe post (snd d) h'"
proof (induction rule: rtranclp_induct)
  case (step d e)
  then show ?case using beside_step [of "fst d" "snd d" "fst e" "snd e"] by auto
qed blast

end

end
