(* ===== verification/App.thy ===== *)
theory App
  imports Supervised Worker Tracker
begin

text \<open>
  \<open>main.go\<close>: the download of one torrent from the metainfo file to the finished files. The shared state is a
  \<open>system\<close>, the world of the piece manager and the goroutines that have been started, each a program of its
  own; \<open>go\<close> appends one. \<open>downloadTorrent\<close> and \<open>run\<close> are programs of critical sections on that state, with their
  variables in the record \<open>supervisor\<close>. What the \<open>select\<close> finds is a list of \<open>appEvent\<close>s; an event that is
  not ready leaves the supervisor in the \<open>select\<close>, and when the list ends it is still waiting. The steps of
  supervisor and goroutines interleave in any order (\<open>systemRuns\<close>).
\<close>

section \<open>Configuration and state\<close>

record appConfig =
  OutputDirectory :: bytes
  ConfigPort :: "16 word"
  MaxWorkers :: int
  NoProgressLimit :: int
  PeerConfig :: ClientConfig

definition defaultAppConfig :: appConfig where
  "defaultAppConfig =
     \<lparr>OutputDirectory = str ''./torrents'', ConfigPort = 6881, MaxWorkers = 30, NoProgressLimit = 5 * 60 * second,
      PeerConfig = DefaultClientConfig\<rparr>"

text \<open>A goroutine ends with the message it puts into \<open>results\<close>.\<close>

type_synonym workerResult = "PeerAddress \<times> (workerError + outcome)"
type_synonym goroutine = "(world, workerResult) prog"
type_synonym system = "world \<times> goroutine list"

datatype appError =
    OutputDirectoryEmpty
  | WorkerCountNotPositive
  | IdleNotPositive
  | ReadMetainfoFailed
  | ParseMetainfoFailed bencodeError
  | ExtractMetainfoFailed metaError
  | PeerIDFailed
  | OpenStorageFailed storageError
  | RestoreFailed managerError
  | AnnounceFailed trackerError
  | TrackerHasNoPeers
  | PeersExhausted int int
  | AppContextDone
  | NoPieceCompleted int
  | FinalizeFailed managerError

datatype appEvent =
    ContextCancelled
  | IdleExpires
  | IdleElapsed
  | UpdatesClosed
  | ResultArrives nat
  | ReannounceExpires
  | ReannounceElapsed

text \<open>
  A \<open>time.Timer\<close>: it runs, or it has expired and its tick is in the channel until it is received. \<open>Stop\<close> tells
  whether it prevented the tick, and takes back a tick that nobody has received (as it does since Go 1.23).
\<close>

record timer =
  running :: bool
  tick :: bool
  duration :: int

definition NewTimer :: "int \<Rightarrow> timer" where
  "NewTimer d = \<lparr>running = True, tick = False, duration = d\<rparr>"

definition expireTimer :: "timer \<Rightarrow> timer" where
  "expireTimer t = (if running t then t\<lparr>running := False, tick := True\<rparr> else t)"

definition stopTimer :: "timer \<Rightarrow> bool \<times> timer" where
  "stopTimer t = (running t \<or> tick t, t\<lparr>running := False, tick := False\<rparr>)"

definition resetTimer :: "timer \<Rightarrow> int \<Rightarrow> timer" where
  "resetTimer t d =
     (let (stopped, t1) = stopTimer t;
          t2 = (if \<not> stopped then t1\<lparr>tick := False\<rparr> else t1) in
      t2\<lparr>running := True, duration := d\<rparr>)"

text \<open>
  The variables of \<open>downloadTorrent\<close>. The maps with empty values are sets; \<open>started\<close> are the peers for which a
  goroutine was started and \<open>taken\<close> the goroutines whose result was received.
\<close>

record 'n supervisor =
  active :: "bytes set"
  attempts :: "bytes \<Rightarrow> nat"
  queued :: "bytes set"
  pending :: "PeerAddress list"
  lastCompleted :: int
  watchedUpdates :: nat
  idleTimer :: timer
  reannounceTimer :: timer
  workersCancelled :: bool
  started :: "PeerAddress list"
  taken :: "nat set"
  trackers :: 'n

text \<open>What is not the program's: Unicode tables, the network, and what each connection will bring.\<close>

record 'n runtime =
  unicodeTables :: unicode
  networkOf :: "'n network"
  dialOf :: "nat \<Rightarrow> bytes \<Rightarrow> int \<Rightarrow> clientError + conn"
  eventsOf :: "nat \<Rightarrow> workerEvent list"

type_synonym ('n, 'a) appAct = "(system, 'n supervisor, appError, 'a) localAct"

definition readManager :: "(PieceManager \<Rightarrow> 'a) \<Rightarrow> ('n, 'a) appAct" where
  "readManager f = locked (\<lambda>c. (f (mgr (fst c)), c))"

section \<open>Peers\<close>

definition addPeer :: "'n supervisor \<Rightarrow> PeerAddress \<Rightarrow> 'n supervisor" where
  "addPeer l address =
     (let key = addressString address in
      if key = [] \<or> attempts l key \<ge> 2 then l
      else if key \<in> active l then l
      else if key \<in> queued l then l
      else l\<lparr>queued := insert key (queued l), pending := pending l @ [address]\<rparr>)"

definition addPeers :: "PeerAddress list \<Rightarrow> 'n supervisor \<Rightarrow> 'n supervisor" where
  "addPeers peers l = foldl addPeer l peers"

section \<open>Workers\<close>

definition workerOptions :: "appConfig \<Rightarrow> WorkerOptions" where
  "workerOptions cfg = \<lparr>OptClientConfig = PeerConfig cfg, BlockTimeout = 0, OnProgress = True\<rparr>"

definition goroutineOf :: "'n runtime \<Rightarrow> appConfig \<Rightarrow> TorrentMeta \<Rightarrow> bytes \<Rightarrow> PeerAddress \<Rightarrow> nat \<Rightarrow> goroutine" where
  "goroutineOf rt cfg meta peerID address k =
     bindP (StartWorker (dialOf rt k) address meta peerID (workerOptions cfg) (eventsOf rt k))
       (\<lambda>(r, _). Done (address, r))"

definition takePending :: "'n supervisor \<Rightarrow> 'n supervisor" where
  "takePending l =
     (let address = hd (pending l); key = addressString address in
      l\<lparr>pending := tl (pending l), queued := queued l - {key}, active := insert key (active l),
        attempts := (attempts l)(key := attempts l key + 1)\<rparr>)"

definition launchWorker :: "'n runtime \<Rightarrow> appConfig \<Rightarrow> TorrentMeta \<Rightarrow> bytes \<Rightarrow> ('n, unit) appAct" where
  "launchWorker rt cfg meta peerID = getW (\<lambda>l.
     let address = hd (pending l) in
     seqW (setW takePending)
      (seqW (locked (\<lambda>(w, ts). ((), w, ts @ [goroutineOf rt cfg meta peerID address (length (started l))])))
        (setW (\<lambda>l. l\<lparr>started := started l @ [address]\<rparr>))))"

text \<open>The loop of \<open>launchWorkers\<close>; every iteration takes a pending peer.\<close>

primrec launchLoop :: "'n runtime \<Rightarrow> appConfig \<Rightarrow> TorrentMeta \<Rightarrow> bytes \<Rightarrow> nat \<Rightarrow> ('n, unit) appAct" where
  "launchLoop rt cfg meta peerID 0 = retW ()"
| "launchLoop rt cfg meta peerID (Suc n) = getW (\<lambda>l.
     if int (card (active l)) < MaxWorkers cfg \<and> pending l \<noteq> []
     then bindW (readManager IsComplete) (\<lambda>complete.
       if complete then retW ()
       else seqW (launchWorker rt cfg meta peerID) (launchLoop rt cfg meta peerID n))
     else retW ())"

definition launchWorkers :: "'n runtime \<Rightarrow> appConfig \<Rightarrow> TorrentMeta \<Rightarrow> bytes \<Rightarrow> ('n, unit) appAct" where
  "launchWorkers rt cfg meta peerID = getW (\<lambda>l. launchLoop rt cfg meta peerID (length (pending l)))"

text \<open>A result is in the channel once its goroutine has ended and until it is received.\<close>

definition arrived :: "nat set \<Rightarrow> nat \<Rightarrow> goroutine list \<Rightarrow> workerResult option" where
  "arrived gone j ts =
     (if j < length ts \<and> j \<notin> gone
      then (case ts ! j of Done x \<Rightarrow> if snd x = Inr Waiting then None else Some x | Step f p \<Rightarrow> None) else None)"

definition receiveResult :: "nat \<Rightarrow> ('n, workerResult option) appAct" where
  "receiveResult j = getW (\<lambda>l.
     bindW (locked (\<lambda>c. (arrived (taken l) j (snd c), c))) (\<lambda>r. case r of
       None \<Rightarrow> retW None
     | Some x \<Rightarrow> seqW (setW (\<lambda>l. l\<lparr>taken := insert j (taken l), active := active l - {addressString (fst x)}\<rparr>))
         (retW (Some x))))"

primrec drainWorkers :: "appEvent list \<Rightarrow> ('n, outcome) appAct" where
  "drainWorkers [] = getW (\<lambda>l. if active l = {} then retW Returned else retW Waiting)"
| "drainWorkers (e # es) = getW (\<lambda>l.
     if active l = {} then retW Returned
     else case e of ResultArrives j \<Rightarrow> seqW (receiveResult j) (drainWorkers es) | _ \<Rightarrow> drainWorkers es)"

text \<open>\<open>finishWorkers\<close>, and what follows it once every result has been received.\<close>

definition finishWorkers :: "appEvent list \<Rightarrow> ('n, outcome) appAct \<Rightarrow> ('n, outcome) appAct" where
  "finishWorkers es after =
     seqW (setW (\<lambda>l. l\<lparr>workersCancelled := True\<rparr>))
       (bindW (drainWorkers es) (\<lambda>out. case out of Waiting \<Rightarrow> retW Waiting | Returned \<Rightarrow> after))"

section \<open>The loop\<close>

definition announceApp :: "'n runtime \<Rightarrow> TorrentMeta \<Rightarrow> bytes \<Rightarrow> AnnounceOptions \<Rightarrow> ('n, trackerError + AnnounceResponse) appAct" where
  "announceApp rt meta peerID opts l =
     (case AnnounceFirst (unicodeTables rt) (networkOf rt) NewTrackerClient (Some meta) peerID opts (trackers l) of
        (r, n) \<Rightarrow> Done (Inr r, l\<lparr>trackers := n\<rparr>))"

definition announceOptions :: "appConfig \<Rightarrow> TorrentMeta \<Rightarrow> bytes \<Rightarrow> int \<Rightarrow> AnnounceOptions" where
  "announceOptions cfg meta event downloaded =
     \<lparr>AnnouncePort = ConfigPort cfg, Uploaded = 0, Downloaded = downloaded, Left = i64 (Length meta - downloaded),
      AnnounceEvent = event, NumWant = - 1\<rparr>"

text \<open>The cases of the \<open>select\<close> that stay in the loop; false when the case was not ready.\<close>

definition updatesCase :: "'n runtime \<Rightarrow> appConfig \<Rightarrow> TorrentMeta \<Rightarrow> bytes \<Rightarrow> ('n, bool) appAct" where
  "updatesCase rt cfg meta peerID =
     bindW (readManager Updates) (\<lambda>now. getW (\<lambda>l.
       if now = watchedUpdates l then retW False
       else bindW (readManager Progress) (\<lambda>progress.
         seqW (setW (\<lambda>l. if fst progress > lastCompleted l
             then l\<lparr>lastCompleted := fst progress, idleTimer := resetTimer (idleTimer l) (NoProgressLimit cfg)\<rparr> else l))
          (seqW (launchWorkers rt cfg meta peerID) (retW True)))))"

definition resultCase :: "'n runtime \<Rightarrow> appConfig \<Rightarrow> TorrentMeta \<Rightarrow> bytes \<Rightarrow> nat \<Rightarrow> ('n, bool) appAct" where
  "resultCase rt cfg meta peerID j =
     bindW (receiveResult j) (\<lambda>r. case r of
       None \<Rightarrow> retW False
     | Some _ \<Rightarrow> seqW (launchWorkers rt cfg meta peerID) (retW True))"

definition reannounceCase :: "'n runtime \<Rightarrow> appConfig \<Rightarrow> TorrentMeta \<Rightarrow> bytes \<Rightarrow> ('n, bool) appAct" where
  "reannounceCase rt cfg meta peerID = getW (\<lambda>l.
     if \<not> tick (reannounceTimer l) then retW False
     else seqW (setW (\<lambda>l. l\<lparr>reannounceTimer := (reannounceTimer l)\<lparr>tick := False\<rparr>\<rparr>))
    (bindW (readManager CompletedBytes) (\<lambda>currentBytes.
     bindW (announceApp rt meta peerID (announceOptions cfg meta [] currentBytes)) (\<lambda>r. case r of
       Inl e \<Rightarrow> seqW (setW (\<lambda>l. l\<lparr>reannounceTimer := resetTimer (reannounceTimer l) (30 * second)\<rparr>)) (retW True)
     | Inr updated \<Rightarrow>
         seqW (setW (addPeers (Peers updated)))
        (seqW (launchWorkers rt cfg meta peerID)
        (seqW (setW (\<lambda>l. l\<lparr>reannounceTimer := resetTimer (reannounceTimer l) (i64 (Interval updated * second))\<rparr>))
         (retW True)))))))"

text \<open>The head of the loop, before the \<open>select\<close>.\<close>

definition appHead :: "TorrentMeta \<Rightarrow> appEvent list \<Rightarrow> ('n, outcome) appAct \<Rightarrow> ('n, outcome) appAct" where
  "appHead meta es select =
     bindW (readManager IsComplete) (\<lambda>complete.
       if complete then finishWorkers es (retW Returned)
       else getW (\<lambda>l.
         if active l = {} \<and> pending l = [] then failW (PeersExhausted (lastCompleted l) (int (length (Pieces meta))))
         else bindW (readManager Updates) (\<lambda>u. seqW (setW (\<lambda>l. l\<lparr>watchedUpdates := u\<rparr>)) select)))"

primrec downloadLoop :: "'n runtime \<Rightarrow> appConfig \<Rightarrow> TorrentMeta \<Rightarrow> bytes \<Rightarrow> appEvent list \<Rightarrow> ('n, outcome) appAct" where
  "downloadLoop rt cfg meta peerID [] = retW Waiting"
| "downloadLoop rt cfg meta peerID (e # es) =
     (let select = downloadLoop rt cfg meta peerID es;
          again = (\<lambda>m. bindW m (\<lambda>ready. if ready then appHead meta es select else select)) in
      case e of
        ContextCancelled \<Rightarrow> finishWorkers es (failW AppContextDone)
      | IdleExpires \<Rightarrow> seqW (setW (\<lambda>l. l\<lparr>idleTimer := expireTimer (idleTimer l)\<rparr>)) select
      | IdleElapsed \<Rightarrow> getW (\<lambda>l.
          if \<not> tick (idleTimer l) then select
          else finishWorkers es (bindW (readManager IsComplete) (\<lambda>complete.
            if complete then retW Returned else failW (NoPieceCompleted (NoProgressLimit cfg)))))
      | UpdatesClosed \<Rightarrow> again (updatesCase rt cfg meta peerID)
      | ResultArrives j \<Rightarrow> again (resultCase rt cfg meta peerID j)
      | ReannounceExpires \<Rightarrow> seqW (setW (\<lambda>l. l\<lparr>reannounceTimer := expireTimer (reannounceTimer l)\<rparr>)) select
      | ReannounceElapsed \<Rightarrow> again (reannounceCase rt cfg meta peerID))"

definition downloadTorrent :: "'n runtime \<Rightarrow> appConfig \<Rightarrow> TorrentMeta \<Rightarrow> bytes \<Rightarrow> appEvent list \<Rightarrow> ('n, outcome) appAct" where
  "downloadTorrent rt cfg meta peerID events =
     bindW (readManager Progress) (\<lambda>progress.
     bindW (readManager CompletedBytes) (\<lambda>downloadedBytes.
     bindW (announceApp rt meta peerID (announceOptions cfg meta (str ''started'') downloadedBytes)) (\<lambda>r. case r of
       Inl e \<Rightarrow> failW (AnnounceFailed e)
     | Inr response \<Rightarrow>
         if Peers response = [] then failW TrackerHasNoPeers
         else
           seqW (setW (addPeers (Peers response)))
          (seqW (launchWorkers rt cfg meta peerID)
          (seqW (setW (\<lambda>l. l\<lparr>reannounceTimer := NewTimer (i64 (Interval response * second)), idleTimer := NewTimer (NoProgressLimit cfg),
              lastCompleted := fst progress\<rparr>))
           (appHead meta events (downloadLoop rt cfg meta peerID events)))))))"

section \<open>\<open>run\<close>\<close>

text \<open>Before \<open>downloadTorrent\<close> has made its timers.\<close>

definition stoppedTimer :: timer where
  "stoppedTimer = \<lparr>running = False, tick = False, duration = 0\<rparr>"

definition newSupervisor :: "'n \<Rightarrow> 'n supervisor" where
  "newSupervisor n =
     \<lparr>active = {}, attempts = (\<lambda>_. 0), queued = {}, pending = [], lastCompleted = 0, watchedUpdates = 0, 
      idleTimer = stoppedTimer, reannounceTimer = stoppedTimer, workersCancelled = False, started = [], taken = {}, trackers = n\<rparr>"

definition loadMeta :: "unicode \<Rightarrow> unit + bytes \<Rightarrow> appError + TorrentMeta" where
  "loadMeta u file =
     andThen (wrapErr (\<lambda>_. ReadMetainfoFailed) file) (\<lambda>rawData.
     andThen (wrapErr ParseMetainfoFailed (Parse (NewParser rawData))) (\<lambda>(root, _).
       wrapErr ExtractMetainfoFailed (ExtractMeta u (Some root) rawData)))"

text \<open>A critical section that can fail.\<close>

definition sectionApp :: "(world \<Rightarrow> ('e + 'a) \<times> world) \<Rightarrow> ('e \<Rightarrow> appError) \<Rightarrow> ('n, 'a) appAct" where
  "sectionApp m wrap =
     bindW (locked (\<lambda>(w, ts). case m w of (r, w') \<Rightarrow> (r, w', ts))) (\<lambda>r. checkW wrap r)"

definition openWorld :: "unicode \<Rightarrow> TorrentMeta \<Rightarrow> bytes \<Rightarrow> world \<Rightarrow> (storageError + unit) \<times> world" where
  "openWorld u meta dir w =
     (case NewStorageAt u (Some meta) dir (disk w) of
        (Inl e, d) \<Rightarrow> (Inl e, w\<lparr>disk := d\<rparr>)
      | (Inr store, d) \<Rightarrow> (Inr (), w\<lparr>disk := d, mgr := NewPieceManager meta store\<rparr>))"

definition closeWorld :: "world \<Rightarrow> world" where
  "closeWorld w = w\<lparr>mgr := (mgr w)\<lparr>storage := CloseStorage (storage (mgr w))\<rparr>\<rparr>"

text \<open>From the restored pieces to the completion announce, whose result is only reported.\<close>

definition runDownload :: "'n runtime \<Rightarrow> appConfig \<Rightarrow> TorrentMeta \<Rightarrow> bytes \<Rightarrow> appEvent list \<Rightarrow> ('n, outcome) appAct" where
  "runDownload rt cfg meta peerID events =
     seqW (sectionApp RestoreExisting RestoreFailed)
     (bindW (readManager IsComplete) (\<lambda>complete.
      bindW (if complete then retW Returned else downloadTorrent rt cfg meta peerID events) (\<lambda>out. case out of
        Waiting \<Rightarrow> retW Waiting
      | Returned \<Rightarrow>
          seqW (sectionApp Finalize FinalizeFailed)
         (seqW (announceApp rt meta peerID \<lparr>AnnouncePort = ConfigPort cfg, Uploaded = 0, Downloaded = Length meta,
              Left = 0, AnnounceEvent = str ''completed'', NumWant = - 1\<rparr>)
           (retW Returned)))))"

text \<open>The deferred \<open>Close\<close> runs unless the download is still waiting.\<close>

definition deferClose :: "('n, outcome) appAct \<Rightarrow> ('n, outcome) appAct" where
  "deferClose m l = bindP (m l) (\<lambda>(r, l').
     if r = Inr Waiting then Done (r, l')
     else bindP (atomic (\<lambda>(w, ts). ((), closeWorld w, ts))) (\<lambda>_. Done (r, l')))"

definition run :: "'n runtime \<Rightarrow> unit + bytes \<Rightarrow> (nat \<Rightarrow> 'r + nat) \<Rightarrow> appConfig \<Rightarrow> appEvent list \<Rightarrow> ('n, outcome) appAct" where
  "run rt file random cfg events =
     (if OutputDirectory cfg = [] then failW OutputDirectoryEmpty
      else if MaxWorkers cfg \<le> 0 then failW WorkerCountNotPositive
      else if NoProgressLimit cfg \<le> 0 then failW IdleNotPositive
      else bindW (checkW id (loadMeta (unicodeTables rt) file)) (\<lambda>meta.
        bindW (checkW (\<lambda>_. PeerIDFailed) (GeneratePeerID random)) (\<lambda>peerID.
          seqW (sectionApp (openWorld (unicodeTables rt) meta (OutputDirectory cfg)) OpenStorageFailed)
            (deferClose (runDownload rt cfg meta peerID events)))))"

section \<open>\<open>main\<close>\<close>

text \<open>What \<open>flag.Parse\<close> has read, and the values without flags; \<open>-port\<close> is an unsigned 64-bit flag.\<close>

record commandLine =
  portFlag :: "64 word"
  outputFlag :: bytes
  workersFlag :: int
  idleFlag :: int
  flagArgs :: "bytes list"

definition defaultCommandLine :: "bytes list \<Rightarrow> commandLine" where
  "defaultCommandLine arguments =
     (let configuration = defaultAppConfig in
      \<lparr>portFlag = ucast (ConfigPort configuration), outputFlag = OutputDirectory configuration,
       workersFlag = MaxWorkers configuration, idleFlag = NoProgressLimit configuration, flagArgs = arguments\<rparr>)"

text \<open>The exit status, \<open>None\<close> while \<open>run\<close> waits.\<close>

definition mainProgram :: "'n runtime \<Rightarrow> (bytes \<Rightarrow> unit + bytes) \<Rightarrow> (nat \<Rightarrow> 'r + nat) \<Rightarrow> commandLine \<Rightarrow> appEvent list \<Rightarrow>
    'n supervisor \<Rightarrow> (system, int option \<times> 'n supervisor) prog" where
  "mainProgram rt readFile random flags events l =
     (if length (flagArgs flags) \<noteq> 1 \<or> portFlag flags = 0 \<or> portFlag flags > 65535 then Done (Some 2, l)
      else
        let configuration = defaultAppConfig\<lparr>OutputDirectory := outputFlag flags, MaxWorkers := workersFlag flags,
              NoProgressLimit := idleFlag flags, ConfigPort := ucast (portFlag flags)\<rparr> in
        bindP (run rt (readFile (flagArgs flags ! 0)) random configuration events l) (\<lambda>(r, l').
          case r of Inl e \<Rightarrow> Done (Some 1, l') | Inr Returned \<Rightarrow> Done (Some 0, l') | Inr Waiting \<Rightarrow> Done (None, l')))"

section \<open>The whole system\<close>

text \<open>The critical sections of the supervisor and of the goroutines, in any order.\<close>

abbreviation systemRuns :: "system \<times> (system, 'a) prog \<Rightarrow> system \<times> (system, 'a) prog \<Rightarrow> bool" where
  "systemRuns \<equiv> besideRuns swarmStep"

end
