(* ===== verification/AppCrew.thy ===== *)
theory AppCrew
  imports App SwarmSpec
begin

text \<open>
  The goroutines of a download as the supervisor knows them: how many there are, for which peers, which have
  ended, and that together they keep the pieces consistent (\<open>knowsApp\<close>). This knowledge is stable under every
  step of the goroutines: interpretation \<open>app\<close> of the contract \<open>supervised\<close>.
\<close>

context exclusive
begin

text \<open>A goroutine that is started with an empty claim joins the crew.\<close>

lemma crew_spawn:
  assumes crew: "crew post (s, ts)" and p: "safeP valid holds guar (post (length ts)) p h" "holds h s" "claimed h = {}"
  shows "crew post (s, ts @ [p])"
proof -
  from crew obtain hs where valid: "valid s" and len: "length hs = length ts"
    and each: "\<And>i. i < length ts \<Longrightarrow> holds (hs ! i) s \<and> safeP valid holds guar (post i) (ts ! i) (hs ! i)"
    and apart: "\<And>i j. i < length ts \<Longrightarrow> j < length ts \<Longrightarrow> i \<noteq> j \<Longrightarrow> claimed (hs ! i) \<inter> claimed (hs ! j) = {}"
    and cover: "busy s \<subseteq> (\<Union>h\<in>set hs. claimed h)"
    unfolding crew_def by (simp, elim exE conjE) blast
  have "\<forall>i<length (ts @ [p]). holds ((hs @ [h]) ! i) s \<and> safeP valid holds guar (post i) ((ts @ [p]) ! i) ((hs @ [h]) ! i)"
    using each p len by (auto simp: nth_append less_Suc_eq)
  moreover have "\<forall>i<length (ts @ [p]). \<forall>j<length (ts @ [p]). i \<noteq> j \<longrightarrow> claimed ((hs @ [h]) ! i) \<inter> claimed ((hs @ [h]) ! j) = {}"
    using apart p(3) len by (auto simp: nth_append less_Suc_eq)
  moreover have "busy s \<subseteq> (\<Union>h\<in>set (hs @ [h]). claimed h)" using cover by auto
  ultimately show ?thesis using valid len unfolding crew_def prod.case by (intro conjI exI [of _ "hs @ [h]"]) simp_all
qed

end

section \<open>What a goroutine reports\<close>

primrec resultFor :: "'r \<Rightarrow> ('s, 'r \<times> 'x) prog \<Rightarrow> bool" where
  "resultFor a (Done x) \<longleftrightarrow> fst x = a"
| "resultFor a (Step f p) \<longleftrightarrow> (\<forall>s. resultFor a (p s))"

lemma resultFor_bind: "(\<And>x. resultFor a (k x)) \<Longrightarrow> resultFor a (bindP p k)"
  by (induction p) simp_all

lemma resultFor_goroutine: "resultFor address (goroutineOf rt cfg meta peerID address k)"
  unfolding goroutineOf_def by (rule resultFor_bind) (simp add: split_beta)

definition ended :: "goroutine \<Rightarrow> bool" where
  "ended t \<longleftrightarrow> (\<exists>x. t = Done x \<and> snd x \<noteq> Inr Waiting)"

definition crewPost :: "nat \<Rightarrow> claim \<Rightarrow> workerResult \<Rightarrow> bool" where
  "crewPost i h x \<longleftrightarrow> (snd x \<noteq> Inr Waiting \<longrightarrow> claimed h = {})"

lemma workerEnd_free: "workerEnd L s h (r, lo) \<Longrightarrow> r \<noteq> Inr Waiting \<Longrightarrow> claimed h = {}"
  by (cases lo) (auto split: if_splits)

lemma safe_goroutine:
  assumes "wfLayout L"
  shows "safeP (pieceInv L) holdsClaim guar (crewPost i) (goroutineOf rt cfg meta peerID address k) Idle"
proof -
  let ?j = "\<lparr>jobDial = dialOf rt k, jobPeer = address, jobOptions = workerOptions cfg, jobEvents = eventsOf rt k\<rparr>"
  have "goroutineOf rt cfg meta peerID address k = bindP (workerOf meta peerID ?j) (\<lambda>(r, _). Done (address, r))"
    by (simp add: goroutineOf_def workerOf_def)
  then show ?thesis
    by (simp, intro safeP_bind safeP_mono [OF safe_workerOf [OF assms]])
      (auto simp: crewPost_def split_beta dest: workerEnd_free)
qed

section \<open>Knowledge\<close>

text \<open>
  \<open>peers\<close> are the peers of the goroutines, \<open>gone\<close> those whose result was received: the others have distinct
  peers, at most \<open>M\<close> of them, and no peer was tried more than twice.
\<close>

definition crewFacts :: "int \<Rightarrow> PeerAddress list \<Rightarrow> nat set \<Rightarrow> goroutine list \<Rightarrow> bool" where
  "crewFacts M peers gone ts \<longleftrightarrow> length ts = length peers \<and> (\<forall>j<length peers. resultFor (peers ! j) (ts ! j)) \<and>
     gone \<subseteq> {..<length peers} \<and> (\<forall>j\<in>gone. ended (ts ! j)) \<and>
     inj_on (\<lambda>j. addressString (peers ! j)) ({..<length peers} - gone) \<and>
     int (card ({..<length peers} - gone)) \<le> max 0 M \<and> (\<forall>k. count_list (map addressString peers) k \<le> 2)"

datatype phase =
    Alone "world \<Rightarrow> bool" "PeerAddress list"
  | Running layout "PeerAddress list" "nat set" bool

fun knowsApp :: "int \<Rightarrow> phase \<Rightarrow> system \<Rightarrow> bool" where
  "knowsApp M (Alone P peers) (w, ts) \<longleftrightarrow> crewFacts M peers {..<length peers} ts \<and> P w"
| "knowsApp M (Running L peers gone complete) (w, ts) \<longleftrightarrow>
     crewFacts M peers gone ts \<and> swarm.crew L crewPost (w, ts) \<and> (complete \<longrightarrow> IsComplete (mgr w))"

lemma crewFacts_step:
  assumes facts: "crewFacts M peers gone ts" and step: "swarmStep (w, ts) (w', ts')"
  shows "crewFacts M peers gone ts' \<and> gone \<noteq> {..<length peers}"
proof -
  from step obtain i f p where i: "i < length ts" "ts ! i = Step f p" "ts' = ts[i := p w]"
    by (cases rule: swarmStepE) auto
  have "i \<notin> gone" using facts i(2) by (auto simp: crewFacts_def ended_def)
  moreover have "resultFor (peers ! i) (p w)" using facts i(1,2) by (auto simp: crewFacts_def dest: spec [of _ i])
  ultimately show ?thesis using facts i(1,3) by (auto simp: crewFacts_def nth_list_update)
qed

lemma later_IsComplete: "later w w' \<Longrightarrow> IsComplete (mgr w) \<Longrightarrow> IsComplete (mgr w')"
  using layout_eq(3) [of "mgr w'" "mgr w"] by (auto simp: later_def IsComplete_iff)

interpretation app: supervised "knowsApp M" swarmStep for M
proof
  fix h :: phase and s t :: system
  assume h: "knowsApp M h s" "swarmStep s t"
  obtain w ts w' ts' where st: "s = (w, ts)" "t = (w', ts')" by (cases s, cases t)
  show "knowsApp M h t"
  proof (cases h)
    case (Alone P peers)
    then show ?thesis using h crewFacts_step [of M peers "{..<length peers}" ts w w' ts'] st by simp
  next
    case (Running L peers gone complete)
    have "swarm.crew L crewPost t \<and> later w w'"
      using swarm.crew_step [of L crewPost w ts t] h Running st by simp
    then show ?thesis using h Running st crewFacts_step [of M peers gone ts w w' ts'] later_IsComplete by auto
  qed
qed

end
