(* ===== verification/AppTriples.thy ===== *)
theory AppTriples
  imports AppCrew
begin

text \<open>
  The supervisor's code, triple by triple, whatever the goroutines do between its critical sections:
  \<open>inCharge\<close> ties its variables to what it knows of the goroutines, and every action keeps it.
\<close>

abbreviation worksA :: "int \<Rightarrow> ('n supervisor \<Rightarrow> phase \<Rightarrow> bool) \<Rightarrow> ('n, 'a) appAct \<Rightarrow>
    ('a \<Rightarrow> 'n supervisor \<Rightarrow> phase \<Rightarrow> bool) \<Rightarrow> (appError \<Rightarrow> 'n supervisor \<Rightarrow> phase \<Rightarrow> bool) \<Rightarrow> bool" where
  "worksA M \<equiv> worksP (\<lambda>_. True) (knowsApp M) (\<lambda>_ _ _ _. True)"

lemma worksA_locked:
  assumes "\<And>l h c r c'. P l h \<Longrightarrow> knowsApp M h c \<Longrightarrow> m c = (r, c') \<Longrightarrow> \<exists>h'. knowsApp M h' c' \<and> Q r l h'"
  shows "worksA M P (locked m) Q E"
  by (rule worksP_locked) (use assms in auto)

lemma worksA_read: "(\<And>x l h. P l h \<Longrightarrow> Q x l h) \<Longrightarrow> worksA M P (readManager f) Q E"
  unfolding readManager_def by (rule worksA_locked) auto

section \<open>The variables\<close>

definition untaken :: "'n supervisor \<Rightarrow> nat set" where
  "untaken l = {..<length (started l)} - taken l"

definition peersInv :: "'n supervisor \<Rightarrow> bool" where
  "peersInv l \<longleftrightarrow> active l = (\<lambda>j. addressString (started l ! j)) ` untaken l \<and>
     queued l = addressString ` set (pending l) \<and> distinct (map addressString (pending l)) \<and>
     queued l \<inter> active l = {} \<and> (\<forall>k. attempts l k = count_list (map addressString (started l)) k) \<and>
     (\<forall>k\<in>queued l. attempts l k < 2)"

definition inCharge :: "layout \<Rightarrow> bool \<Rightarrow> 'n supervisor \<Rightarrow> phase \<Rightarrow> bool" where
  "inCharge L complete l h \<longleftrightarrow> peersInv l \<and> h = Running L (started l) (taken l) complete"

text \<open>Fields that the invariant does not mention.\<close>

lemma inCharge_other [simp]:
  "inCharge L c (l\<lparr>lastCompleted := a\<rparr>) h = inCharge L c l h" "inCharge L c (l\<lparr>watchedUpdates := n\<rparr>) h = inCharge L c l h"
  "inCharge L c (l\<lparr>idleTimer := ts\<rparr>) h = inCharge L c l h" "inCharge L c (l\<lparr>reannounceTimer := ts\<rparr>) h = inCharge L c l h"
  "inCharge L c (l\<lparr>workersCancelled := b\<rparr>) h = inCharge L c l h" "inCharge L c (l\<lparr>trackers := x\<rparr>) h = inCharge L c l h"
  by (simp_all add: inCharge_def peersInv_def untaken_def)

lemma addPeer_inv: "peersInv l \<Longrightarrow> peersInv (addPeer l p) \<and> started (addPeer l p) = started l \<and> taken (addPeer l p) = taken l"
  by (auto simp: addPeer_def peersInv_def untaken_def Let_def)

lemma foldl_addPeer: "peersInv l \<Longrightarrow> peersInv (foldl addPeer l ps) \<and> started (foldl addPeer l ps) = started l \<and>
    taken (foldl addPeer l ps) = taken l"
proof (induction ps arbitrary: l)
  case (Cons p ps)
  then show ?case using Cons.IH [of "addPeer l p"] addPeer_inv [OF Cons.prems, of p] by simp
qed simp

lemma addPeers_inCharge: "inCharge L c l h \<Longrightarrow> inCharge L c (addPeers ps l) h"
  using foldl_addPeer [of l ps] by (simp add: addPeers_def inCharge_def)


section \<open>Starting workers\<close>

text \<open>Taking a pending peer and starting its goroutine, seen together.\<close>

definition launchedOne :: "'n supervisor \<Rightarrow> 'n supervisor" where
  "launchedOne l = (takePending l)\<lparr>started := started l @ [hd (pending l)]\<rparr>"

lemma launchedOne_inv:
  assumes inv: "peersInv l" and "pending l \<noteq> []" and gone: "taken l \<subseteq> {..<length (started l)}"
  shows "peersInv (launchedOne l)"
proof -
  obtain p ps where p: "pending l = p # ps" using assms(2) by (cases "pending l") auto
  let ?k = "addressString p" and ?n = "length (started l)"
  have un: "untaken (launchedOne l) = insert ?n (untaken l)" using gone
    by (auto simp: untaken_def launchedOne_def takePending_def Let_def)
  have "(\<lambda>j. addressString ((started l @ [p]) ! j)) ` insert ?n (untaken l) = insert ?k (active l)"
  proof -
    have "(\<lambda>j. addressString ((started l @ [p]) ! j)) ` untaken l = (\<lambda>j. addressString (started l ! j)) ` untaken l"
      by (intro image_cong refl) (simp add: untaken_def nth_append)
    then show ?thesis using inv by (simp add: peersInv_def)
  qed
  then have act: "active (launchedOne l) = (\<lambda>j. addressString (started (launchedOne l) ! j)) ` untaken (launchedOne l)"
    unfolding un by (simp add: launchedOne_def takePending_def p Let_def)
  have fresh: "?k \<notin> addressString ` set ps" "?k \<in> queued l" using inv p by (auto simp: peersInv_def)
  have fields: "active (launchedOne l) = insert ?k (active l)" "queued (launchedOne l) = queued l - {?k}"
    "pending (launchedOne l) = ps" "attempts (launchedOne l) = (attempts l)(?k := attempts l ?k + 1)"
    "started (launchedOne l) = started l @ [p]"
    by (simp_all add: launchedOne_def takePending_def p Let_def)
  show ?thesis unfolding peersInv_def
  proof (intro conjI act)
    show "queued (launchedOne l) = addressString ` set (pending (launchedOne l))"
      using inv p fresh(1) unfolding fields by (auto simp: peersInv_def)
    show "distinct (map addressString (pending (launchedOne l)))" using inv p unfolding fields by (simp add: peersInv_def)
    show "queued (launchedOne l) \<inter> active (launchedOne l) = {}" using inv unfolding fields by (auto simp: peersInv_def)
    show "\<forall>k. attempts (launchedOne l) k = count_list (map addressString (started (launchedOne l))) k"
      using inv unfolding fields by (simp add: peersInv_def)
    show "\<forall>k\<in>queued (launchedOne l). attempts (launchedOne l) k < 2"
    proof
      fix k assume "k \<in> queued (launchedOne l)"
      then have "k \<in> queued l" "k \<noteq> ?k" unfolding fields by auto
      moreover from this(1) have "attempts l k < 2" using inv unfolding peersInv_def by blast
      ultimately show "attempts (launchedOne l) k < 2" unfolding fields by simp
    qed
  qed
qed

lemma crewFacts_spawn:
  assumes facts: "crewFacts M (started l) (taken l) ts" and inv: "peersInv l" "pending l \<noteq> []" "int (card (active l)) < M"
    and rep: "resultFor (hd (pending l)) t"
  shows "crewFacts M (started l @ [hd (pending l)]) (taken l) (ts @ [t])"
proof -
  let ?p = "hd (pending l)" and ?n = "length (started l)"
  let ?key = "\<lambda>j. addressString ((started l @ [?p]) ! j)"
  have len: "length ts = ?n" and gone: "taken l \<subseteq> {..<?n}" using facts by (auto simp: crewFacts_def)
  have un: "{..<length (started l @ [?p])} - taken l = insert ?n (untaken l)" using gone by (auto simp: untaken_def)
  have img: "?key ` untaken l = active l" "inj_on ?key (untaken l) = inj_on (\<lambda>j. addressString (started l ! j)) (untaken l)"
    using inv(1) unfolding peersInv_def by (auto simp: untaken_def nth_append intro!: image_cong inj_on_cong)
  have inj: "inj_on (\<lambda>j. addressString (started l ! j)) (untaken l)" using facts by (simp add: crewFacts_def untaken_def)
  have q: "addressString ?p \<in> queued l" using inv(1,2) by (auto simp: peersInv_def)
  then have "addressString ?p \<notin> active l" using inv(1) by (auto simp: peersInv_def)
  then have "inj_on ?key (insert ?n (untaken l))"
    using inj img by (simp add: untaken_def)
  moreover have "int (card (insert ?n (untaken l))) \<le> max 0 M"
  proof -
    have "card (active l) = card (untaken l)" using inj inv(1) by (simp add: peersInv_def card_image)
    then show ?thesis using inv(3) by (simp add: untaken_def card_insert_if)
  qed
  moreover have "count_list (map addressString (started l @ [?p])) k \<le> 2" for k
  proof -
    have "attempts l (addressString ?p) < 2" "attempts l = count_list (map addressString (started l))"
      using q inv(1) unfolding peersInv_def by blast+
    then show ?thesis using facts by (auto simp: crewFacts_def)
  qed
  moreover have "\<forall>j<length (started l @ [?p]). resultFor ((started l @ [?p]) ! j) ((ts @ [t]) ! j)"
    using facts rep len by (auto simp: crewFacts_def nth_append less_Suc_eq)
  moreover have "\<forall>j\<in>taken l. ended ((ts @ [t]) ! j)" using facts len gone by (auto simp: crewFacts_def nth_append)
  ultimately show ?thesis using len gone unfolding crewFacts_def un by auto
qed

lemma knows_spawn:
  assumes knows: "knowsApp M (Running L (started l) (taken l) c) (w, ts)"
    and inv: "peersInv l" "pending l \<noteq> []" "int (card (active l)) < M"
  shows "knowsApp M (Running L (started l @ [hd (pending l)]) (taken l) c)
      (w, ts @ [goroutineOf rt cfg meta peerID (hd (pending l)) k])"
proof -
  let ?t = "goroutineOf rt cfg meta peerID (hd (pending l)) k"
  have k: "crewFacts M (started l) (taken l) ts" "swarm.crew L crewPost (w, ts)" "c \<longrightarrow> IsComplete (mgr w)" using knows by auto
  have "wfLayout L" using swarm.crew_valid [OF k(2)] by (rule pieceInv_wfLayout)
  then have "swarm.crew L crewPost (w, ts @ [?t])" 
    by (intro swarm.crew_spawn [where h = Idle] k(2) safe_goroutine) simp_all
  then show ?thesis using k(3) crewFacts_spawn [OF k(1) inv resultFor_goroutine] by simp
qed

lemma works_launchWorker:
  fixes rt :: "'n runtime"
  shows "worksA M (\<lambda>l h. inCharge L c l h \<and> int (card (active l)) < M \<and> pending l \<noteq> [] \<and> length (pending l) \<le> Suc n)
     (launchWorker rt cfg meta peerID) (\<lambda>_ l h. inCharge L c l h \<and> length (pending l) \<le> n) E"
  unfolding launchWorker_def Let_def
proof (rule worksP_get)
  fix l0 :: "'n supervisor" and h0
  assume P: "inCharge L c l0 h0 \<and> int (card (active l0)) < M \<and> pending l0 \<noteq> [] \<and> length (pending l0) \<le> Suc n"
  let ?a = "hd (pending l0)"
  let ?h = "Running L (started l0 @ [?a]) (taken l0) c"
  have "worksA M (\<lambda>l h. l = l0 \<and> h = h0) (setW takePending) (\<lambda>_ l h. l = takePending l0 \<and> h = h0) E"
    by (rule worksP_set) simp
  moreover have "worksA M (\<lambda>l h. l = takePending l0 \<and> h = h0)
      (locked (\<lambda>(w, ts). ((), w, ts @ [goroutineOf rt cfg meta peerID ?a (length (started l0))])))
      (\<lambda>_ l h. l = takePending l0 \<and> h = ?h \<and> taken l0 \<subseteq> {..<length (started l0)}) E"
  proof (rule worksA_locked)
    fix l h and cc :: system and u cc'
    assume h: "l = takePending l0 \<and> h = h0" "knowsApp M h cc"
      "(case cc of (w, ts) \<Rightarrow> ((), w, ts @ [goroutineOf rt cfg meta peerID ?a (length (started l0))])) = (u, cc')"
    obtain w ts where cc: "cc = (w, ts)" by fastforce
    have k: "knowsApp M (Running L (started l0) (taken l0) c) (w, ts)" using h cc P by (simp add: inCharge_def)
    have "knowsApp M ?h cc'" using knows_spawn [OF k, of rt cfg meta peerID "length (started l0)"] P h(3) cc
      by (auto simp: inCharge_def)
    moreover have "taken l0 \<subseteq> {..<length (started l0)}" using k by (simp add: crewFacts_def)
    ultimately show "\<exists>h'. knowsApp M h' cc' \<and> l = takePending l0 \<and> h' = ?h \<and> taken l0 \<subseteq> {..<length (started l0)}"
      using h(1) by blast
  qed
  moreover have "worksA M (\<lambda>l h. l = takePending l0 \<and> h = ?h \<and> taken l0 \<subseteq> {..<length (started l0)})
      (setW (\<lambda>l. l\<lparr>started := started l @ [?a]\<rparr>)) (\<lambda>_ l h. inCharge L c l h \<and> length (pending l) \<le> n) E"
  proof (rule worksP_set)
    fix l h assume a: "l = takePending l0 \<and> h = ?h \<and> taken l0 \<subseteq> {..<length (started l0)}"
    have "started (takePending l0) = started l0" "taken (takePending l0) = taken l0" "pending (takePending l0) = tl (pending l0)"
      by (simp_all add: takePending_def Let_def)
    moreover have "(takePending l0)\<lparr>started := started l0 @ [?a]\<rparr> = launchedOne l0" "started (launchedOne l0) = started l0 @ [?a]"
      "taken (launchedOne l0) = taken l0" "pending (launchedOne l0) = tl (pending l0)"
      by (simp_all add: launchedOne_def takePending_def Let_def)
    ultimately show "inCharge L c (l\<lparr>started := started l @ [?a]\<rparr>) h \<and> length (pending (l\<lparr>started := started l @ [?a]\<rparr>)) \<le> n"
      using a P launchedOne_inv [of l0] by (auto simp: inCharge_def)
  qed
  ultimately show "worksA M (\<lambda>l h. l = l0 \<and> h = h0) (seqW (setW takePending)
      (seqW (locked (\<lambda>(w, ts). ((), w, ts @ [goroutineOf rt cfg meta peerID ?a (length (started l0))])))
        (setW (\<lambda>l. l\<lparr>started := started l @ [?a]\<rparr>)))) (\<lambda>_ l h. inCharge L c l h \<and> length (pending l) \<le> n) E"
    by (intro worksP_seq) simp_all
qed

text \<open>Where the parallelism that was asked for is used: no peer is left waiting, or there is no room, or the torrent is complete.\<close>

definition saturated :: "int \<Rightarrow> layout \<Rightarrow> 'n supervisor \<Rightarrow> phase \<Rightarrow> bool" where
  "saturated M L l h \<longleftrightarrow> (\<exists>c. inCharge L c l h \<and> (pending l = [] \<or> M \<le> int (card (active l)) \<or> c))"

lemma worksA_complete:
  assumes "\<And>l h. P l h \<Longrightarrow> \<exists>c. inCharge L c l h"
    and "\<And>l h c. P l h \<Longrightarrow> inCharge L c l h \<Longrightarrow> Q True l (Running L (started l) (taken l) True)"
    and "\<And>l h. P l h \<Longrightarrow> inCharge L False l h \<Longrightarrow> Q False l h"
  shows "worksA M P (readManager IsComplete) Q E"
  unfolding readManager_def
proof (rule worksA_locked)
  fix l h and cc :: system and r cc'
  assume h: "P l h" "knowsApp M h cc" "(IsComplete (mgr (fst cc)), cc) = (r, cc')"
  obtain c where c: "inCharge L c l h" using assms(1) [OF h(1)] by blast
  obtain w ts where cc: "cc = (w, ts)" by fastforce
  have k: "knowsApp M (Running L (started l) (taken l) c) (w, ts)" and r: "r = IsComplete (mgr w)" "cc' = (w, ts)"
    using h(2,3) c cc by (simp_all add: inCharge_def)
  show "\<exists>h'. knowsApp M h' cc' \<and> Q r l h'"
  proof (cases r)
    case True
    then have "knowsApp M (Running L (started l) (taken l) True) cc'" using k r by simp
    then show ?thesis using assms(2) [OF h(1) c] True by (intro exI conjI) simp_all
  next
    case False
    then have "\<not> c" using k r by simp
    then have "Q False l h" using assms(3) [OF h(1)] c by simp
    then show ?thesis using h(2) r cc False by (intro exI [of _ h]) simp
  qed
qed

lemma inCharge_True: "inCharge L c l h \<Longrightarrow> inCharge L True l (Running L (started l) (taken l) True)"
  by (simp add: inCharge_def)

lemma works_launchLoop:
  fixes rt :: "'n runtime"
  shows "worksA (MaxWorkers cfg) (\<lambda>l h. (\<exists>c. inCharge L c l h) \<and> length (pending l) \<le> n)
     (launchLoop rt cfg meta peerID n) (\<lambda>_. saturated (MaxWorkers cfg) L) E"
proof (induction n)
  case 0
  show ?case unfolding launchLoop.simps by (rule worksP_ret) (auto simp: saturated_def)
next
  case (Suc n)
  let ?M = "MaxWorkers cfg"
  let ?go = "\<lambda>l h. inCharge L False l h \<and> int (card (active l)) < ?M \<and> pending l \<noteq> [] \<and> length (pending l) \<le> Suc n"
  have launch: "worksA ?M ?go (seqW (launchWorker rt cfg meta peerID) (launchLoop rt cfg meta peerID n)) (\<lambda>_. saturated ?M L) E"
    by (rule worksP_seq [OF works_launchWorker]) (rule worksP_conseq [OF Suc.IH], auto)
  show ?case unfolding launchLoop.simps
  proof (rule worksP_get)
    fix l0 :: "'n supervisor" and h0
    assume P: "(\<exists>c. inCharge L c l0 h0) \<and> length (pending l0) \<le> Suc n"
    let ?P = "\<lambda>l h. l = l0 \<and> h = h0"
    have "worksA ?M ?P (bindW (readManager IsComplete) (\<lambda>complete. if complete then retW ()
          else seqW (launchWorker rt cfg meta peerID) (launchLoop rt cfg meta peerID n))) (\<lambda>_. saturated ?M L) E"
      if room: "int (card (active l0)) < ?M" "pending l0 \<noteq> []"
    proof (rule worksP_bind)
      show "worksA ?M ?P (readManager IsComplete)
          (\<lambda>complete l h. if complete then saturated ?M L l h else ?go l h) E"
        by (rule worksA_complete [where L = L]) (use P room in \<open>auto simp: saturated_def intro: inCharge_True\<close>)
      show "worksA ?M (\<lambda>l h. if complete then saturated ?M L l h else ?go l h)
          (if complete then retW () else seqW (launchWorker rt cfg meta peerID) (launchLoop rt cfg meta peerID n))
          (\<lambda>_. saturated ?M L) E" for complete
        using launch by (cases complete) (simp_all add: worksP_ret)
    qed
    moreover have "worksA ?M ?P (retW ()) (\<lambda>_. saturated ?M L) E"
      if "\<not> (int (card (active l0)) < ?M \<and> pending l0 \<noteq> [])"
      by (rule worksP_ret) (use that P in \<open>auto simp: saturated_def\<close>)
    ultimately show "worksA ?M ?P (if int (card (active l0)) < ?M \<and> pending l0 \<noteq> [] then bindW (readManager IsComplete) (\<lambda>complete.
          if complete then retW () else seqW (launchWorker rt cfg meta peerID) (launchLoop rt cfg meta peerID n)) else retW ())
        (\<lambda>_. saturated ?M L) E"
      by (simp split: if_splits)
  qed
qed

lemma works_launchWorkers:
  "worksA (MaxWorkers cfg) (\<lambda>l h. \<exists>c. inCharge L c l h) (launchWorkers rt cfg meta peerID)
     (\<lambda>_. saturated (MaxWorkers cfg) L) E"
  unfolding launchWorkers_def
  by (rule worksP_get, rule worksP_conseq [OF works_launchLoop]) auto

section \<open>Receiving results\<close>

definition receivedOne :: "nat \<Rightarrow> workerResult \<Rightarrow> 'n supervisor \<Rightarrow> 'n supervisor" where
  "receivedOne j x l = l\<lparr>taken := insert j (taken l), active := active l - {addressString (fst x)}\<rparr>"

lemma receivedOne_known:
  assumes inv: "peersInv l" and knows: "knowsApp M (Running L (started l) (taken l) c) (w, ts)"
    and x: "arrived (taken l) j ts = Some x"
  shows "peersInv (receivedOne j x l) \<and> knowsApp M (Running L (started l) (insert j (taken l)) c) (w, ts)"
proof -
  have facts: "crewFacts M (started l) (taken l) ts" using knows by simp
  have j: "j < length ts" "j \<notin> taken l" "ts ! j = Done x" "snd x \<noteq> Inr Waiting"
    using x by (auto simp: arrived_def split: if_splits prog.splits)
  then have jn: "j < length (started l)" "j \<in> untaken l" and a: "fst x = started l ! j"
    using facts by (auto simp: crewFacts_def untaken_def dest: spec [of _ j])
  have inj: "inj_on (\<lambda>j. addressString (started l ! j)) (untaken l)" using facts by (simp add: crewFacts_def untaken_def)
  have un: "{..<length (started l)} - insert j (taken l) = untaken l - {j}" by (auto simp: untaken_def)
  have img: "(\<lambda>j. addressString (started l ! j)) ` (untaken l - {j}) =
      (\<lambda>j. addressString (started l ! j)) ` untaken l - {addressString (started l ! j)}"
    using inj_on_image_set_diff [OF inj, of "untaken l" "{j}"] jn(2) by simp
  have fields: "active (receivedOne j x l) = active l - {addressString (started l ! j)}" "untaken (receivedOne j x l) = untaken l - {j}"
    "started (receivedOne j x l) = started l" "queued (receivedOne j x l) = queued l" "pending (receivedOne j x l) = pending l"
    "attempts (receivedOne j x l) = attempts l"
    using un by (simp_all add: receivedOne_def a untaken_def)
  have "active l - {addressString (started l ! j)} = (\<lambda>j. addressString (started l ! j)) ` (untaken l - {j})"
    using inv img by (simp add: peersInv_def)
  then have "peersInv (receivedOne j x l)" using inv unfolding peersInv_def fields by blast
  moreover have "ended (ts ! j)" using j by (simp add: ended_def)
  moreover have "card (untaken l - {j}) \<le> card (untaken l)" by (rule card_mono) (auto simp: untaken_def)
  moreover have "inj_on (\<lambda>j. addressString (started l ! j)) (untaken l - {j})" using inj by (rule inj_on_subset) auto
  ultimately show ?thesis using knows facts jn(1) un unfolding crewFacts_def
    by (auto simp: crewFacts_def untaken_def)
qed

lemma works_receive:
  fixes l0 :: "'n supervisor"
  assumes "inCharge L c l0 h0"
  shows "worksA M (\<lambda>l h. l = l0 \<and> h = h0) (receiveResult j)
     (\<lambda>r l h. inCharge L c l h \<and> (case r of None \<Rightarrow> l = l0 \<and> h = h0
        | Some x \<Rightarrow> workersCancelled l = workersCancelled l0)) E"
  unfolding receiveResult_def
proof (rule worksP_get, rule worksP_bind)
  fix l1 h1 assume l1: "l1 = l0 \<and> h1 = h0"
  let ?R = "\<lambda>r l h. l = l0 \<and> (case r of None \<Rightarrow> h = h0
      | Some x \<Rightarrow> peersInv (receivedOne j x l0) \<and> h = Running L (started l0) (insert j (taken l0)) c)"
  show "worksA M (\<lambda>l h. l = l1 \<and> h = h1) (locked (\<lambda>c. (arrived (taken l1) j (snd c), c))) ?R E"
  proof (rule worksA_locked)
    fix l h and cc :: system and r cc'
    assume h: "l = l1 \<and> h = h1" "knowsApp M h cc" "(arrived (taken l1) j (snd cc), cc) = (r, cc')"
    obtain w ts where cc: "cc = (w, ts)" by fastforce
    have k: "knowsApp M (Running L (started l0) (taken l0) c) (w, ts)" "peersInv l0" "arrived (taken l0) j ts = r" "cc' = (w, ts)"
      using h l1 cc assms by (auto simp: inCharge_def)
    show "\<exists>h'. knowsApp M h' cc' \<and> ?R r l h'"
    proof (cases r)
      case None
      then show ?thesis using h l1 cc k(4) by (intro exI [of _ h0]) simp
    next
      case (Some x)
      then show ?thesis using receivedOne_known [OF k(2,1)] k(3,4) h(1) l1
        by (intro exI [of _ "Running L (started l0) (insert j (taken l0)) c"]) simp
    qed
  qed
  show "worksA M (?R r) (case r of None \<Rightarrow> retW None | Some x \<Rightarrow> seqW (setW (\<lambda>l. l\<lparr>taken := insert j (taken l),
        active := active l - {addressString (fst x)}\<rparr>)) (retW (Some x)))
      (\<lambda>r l h. inCharge L c l h \<and> (case r of None \<Rightarrow> l = l0 \<and> h = h0 | Some x \<Rightarrow> workersCancelled l = workersCancelled l0)) E" for r
  proof (cases r)
    case None
    show ?thesis unfolding None option.case by (rule worksP_ret) (use assms in simp)
  next
    case (Some x)
    show ?thesis unfolding Some option.case
      by (rule worksP_seq [where R = "\<lambda>l h. inCharge L c l h \<and> workersCancelled l = workersCancelled l0"])
        (rule worksP_set worksP_ret, auto simp: inCharge_def receivedOne_def)+
  qed
qed

lemma inCharge_idle: "inCharge L c l h \<Longrightarrow> active l = {} \<longleftrightarrow> {..<length (started l)} \<subseteq> taken l"
  by (auto simp: inCharge_def peersInv_def untaken_def)

text \<open>After \<open>finishWorkers\<close>: waiting for a result, or every result received.\<close>

definition drained :: "layout \<Rightarrow> bool \<Rightarrow> outcome \<Rightarrow> 'n supervisor \<Rightarrow> phase \<Rightarrow> bool" where
  "drained L c out l h \<longleftrightarrow> inCharge L c l h \<and>
     (case out of Waiting \<Rightarrow> active l \<noteq> {} \<and> workersCancelled l | Returned \<Rightarrow> active l = {})"

lemma works_drain:
  fixes E :: "appError \<Rightarrow> 'n supervisor \<Rightarrow> phase \<Rightarrow> bool"
  shows "worksA M (\<lambda>l h. inCharge L c l h \<and> workersCancelled l) (drainWorkers es) (drained L c) E"
proof (induction es)
  case Nil
  show ?case unfolding drainWorkers.simps
    by (rule worksP_get) (auto simp: drained_def intro!: worksP_ret)
next
  case (Cons e es)
  show ?case unfolding drainWorkers.simps
  proof (rule worksP_get)
    fix l0 :: "'n supervisor" and h0 assume P: "inCharge L c l0 h0 \<and> workersCancelled l0"
    let ?P = "\<lambda>l h. l = l0 \<and> h = h0"
    have skip: "worksA M ?P (drainWorkers es) (drained L c) E"
      by (rule worksP_conseq [OF Cons.IH]) (use P in auto)
    have "worksA M ?P (receiveResult j) (\<lambda>_ l h. inCharge L c l h \<and> workersCancelled l) E" for j
      by (rule worksP_conseq [OF works_receive]) (use P in \<open>auto split: option.splits\<close>)
    then have "worksA M ?P (seqW (receiveResult j) (drainWorkers es)) (drained L c) E" for j
      using Cons.IH by (rule worksP_seq)
    then have "worksA M ?P (case e of ResultArrives j \<Rightarrow> seqW (receiveResult j) (drainWorkers es) | _ \<Rightarrow> drainWorkers es) (drained L c) E"
      using skip by (cases e) simp_all
    moreover have "worksA M ?P (retW Returned) (drained L c) E" if "active l0 = {}"
      by (rule worksP_ret) (use that P in \<open>simp add: drained_def\<close>)
    ultimately show "worksA M ?P (if active l0 = {} then retW Returned else case e of
        ResultArrives j \<Rightarrow> seqW (receiveResult j) (drainWorkers es) | _ \<Rightarrow> drainWorkers es) (drained L c) E"
      by simp
  qed
qed

text \<open>What \<open>downloadTorrent\<close> leaves behind.\<close>

definition downloaded :: "int \<Rightarrow> layout \<Rightarrow> outcome \<Rightarrow> 'n supervisor \<Rightarrow> phase \<Rightarrow> bool" where
  "downloaded M L out l h \<longleftrightarrow> (case out of
     Waiting \<Rightarrow> (\<exists>c. inCharge L c l h) \<and> active l \<noteq> {} \<and> (pending l = [] \<or> M \<le> int (card (active l)) \<or> workersCancelled l)
   | Returned \<Rightarrow> inCharge L True l h \<and> active l = {})"

definition gaveUp :: "layout \<Rightarrow> appError \<Rightarrow> 'n supervisor \<Rightarrow> phase \<Rightarrow> bool" where
  "gaveUp L e l h \<longleftrightarrow> (\<exists>c. inCharge L c l h) \<and> active l = {}"

lemma works_finish:
  fixes after :: "('n, outcome) appAct"
  assumes "worksA M (drained L c Returned) after (downloaded M L) (gaveUp L)"
  shows "worksA M (inCharge L c) (finishWorkers es after) (downloaded M L) (gaveUp L)"
  unfolding finishWorkers_def
proof (rule worksP_seq [OF worksP_set worksP_bind [OF works_drain]])
  show "inCharge L c (l\<lparr>workersCancelled := True\<rparr>) h \<and> workersCancelled (l\<lparr>workersCancelled := True\<rparr>)" if "inCharge L c l h"
    for l :: "'n supervisor" and h using that by simp
  show "worksA M (drained L c out) (case out of Waiting \<Rightarrow> retW Waiting | Returned \<Rightarrow> after) (downloaded M L) (gaveUp L)" for out
    using assms by (cases out) (auto simp: drained_def downloaded_def intro!: worksP_ret)
qed

section \<open>The loop\<close>

definition selecting :: "int \<Rightarrow> layout \<Rightarrow> 'n supervisor \<Rightarrow> phase \<Rightarrow> bool" where
  "selecting M L l h \<longleftrightarrow> (\<exists>c. inCharge L c l h) \<and> active l \<noteq> {} \<and> (pending l = [] \<or> M \<le> int (card (active l)))"

lemma works_head:
  fixes select :: "('n, outcome) appAct"
  assumes select: "worksA M (selecting M L) select (downloaded M L) (gaveUp L)" and "0 < M"
  shows "worksA M (saturated M L) (appHead meta es select) (downloaded M L) (gaveUp L)"
  unfolding appHead_def
proof (rule worksP_bind)
  let ?busy = "\<lambda>(l :: 'n supervisor) h. inCharge L False l h \<and> (pending l = [] \<or> M \<le> int (card (active l)))"
  show "worksA M (saturated M L) (readManager IsComplete) (\<lambda>complete l h. if complete then inCharge L True l h else ?busy l h) (gaveUp L)"
    by (rule worksA_complete [where L = L]) (auto simp: saturated_def inCharge_True, auto simp: inCharge_def)
  have finish: "worksA M (inCharge L True) (finishWorkers es (retW Returned)) (downloaded M L) (gaveUp L)"
    by (rule works_finish, rule worksP_ret) (simp add: drained_def downloaded_def)
  have wait: "worksA M ?busy (getW (\<lambda>l.
         if active l = {} \<and> pending l = [] then failW (PeersExhausted (lastCompleted l) (int (length (Pieces meta))))
         else bindW (readManager Updates) (\<lambda>u. seqW (setW (\<lambda>l. l\<lparr>watchedUpdates := u\<rparr>)) select))) (downloaded M L) (gaveUp L)"
  proof (rule worksP_get)
    fix l0 h0 assume P: "?busy l0 h0"
    have "worksA M (\<lambda>l h. l = l0 \<and> h = h0) (bindW (readManager Updates) (\<lambda>u. seqW (setW (\<lambda>l. l\<lparr>watchedUpdates := u\<rparr>)) select))
        (downloaded M L) (gaveUp L)" if "\<not> (active l0 = {} \<and> pending l0 = [])"
    proof -
      have "active l0 \<noteq> {}" using that P \<open>0 < M\<close> by auto
      then have "selecting M L (l0\<lparr>watchedUpdates := u\<rparr>) h0" for u using P by (auto simp: selecting_def)
      then show ?thesis
        by (intro worksP_bind [OF worksA_read, where R = "\<lambda>_ l h. l = l0 \<and> h = h0"] worksP_seq [OF worksP_set select]) auto
    qed
    moreover have "worksA M (\<lambda>l h. l = l0 \<and> h = h0) (failW (PeersExhausted (lastCompleted l0) (int (length (Pieces meta)))))
        (downloaded M L) (gaveUp L)" if "active l0 = {}"
      by (rule worksP_fail) (use that P in \<open>auto simp: gaveUp_def\<close>)
    ultimately show "worksA M (\<lambda>l h. l = l0 \<and> h = h0) (if active l0 = {} \<and> pending l0 = []
        then failW (PeersExhausted (lastCompleted l0) (int (length (Pieces meta))))
        else bindW (readManager Updates) (\<lambda>u. seqW (setW (\<lambda>l. l\<lparr>watchedUpdates := u\<rparr>)) select)) (downloaded M L) (gaveUp L)"
      by simp
  qed
  show "worksA M (\<lambda>l h. if complete then inCharge L True l h else ?busy l h)
      (if complete then finishWorkers es (retW Returned) else getW (\<lambda>l.
         if active l = {} \<and> pending l = [] then failW (PeersExhausted (lastCompleted l) (int (length (Pieces meta))))
         else bindW (readManager Updates) (\<lambda>u. seqW (setW (\<lambda>l. l\<lparr>watchedUpdates := u\<rparr>)) select))) (downloaded M L) (gaveUp L)"
    for complete using finish wait by (cases complete) simp_all
qed

lemma worksP_ex: "(\<And>c. worksP valid holds G (P c) m Q E) \<Longrightarrow> worksP valid holds G (\<lambda>l h. \<exists>c. P c l h) m Q E"
  by (auto simp: worksP_def)

text \<open>A choice on the variables.\<close>

lemma worksP_choice:
  assumes "worksP valid holds G P m Q E" "worksP valid holds G P n Q E"
  shows "worksP valid holds G P (getW (\<lambda>l. if c l then m else n)) Q E"
proof (rule worksP_get)
  fix l0 h0 assume P: "P l0 h0"
  show "worksP valid holds G (\<lambda>l h. l = l0 \<and> h = h0) (if c l0 then m else n) Q E"
    by (rule worksP_if) (rule worksP_conseq [OF assms(1)], use P in simp_all, rule worksP_conseq [OF assms(2)], use P in simp_all)
qed

lemma works_cancel:
  fixes after :: "('n, outcome) appAct"
  assumes "\<And>c. worksA M (drained L c Returned) after (downloaded M L) (gaveUp L)"
  shows "worksA M (selecting M L) (finishWorkers es after) (downloaded M L) (gaveUp L)"
proof (rule worksP_conseq)
  show "worksA M (\<lambda>l h. \<exists>c. inCharge L c l h) (finishWorkers es after) (downloaded M L) (gaveUp L)"
    by (rule worksP_ex) (rule works_finish [OF assms])
qed (simp_all add: selecting_def)

lemma works_idle:
  "worksA M (drained L c Returned) (bindW (readManager IsComplete) (\<lambda>complete.
     if complete then retW Returned else failW e)) (downloaded M L) (gaveUp L)"
proof (rule worksP_bind)
  let ?R = "\<lambda>complete (l :: 'n supervisor) h. active l = {} \<and> (if complete then inCharge L True l h else inCharge L False l h)"
  show "worksA M (drained L c Returned) (readManager IsComplete) ?R (gaveUp L)"
    by (rule worksA_complete [where L = L]) (auto simp: drained_def inCharge_True)
  show "worksA M (?R complete) (if complete then retW Returned else failW e) (downloaded M L) (gaveUp L)" for complete
    by (cases complete) (auto simp: downloaded_def gaveUp_def intro!: worksP_ret worksP_fail)
qed

text \<open>A case of the \<open>select\<close>: saturated again when it was ready, otherwise nothing has changed.\<close>

definition handled :: "int \<Rightarrow> layout \<Rightarrow> bool \<Rightarrow> 'n supervisor \<Rightarrow> phase \<Rightarrow> bool" where
  "handled M L ready l h \<longleftrightarrow> (if ready then saturated M L l h else selecting M L l h)"

lemma handled_simps: "handled M L True = saturated M L" "handled M L False = selecting M L"
  by (intro ext, simp add: handled_def)+

lemma selecting_upd [simp]:
  "selecting M L (l\<lparr>reannounceTimer := t\<rparr>) h = selecting M L l h" "selecting M L (l\<lparr>idleTimer := t\<rparr>) h = selecting M L l h"
  by (simp_all add: selecting_def)

lemma saturated_upd [simp]:
  "saturated M L (l\<lparr>reannounceTimer := ts\<rparr>) h = saturated M L l h"
  "saturated M L (l\<lparr>idleTimer := ts, lastCompleted := n\<rparr>) h = saturated M L l h"
  by (simp_all add: saturated_def)

lemma works_relaunch:
  fixes rt :: "'n runtime"
  assumes "M = MaxWorkers cfg"
  shows "worksA M (\<lambda>l h. \<exists>c. inCharge L c l h) (seqW (launchWorkers rt cfg meta peerID) (retW True)) (handled M L) E"
  unfolding assms by (rule worksP_seq [OF works_launchWorkers worksP_ret]) (simp add: handled_def)

lemma works_updatesCase:
  fixes rt :: "'n runtime"
  assumes "M = MaxWorkers cfg"
  shows "worksA M (selecting M L) (updatesCase rt cfg meta peerID) (handled M L) E"
  unfolding updatesCase_def
proof (rule worksP_bind [OF worksA_read, where R = "\<lambda>_. selecting M L"])
  fix now
  let ?set = "\<lambda>(progress :: int \<times> int) (l :: 'n supervisor). if fst progress > lastCompleted l
    then l\<lparr>lastCompleted := fst progress, idleTimer := resetTimer (idleTimer l) (NoProgressLimit cfg)\<rparr> else l"
  have ready: "worksA M (selecting M L) (bindW (readManager Progress) (\<lambda>progress. seqW (setW (?set progress))
      (seqW (launchWorkers rt cfg meta peerID) (retW True)))) (handled M L) E"
  proof (rule worksP_bind [OF worksA_read worksP_seq [OF worksP_set works_relaunch [OF assms]]])
    show "selecting M L l h" if "selecting M L l h" for l :: "'n supervisor" and h using that .
    show "\<exists>c. inCharge L c (?set x l) h" if "selecting M L l h" for x :: "int \<times> int" and l and h using that by (simp add: selecting_def)
  qed
  show "worksA M (selecting M L) (getW (\<lambda>l. if now = watchedUpdates l then retW False
       else bindW (readManager Progress) (\<lambda>progress. seqW (setW (?set progress))
          (seqW (launchWorkers rt cfg meta peerID) (retW True))))) (handled M L) E"
  proof (rule worksP_get)
    fix l0 :: "'n supervisor" and h0 assume P: "selecting M L l0 h0"
    have "worksA M (\<lambda>l h. l = l0 \<and> h = h0) (retW False) (handled M L) E" by (rule worksP_ret) (use P in \<open>simp add: handled_def\<close>)
    moreover have "worksA M (\<lambda>l h. l = l0 \<and> h = h0) (bindW (readManager Progress) (\<lambda>progress. seqW (setW (?set progress))
      (seqW (launchWorkers rt cfg meta peerID) (retW True)))) (handled M L) E"
      by (rule worksP_conseq [OF ready]) (use P in auto)
    ultimately show "worksA M (\<lambda>l h. l = l0 \<and> h = h0) (if now = watchedUpdates l0 then retW False
       else bindW (readManager Progress) (\<lambda>progress. seqW (setW (?set progress))
          (seqW (launchWorkers rt cfg meta peerID) (retW True)))) (handled M L) E" by simp
  qed
qed

lemma works_resultCase:
  fixes rt :: "'n runtime"
  assumes "M = MaxWorkers cfg"
  shows "worksA M (selecting M L) (resultCase rt cfg meta peerID j) (handled M L) E"
  unfolding worksP_def
proof (intro allI impI)
  fix l0 :: "'n supervisor" and h0 assume P: "selecting M L l0 h0"
  then obtain c where c: "inCharge L c l0 h0" by (auto simp: selecting_def)
  let ?R = "\<lambda>r l h. inCharge L c l h \<and> (r = None \<longrightarrow> l = l0 \<and> h = h0)"
  have "worksA M (\<lambda>l h. l = l0 \<and> h = h0) (resultCase rt cfg meta peerID j) (handled M L) E"
    unfolding resultCase_def
  proof (rule worksP_bind)
    show "worksA M (\<lambda>l h. l = l0 \<and> h = h0) (receiveResult j) ?R E"
      by (rule worksP_conseq [OF works_receive [OF c]]) (auto split: option.splits)
    show "worksA M (?R r) (case r of None \<Rightarrow> retW False | Some _ \<Rightarrow> seqW (launchWorkers rt cfg meta peerID) (retW True)) (handled M L) E"
      for r
    proof (cases r)
      case None
      show ?thesis unfolding None option.case by (rule worksP_ret) (use P in \<open>auto simp: handled_def\<close>)
    next
      case (Some x)
      show ?thesis unfolding Some option.case by (rule worksP_conseq [OF works_relaunch [OF assms]]) auto
    qed
  qed
  then show "safeP (\<lambda>_. True) (knowsApp M) (\<lambda>_ _ _ _. True) (postW (handled M L) E) (resultCase rt cfg meta peerID j l0) h0"
    by (simp add: worksP_def)
qed

lemma works_announce:
  "(\<And>l h x. P l h \<Longrightarrow> R (l\<lparr>trackers := x\<rparr>) h) \<Longrightarrow> worksA M P (announceApp rt meta peerID opts) (\<lambda>_. R) E"
  by (simp add: worksP_def announceApp_def split: prod.splits)

lemma works_reannounceCase:
  fixes rt :: "'n runtime"
  assumes "M = MaxWorkers cfg"
  shows "worksA M (selecting M L) (reannounceCase rt cfg meta peerID) (handled M L) E"
  unfolding reannounceCase_def
proof (rule worksP_choice [OF worksP_ret worksP_seq [OF worksP_set worksP_bind [OF worksA_read worksP_bind [OF works_announce]]]])
  show "handled M L False l h" if "selecting M L l h" for l :: "'n supervisor" and h using that by (simp add: handled_def)
  show "selecting M L (l\<lparr>reannounceTimer := (reannounceTimer l)\<lparr>tick := False\<rparr>\<rparr>) h" if "selecting M L l h"
    for l :: "'n supervisor" and h using that by simp
  show "selecting M L l h" if "selecting M L l h" for l :: "'n supervisor" and h using that .
  show "selecting M L (l\<lparr>trackers := x\<rparr>) h" if "selecting M L l h" for l :: "'n supervisor" and h x
    using that by (simp add: selecting_def)
  have failed: "worksA M (selecting M L) (seqW (setW (\<lambda>l. l\<lparr>reannounceTimer := resetTimer (reannounceTimer l) (30 * second)\<rparr>)) (retW True))
      (handled M L) E"
    by (rule worksP_seq [OF worksP_set worksP_ret, where R = "saturated M L"]) (auto simp: selecting_def saturated_def handled_def)
  have updated: "worksA M (selecting M L) (seqW (setW (addPeers (Peers updated))) (seqW (launchWorkers rt cfg meta peerID)
      (seqW (setW (\<lambda>l. l\<lparr>reannounceTimer := resetTimer (reannounceTimer l) (i64 (Interval updated * second))\<rparr>)) (retW True)))) (handled M L) E"
    for updated
  proof (rule worksP_seq [OF worksP_set worksP_seq [OF works_launchWorkers [of cfg, folded assms] worksP_seq [OF worksP_set worksP_ret]]])
    show "\<exists>c. inCharge L c (addPeers (Peers updated) l) h" if "selecting M L l h" for l :: "'n supervisor" and h
      using that by (auto simp: selecting_def intro: addPeers_inCharge)
    show "saturated M L (l\<lparr>reannounceTimer := resetTimer (reannounceTimer l) (i64 (Interval updated * second))\<rparr>) h" if "saturated M L l h"
      for l :: "'n supervisor" and h using that by simp
    show "handled M L True l h" if "saturated M L l h" for l :: "'n supervisor" and h using that by (simp add: handled_def)
  qed
  show "worksA M (selecting M L) (case r of
       Inl e \<Rightarrow> seqW (setW (\<lambda>l. l\<lparr>reannounceTimer := resetTimer (reannounceTimer l) (30 * second)\<rparr>)) (retW True)
     | Inr updated \<Rightarrow> seqW (setW (addPeers (Peers updated))) (seqW (launchWorkers rt cfg meta peerID)
        (seqW (setW (\<lambda>l. l\<lparr>reannounceTimer := resetTimer (reannounceTimer l) (i64 (Interval updated * second))\<rparr>)) (retW True)))) (handled M L) E" for r
    using failed updated by (cases r) simp_all
qed

lemma works_downloadLoop:
  fixes rt :: "'n runtime"
  assumes M: "M = MaxWorkers cfg" "0 < M"
  shows "worksA M (selecting M L) (downloadLoop rt cfg meta peerID es) (downloaded M L) (gaveUp L)"
proof (induction es)
  case Nil
  show ?case unfolding downloadLoop.simps by (rule worksP_ret) (auto simp: selecting_def downloaded_def)
next
  case (Cons e es)
  let ?select = "downloadLoop rt cfg meta peerID es"
  have again: "worksA M (selecting M L) (bindW m (\<lambda>ready. if ready then appHead meta es ?select else ?select))
      (downloaded M L) (gaveUp L)" if m: "worksA M (selecting M L) m (handled M L) (gaveUp L)" for m
  proof (rule worksP_bind [OF m])
    show "worksA M (handled M L ready) (if ready then appHead meta es ?select else ?select) (downloaded M L) (gaveUp L)" for ready
      using works_head [OF Cons.IH M(2)] Cons.IH by (cases ready) (simp_all add: handled_simps)
  qed
  show ?case
  proof (cases e)
    case ContextCancelled
    have "worksA M (drained L c Returned) (failW AppContextDone) (downloaded M L) (gaveUp L)" for c
      by (rule worksP_fail) (auto simp: drained_def gaveUp_def)
    then show ?thesis unfolding downloadLoop.simps Let_def ContextCancelled appEvent.case by (rule works_cancel)
  next
    case IdleExpires
    show ?thesis unfolding downloadLoop.simps Let_def IdleExpires appEvent.case by (rule worksP_seq [OF worksP_set Cons.IH]) simp
  next
    case IdleElapsed
    show ?thesis unfolding downloadLoop.simps Let_def IdleElapsed appEvent.case
      by (rule worksP_choice [OF Cons.IH works_cancel [OF works_idle]])
  next
    case UpdatesClosed
    show ?thesis unfolding downloadLoop.simps Let_def UpdatesClosed appEvent.case by (rule again [OF works_updatesCase [OF M(1)]])
  next
    case (ResultArrives j)
    show ?thesis unfolding downloadLoop.simps Let_def ResultArrives appEvent.case by (rule again [OF works_resultCase [OF M(1)]])
  next
    case ReannounceExpires
    show ?thesis unfolding downloadLoop.simps Let_def ReannounceExpires appEvent.case by (rule worksP_seq [OF worksP_set Cons.IH]) simp
  next
    case ReannounceElapsed
    show ?thesis unfolding downloadLoop.simps Let_def ReannounceElapsed appEvent.case by (rule again [OF works_reannounceCase [OF M(1)]])
  qed
qed

lemma works_downloadTorrent:
  fixes rt :: "'n runtime"
  assumes M: "M = MaxWorkers cfg" "0 < M"
  shows "worksA M (\<lambda>l h. \<exists>c. inCharge L c l h \<and> active l = {}) (downloadTorrent rt cfg meta peerID es) (downloaded M L) (gaveUp L)"
  unfolding downloadTorrent_def
proof (rule worksP_bind [OF worksA_read worksP_bind [OF worksA_read worksP_bind [OF works_announce]]])
  let ?I = "\<lambda>(l :: 'n supervisor) h. \<exists>c. inCharge L c l h \<and> active l = {}"
  show "?I l h" if "?I l h" for l :: "'n supervisor" and h using that .
  show "?I l h" if "?I l h" for l :: "'n supervisor" and h using that .
  show "?I (l\<lparr>trackers := x\<rparr>) h" if "?I l h" for l :: "'n supervisor" and h x using that by simp
  fix progress :: "int \<times> int" and r :: "trackerError + AnnounceResponse"
  show "worksA M ?I (case r of Inl e \<Rightarrow> failW (AnnounceFailed e)
     | Inr response \<Rightarrow> if Peers response = [] then failW TrackerHasNoPeers
         else seqW (setW (addPeers (Peers response))) (seqW (launchWorkers rt cfg meta peerID)
          (seqW (setW (\<lambda>l. l\<lparr>reannounceTimer := NewTimer (i64 (Interval response * second)), idleTimer := NewTimer (NoProgressLimit cfg),
              lastCompleted := fst progress\<rparr>))
           (appHead meta es (downloadLoop rt cfg meta peerID es))))) (downloaded M L) (gaveUp L)"
  proof (cases r)
    case (Inl e)
    show ?thesis unfolding Inl sum.case by (rule worksP_fail) (auto simp: gaveUp_def)
  next
    case (Inr response)
    have "worksA M ?I (failW TrackerHasNoPeers) (downloaded M L) (gaveUp L)" by (rule worksP_fail) (auto simp: gaveUp_def)
    moreover have "worksA M ?I (seqW (setW (addPeers (Peers response))) (seqW (launchWorkers rt cfg meta peerID)
          (seqW (setW (\<lambda>l. l\<lparr>reannounceTimer := NewTimer (i64 (Interval response * second)), idleTimer := NewTimer (NoProgressLimit cfg),
              lastCompleted := fst progress\<rparr>))
           (appHead meta es (downloadLoop rt cfg meta peerID es))))) (downloaded M L) (gaveUp L)"
    proof (rule worksP_seq [OF worksP_set worksP_seq [OF works_launchWorkers [of cfg, folded M(1)]
          worksP_seq [OF worksP_set works_head [OF works_downloadLoop [OF M] M(2)]]]])
      show "\<exists>c. inCharge L c (addPeers (Peers response) l) h" if "?I l h" for l :: "'n supervisor" and h
        using that by (auto intro: addPeers_inCharge)
      show "saturated M L (l\<lparr>reannounceTimer := NewTimer (i64 (Interval response * second)), idleTimer := NewTimer (NoProgressLimit cfg),
          lastCompleted := fst progress\<rparr>) h" if "saturated M L l h" for l :: "'n supervisor" and h
        using that by (simp add: saturated_def)
    qed
    ultimately show ?thesis unfolding Inr sum.case by simp
  qed
qed

end
