(* ===== verification/AppSpec.thy ===== *)
theory AppSpec
  imports AppTriples
begin

text \<open>
  The whole program. Opening the storage and restoring pieces happens while the supervisor is alone; then it
  is in charge of goroutines; when it returns, all of them have ended, and after a success the files of the
  torrent stand below the completed path.
\<close>

section \<open>Before and after the download\<close>

definition openedStore :: "TorrentMeta \<Rightarrow> bytes \<Rightarrow> Storage \<Rightarrow> bool" where
  "openedStore meta dir st \<longleftrightarrow> storageTotal st = Length meta \<and>
     CompletedPath st = below (completedDir dir) [Name meta] \<and>
     map spanPath (spans st) = map (\<lambda>f. below (InProgressPath st) (filePath f)) (torrentFiles meta)"

definition openedWorld :: "TorrentMeta \<Rightarrow> bytes \<Rightarrow> world \<Rightarrow> bool" where
  "openedWorld meta dir w \<longleftrightarrow> (\<exists>st. openedStore meta dir st \<and> wfStorage (disk w) st \<and> mgr w = NewPieceManager meta st)"

definition openedLayout :: "TorrentMeta \<Rightarrow> bytes \<Rightarrow> layout \<Rightarrow> bool" where
  "openedLayout meta dir L \<longleftrightarrow> (\<exists>st. openedStore meta dir st \<and> L = layout (NewPieceManager meta st))"

text \<open>The torrent below the completed path: its files in order, with its length and the hash of every piece.\<close>

definition deliveredBytes :: "TorrentMeta \<Rightarrow> bytes \<Rightarrow> os \<Rightarrow> bytes" where
  "deliveredBytes meta dir d =
     concat (map (\<lambda>f. fileData d (below (below (completedDir dir) [Name meta]) (filePath f))) (torrentFiles meta))"

definition pieceOf :: "TorrentMeta \<Rightarrow> bytes \<Rightarrow> nat \<Rightarrow> bytes" where
  "pieceOf meta content i = take (nat (PieceLength meta)) (drop (i * nat (PieceLength meta)) content)"

definition contentOf :: "TorrentMeta \<Rightarrow> bytes \<Rightarrow> bool" where
  "contentOf meta content \<longleftrightarrow> int (length content) = Length meta \<and>
     (\<forall>i<length (Pieces meta). sha1 (pieceOf meta content i) = Pieces meta ! i)"

definition delivered :: "TorrentMeta \<Rightarrow> bytes \<Rightarrow> os \<Rightarrow> bool" where
  "delivered meta dir d \<longleftrightarrow> contentOf meta (deliveredBytes meta dir d)"

lemma openWorld_opens:
  assumes "metaWf u meta" "openWorld u meta dir w = (Inr (), w')"
  shows "openedWorld meta dir w'"
proof -
  obtain r d where run: "NewStorageAt u (Some meta) dir (disk w) = (r, d)" by fastforce
  then obtain st where r: "r = Inr st" and w': "w' = w\<lparr>disk := d, mgr := NewPieceManager meta st\<rparr>"
    using assms(2) by (cases r) (auto simp: openWorld_def)
  from NewStorageAt_effect [OF assms(1) run [unfolded r]] show ?thesis unfolding openedWorld_def openedStore_def
    by (intro exI [of _ st]) (simp add: w' laidOut_def)
qed

lemma openedWorld_inv:
  assumes "metaWf u meta" "openedWorld meta dir w"
  shows "managerInv w \<and> openedLayout meta dir (layout (mgr w)) \<and> (\<forall>i<numPieces (mgr w). stateAt (mgr w) i = PieceMissing)"
proof -
  obtain st where st: "openedStore meta dir st" "wfStorage (disk w) st" "mgr w = NewPieceManager meta st"
    using assms(2) by (auto simp: openedWorld_def)
  have "geometry (NewPieceManager meta st)" using newPiece_geometry [OF assms(1)] st(1) by (simp add: openedStore_def)
  moreover have miss: "\<forall>i<numPieces (mgr w). stateAt (mgr w) i = PieceMissing"
    by (simp add: st(3) numPieces_def stateAt_def NewPieceManager_def newPiece_def)
  moreover have "storage (mgr w) = st" by (simp add: st(3) NewPieceManager_def)
  ultimately show ?thesis using st by (auto simp: managerInv_def openedLayout_def)
qed

lemma restored_idle:
  assumes "metaWf u meta" "openedWorld meta dir w" "RestoreExisting w = (Inr (), w')"
  shows "managerInv w' \<and> busy w' = {} \<and> openedLayout meta dir (layout (mgr w'))"
proof -
  note o = openedWorld_inv [OF assms(1,2)]
  from o have inv: "managerInv w" by simp
  note r = RestoreExisting_effect [OF inv assms(3)]
  then have n: "numPieces (mgr w') = numPieces (mgr w)" by (intro layout_eq(3)) simp
  have states: "stateAt (mgr w') i \<in> {PieceMissing, PieceComplete}" if "i < numPieces (mgr w)" for i
    using r o that by simp
  have "busy w' = {}" unfolding busy_def n using states by force
  then show ?thesis using r o by simp
qed

lemma restored_crew:
  assumes "managerInv w" "busy w = {}"
  shows "swarm.crew (layout (mgr w)) crewPost (w, [])"
  by (rule swarm.crew_start [where h = Idle]) (use assms in \<open>simp_all add: pieceInv_def\<close>)

text \<open>After a successful \<open>Finalize\<close> the pieces of the delivered bytes are the pieces of the storage.\<close>

lemma finalized_pieces:
  assumes wf: "metaWf u meta" and L: "openedLayout meta dir L" and inv: "pieceInv L w" and run: "Finalize w = (Inr (), w')"
  shows "IsComplete (mgr w) \<and> int (length (deliveredBytes meta dir (disk w'))) = Length meta \<and>
    numPieces (mgr w) = length (Pieces meta) \<and> (\<forall>i<length (Pieces meta).
      pieceOf meta (deliveredBytes meta dir (disk w')) i = pieceData w i \<and> Hash (pieces (mgr w) ! i) = Pieces meta ! i)"
proof -
  obtain st where st: "openedStore meta dir st" "layout (mgr w) = layout (NewPieceManager meta st)" "managerInv w"
    using L inv by (auto simp: openedLayout_def pieceInv_def)
  let ?out = "deliveredBytes meta dir (disk w')"
  have s: "storage (mgr w) = st" "numPieces (mgr w) = length (Pieces meta)" "standardPieceLength (mgr w) = PieceLength meta"
    using layout_eq(1,2,3) [OF st(2)] by (simp_all add: NewPieceManager_def numPieces_def)
  have g: "geometry (mgr w)" using st(3) by (simp add: managerInv_def)
  have "map spanPath (spans (storage (mgr w))) =
      map (below (InProgressPath (storage (mgr w)))) (map filePath (torrentFiles meta))"
    using st(1) by (simp add: s openedStore_def)
  from Finalize_bytes [OF run this] have f: "IsComplete (mgr w)" "?out = storeBytes (disk w) st"
    using st(1) by (simp_all add: s openedStore_def deliveredBytes_def comp_def)
  have len: "int (length ?out) = Length meta"
    using length_storeBytes [of "disk w" st] st(1,3) by (simp add: f(2) managerInv_def s openedStore_def)
  have "pieceOf meta ?out i = pieceData w i \<and> Hash (pieces (mgr w) ! i) = Pieces meta ! i" if i: "i < length (Pieces meta)" for i
  proof -
    have off: "nat (pieceOff (mgr w) i) = i * nat (PieceLength meta)" using g by (simp add: pieceOff_def s geometry_def nat_mult_distrib)
    have pl: "pieceLen (pieces (mgr w) ! i) = min (PieceLength meta) (Length meta - int i * PieceLength meta)"
      using g i st(1) by (simp add: geometry_def s openedStore_def)
    have "0 < PieceLength meta" using g by (simp add: geometry_def s)
    then have "nat (Length meta - int i * PieceLength meta) = length (drop (i * nat (PieceLength meta)) ?out)"
      using len by (simp add: nat_diff_distrib' flip: len) (simp add: nat_mult_distrib)
    then have "pieceData w i = pieceOf meta ?out i"
      unfolding pieceData_def pieceOf_def sliceOf_def off pl s(1) f(2) by (simp add: min_def nat_le_iff)
    moreover have "Hash (pieces (mgr w) ! i) = Pieces meta ! i"
      using layout_eq(7) [OF st(2), of i] i s(2) by (simp add: NewPieceManager_def newPiece_def)
    ultimately show ?thesis by simp
  qed
  then show ?thesis using f(1) len s(2) by blast
qed

lemma finalized:
  assumes "metaWf u meta" "openedLayout meta dir L" "pieceInv L w" "Finalize w = (Inr (), w')"
  shows "delivered meta dir (disk w')"
proof -
  note f = finalized_pieces [OF assms]
  have "\<forall>i<numPieces (mgr w). sha1 (pieceData w i) = Hash (pieces (mgr w) ! i)"
    using assms(3) f by (auto simp: pieceInv_def managerInv_def IsComplete_iff)
  then show ?thesis using f by (simp add: delivered_def contentOf_def)
qed

section \<open>\<open>run\<close>\<close>

lemma works_section:
  assumes "\<And>l h w ts r w'. P l h \<Longrightarrow> knowsApp M h (w, ts) \<Longrightarrow> m w = (r, w') \<Longrightarrow>
    \<exists>h'. knowsApp M h' (w', ts) \<and> (case r of Inl e \<Rightarrow> E (wrap e) l h' | Inr x \<Rightarrow> Q x l h')"
  shows "worksA M P (sectionApp m wrap) Q E"
  unfolding sectionApp_def
proof (rule worksP_bind)
  show "worksA M P (locked (\<lambda>(w, ts). case m w of (r, w') \<Rightarrow> (r, w', ts)))
      (\<lambda>r l h. case r of Inl e \<Rightarrow> E (wrap e) l h | Inr x \<Rightarrow> Q x l h) E"
  proof (rule worksA_locked)
    fix l h and c :: system and r c'
    assume h: "P l h" "knowsApp M h c" "(case c of (w, ts) \<Rightarrow> case m w of (r, w') \<Rightarrow> (r, w', ts)) = (r, c')"
    obtain w ts w' where c: "c = (w, ts)" "m w = (r, w')" "c' = (w', ts)" using h(3) by (auto split: prod.splits)
    show "\<exists>h'. knowsApp M h' c' \<and> (case r of Inl e \<Rightarrow> E (wrap e) l h' | Inr x \<Rightarrow> Q x l h')"
      using assms [OF h(1) _ c(2)] h(2) c by simp
  qed
  show "worksA M (\<lambda>l h. case r of Inl e \<Rightarrow> E (wrap e) l h | Inr x \<Rightarrow> Q x l h) (checkW wrap r) Q E" for r
    by (cases r) (simp_all add: worksP_def checkW_def)
qed

fun allGone :: "phase \<Rightarrow> bool" where
  "allGone (Alone P peers) \<longleftrightarrow> True"
| "allGone (Running L peers gone c) \<longleftrightarrow> {..<length peers} \<subseteq> gone"

lemma inCharge_gone: "inCharge L c l h \<Longrightarrow> active l = {} \<Longrightarrow> allGone h"
  using inCharge_idle [of L c l h] by (auto simp: inCharge_def)

lemma knows_gone:
  assumes "knowsApp M (Running L peers gone c) (w, ts)" "{..<length peers} \<subseteq> gone" "P w'"
  shows "knowsApp M (Alone P peers) (w', ts)"
proof -
  have "gone = {..<length peers}" using assms by (auto simp: crewFacts_def)
  then show ?thesis using assms by simp
qed

text \<open>The end of the download, before the storage is closed.\<close>

definition finished :: "int \<Rightarrow> TorrentMeta \<Rightarrow> bytes \<Rightarrow> outcome \<Rightarrow> 'n supervisor \<Rightarrow> phase \<Rightarrow> bool" where
  "finished M meta dir out l h \<longleftrightarrow> (case out of
     Waiting \<Rightarrow> \<exists>L. downloaded M L Waiting l h
   | Returned \<Rightarrow> \<exists>peers. h = Alone (\<lambda>w. delivered meta dir (disk w)) peers)"

lemma works_finalize:
  fixes rt :: "'n runtime"
  assumes wf: "metaWf u meta" and L: "openedLayout meta dir L"
  shows "worksA M (downloaded M L out) (case out of Waiting \<Rightarrow> retW Waiting
     | Returned \<Rightarrow> seqW (sectionApp Finalize FinalizeFailed) (seqW (announceApp rt meta peerID opts) (retW Returned)))
     (finished M meta dir) (\<lambda>e l. allGone)"
proof (cases out)
  case Waiting
  show ?thesis unfolding Waiting outcome.case
    by (rule worksP_ret, unfold finished_def outcome.case) (rule exI)
next
  case Returned
  let ?final = "\<lambda>(l :: 'n supervisor) h. \<exists>peers. h = Alone (\<lambda>w. delivered meta dir (disk w)) peers"
  have "worksA M (downloaded M L Returned) (sectionApp Finalize FinalizeFailed) (\<lambda>_. ?final) (\<lambda>e l. allGone)"
  proof (rule works_section)
    fix l :: "'n supervisor" and h w ts r w'
    assume h: "downloaded M L Returned l h" "knowsApp M h (w, ts)" "Finalize w = (r, w')"
    then have k: "knowsApp M (Running L (started l) (taken l) True) (w, ts)" "{..<length (started l)} \<subseteq> taken l"
      using inCharge_idle [of L True l h] by (auto simp: downloaded_def inCharge_def)
    have inv: "pieceInv L w" using k(1) swarm.crew_valid [of L crewPost w ts] by simp
    have gone: "knowsApp M (Alone P (started l)) (w', ts)" if "P w'" for P
      by (rule knows_gone [OF k, where P = P]) (rule that)
    show "\<exists>h'. knowsApp M h' (w', ts) \<and> (case r of Inl e \<Rightarrow> allGone h' | Inr x \<Rightarrow> ?final l h')"
    proof (cases r)
      case (Inl e)
      then show ?thesis using gone [of "\<lambda>_. True"] by (intro exI [of _ "Alone (\<lambda>_. True) (started l)"]) simp
    next
      case (Inr x)
      then have "delivered meta dir (disk w')" using finalized [OF wf L inv] h(3) by simp
      from gone [of "\<lambda>w. delivered meta dir (disk w)", OF this] show ?thesis using Inr
        by (intro exI [of _ "Alone (\<lambda>w. delivered meta dir (disk w)) (started l)"]) auto
    qed
  qed
  moreover have "worksA M ?final (seqW (announceApp rt meta peerID opts) (retW Returned)) (finished M meta dir) (\<lambda>e l. allGone)"
    by (rule worksP_seq [OF works_announce worksP_ret, where R = ?final]) (auto simp: finished_def)
  ultimately show ?thesis unfolding Returned outcome.case by (rule worksP_seq)
qed

lemma works_restore:
  fixes n :: 'n
  assumes wf: "metaWf u meta"
  shows "worksA M (\<lambda>l h. l = newSupervisor n \<and> h = Alone (openedWorld meta dir) []) (sectionApp RestoreExisting RestoreFailed)
      (\<lambda>_ l h. \<exists>L. openedLayout meta dir L \<and> inCharge L False l h \<and> active l = {}) (\<lambda>e l. allGone)"
proof (rule works_section)
  fix l :: "'n supervisor" and h w ts r w'
  assume h: "l = newSupervisor n \<and> h = Alone (openedWorld meta dir) []" "knowsApp M h (w, ts)" "RestoreExisting w = (r, w')"
  then have ts: "ts = []" "openedWorld meta dir w" by (simp_all add: crewFacts_def)
  have new: "peersInv (newSupervisor n)" by (simp add: newSupervisor_def peersInv_def untaken_def)
  let ?in = "\<lambda>L h. openedLayout meta dir L \<and> inCharge L False l h \<and> active l = {}"
  show "\<exists>h'. knowsApp M h' (w', ts) \<and> (case r of Inl e \<Rightarrow> allGone h' | Inr x \<Rightarrow> \<exists>L. ?in L h')"
  proof (cases r)
    case (Inl e)
    then show ?thesis by (intro exI [of _ "Alone (\<lambda>_. True) []"]) (simp add: ts crewFacts_def)
  next
    case (Inr x)
    have w': "managerInv w'" "busy w' = {}" "openedLayout meta dir (layout (mgr w'))"
      using restored_idle [OF wf ts(2)] h(3) Inr by auto
    let ?h = "Running (layout (mgr w')) [] {} False"
    have "knowsApp M ?h (w', ts)" using restored_crew [OF w'(1,2)] by (simp add: ts(1) crewFacts_def)
    moreover have "?in (layout (mgr w')) ?h" using w'(3) new h(1) by (simp add: inCharge_def) (simp add: newSupervisor_def)
    ultimately show ?thesis unfolding Inr sum.case by blast
  qed
qed

lemma works_runDownload:
  fixes rt :: "'n runtime"
  assumes wf: "metaWf u meta" and M: "M = MaxWorkers cfg" "0 < M"
  shows "worksA M (\<lambda>l h. l = newSupervisor n \<and> h = Alone (openedWorld meta dir) []) (runDownload rt cfg meta peerID es)
     (finished M meta dir) (\<lambda>e l. allGone)"
  unfolding runDownload_def
proof (rule worksP_seq [OF works_restore [OF wf]], rule worksP_ex, goal_cases)
  case (1 L)
  let ?in = "\<lambda>c (l :: 'n supervisor) h. openedLayout meta dir L \<and> inCharge L c l h \<and> active l = {}"
  show ?case
  proof (cases "openedLayout meta dir L")
    case True
    have read: "worksA M (?in False) (readManager IsComplete) (\<lambda>complete. ?in complete) (\<lambda>e l. allGone)"
      by (rule worksA_complete [where L = L]) (auto simp: True inCharge_True)
    have "worksA M (?in complete) (if complete then retW Returned else downloadTorrent rt cfg meta peerID es)
        (downloaded M L) (\<lambda>e l. allGone)" for complete
    proof (cases complete)
      case True
      show ?thesis unfolding if_P [OF True] by (rule worksP_ret) (simp add: True downloaded_def)
    next
      case False
      show ?thesis unfolding if_not_P [OF False]
        by (rule worksP_conseq [OF works_downloadTorrent [OF M]]) (auto simp: gaveUp_def intro: inCharge_gone)
    qed
    from worksP_bind [OF read worksP_bind [OF this works_finalize [OF wf True]]] show ?thesis .
  qed (simp add: worksP_def)
qed

text \<open>After the deferred \<open>Close\<close>.\<close>

text \<open>Closing the storage, with every goroutine gone or the torrent delivered.\<close>

lemma close_known:
  assumes post: "postW (finished M meta dir) (\<lambda>e l. allGone) h (r, l)" and r: "r \<noteq> Inr Waiting" and k: "knowsApp M h (w, ts)"
  shows "\<exists>h'. knowsApp M h' (closeWorld w, ts) \<and>
    postW (finished M meta dir) (\<lambda>e l h. \<exists>peers. h = Alone (\<lambda>_. True) peers) h' (r, l)"
proof (cases r)
  case (Inl e)
  have "\<exists>peers. knowsApp M (Alone (\<lambda>_. True) peers) (closeWorld w, ts)"
  proof (cases h)
    case (Alone P peers)
    then show ?thesis using k by (intro exI [of _ peers]) simp
  next
    case (Running L peers gone c)
    then have "{..<length peers} \<subseteq> gone" using post Inl by simp
    then show ?thesis using k Running knows_gone [of M L peers gone c w ts "\<lambda>_. True" "closeWorld w"] by (intro exI [of _ peers]) simp
  qed
  then obtain peers where "knowsApp M (Alone (\<lambda>_. True) peers) (closeWorld w, ts)" by blast
  then show ?thesis using Inl by (intro exI [of _ "Alone (\<lambda>_. True) peers"]) simp
next
  case (Inr out)
  with r have "out = Returned" by (cases out) auto
  then obtain peers where "h = Alone (\<lambda>w. delivered meta dir (disk w)) peers" using post Inr by (auto simp: finished_def)
  then show ?thesis using k Inr \<open>out = Returned\<close> by (intro exI [of _ h]) (auto simp: finished_def closeWorld_def)
qed

lemma works_deferClose:
  fixes m :: "('n, outcome) appAct"
  assumes m: "worksA M P m (finished M meta dir) (\<lambda>e l. allGone)"
  shows "worksA M P (deferClose m) (finished M meta dir) (\<lambda>e l h. \<exists>peers. h = Alone (\<lambda>_. True) peers)"
  unfolding worksP_def deferClose_def
proof (intro allI impI safeP_bind, rule safeP_mono)
  fix l :: "'n supervisor" and h assume "P l h"
  then show "safeP (\<lambda>_. True) (knowsApp M) (\<lambda>_ _ _ _. True) (postW (finished M meta dir) (\<lambda>e l. allGone)) (m l) h"
    using m by (simp add: worksP_def)
next
  fix h and y :: "(appError + outcome) \<times> 'n supervisor"
  assume post: "postW (finished M meta dir) (\<lambda>e l. allGone) h y"
  obtain r l where y: "y = (r, l)" by (cases y)
  let ?post = "postW (finished M meta dir) (\<lambda>e (l :: 'n supervisor) h. \<exists>peers. h = Alone (\<lambda>_. True) peers)"
  show "safeP (\<lambda>_. True) (knowsApp M) (\<lambda>_ _ _ _. True) ?post
      (case y of (r, l') \<Rightarrow> if r = Inr Waiting then Done (r, l')
         else bindP (atomic (\<lambda>(w, ts). ((), closeWorld w, ts))) (\<lambda>_. Done (r, l'))) h"
  proof (cases "r = Inr Waiting")
    case True
    then show ?thesis using post y by simp
  next
    case False
    have "safeP (\<lambda>_. True) (knowsApp M) (\<lambda>_ _ _ _. True) ?post
        (bindP (atomic (\<lambda>(w, ts). ((), closeWorld w, ts))) (\<lambda>_. Done (r, l))) h"
      by (intro safeP_bind safeP_atomic) (use close_known [OF post [unfolded y] False] in \<open>auto split: prod.splits\<close>)
    then show ?thesis using False y by simp
  qed
qed

definition runPost :: "int \<Rightarrow> unicode \<Rightarrow> unit + bytes \<Rightarrow> bytes \<Rightarrow> outcome \<Rightarrow> 'n supervisor \<Rightarrow> phase \<Rightarrow> bool" where
  "runPost M u file dir out l h \<longleftrightarrow> (\<exists>meta. loadMeta u file = Inr meta \<and> finished M meta dir out l h)"

lemma loadMeta_wf: "loadMeta u file = Inr meta \<Longrightarrow> metaWf u meta"
  by (auto simp: loadMeta_def dest: ExtractMeta_metaWf Parse_NewParser_sound(1))

lemma works_opened:
  fixes rt :: "'n runtime" and n :: 'n
  assumes meta: "loadMeta (unicodeTables rt) file = Inr meta" and M: "0 < MaxWorkers cfg"
  shows "worksA (MaxWorkers cfg) (\<lambda>l h. l = newSupervisor n \<and> h = Alone (\<lambda>_. True) [])
    (seqW (sectionApp (openWorld (unicodeTables rt) meta (OutputDirectory cfg)) OpenStorageFailed) (deferClose (runDownload rt cfg meta peerID es)))
    (runPost (MaxWorkers cfg) (unicodeTables rt) file (OutputDirectory cfg)) (\<lambda>e l h. \<exists>peers. h = Alone (\<lambda>_. True) peers)"
proof (rule worksP_seq)
  let ?M = "MaxWorkers cfg" and ?dir = "OutputDirectory cfg" and ?u = "unicodeTables rt"
  let ?P = "\<lambda>(l :: 'n supervisor) h. l = newSupervisor n \<and> h = Alone (\<lambda>_. True) []"
  let ?Q = "runPost ?M ?u file ?dir" and ?E = "\<lambda>e (l :: 'n supervisor) h. \<exists>peers. h = Alone (\<lambda>_. True) peers"
  note wf = loadMeta_wf [OF meta]
  let ?R = "\<lambda>(l :: 'n supervisor) h. l = newSupervisor n \<and> h = Alone (openedWorld meta ?dir) []"
  show "worksA ?M ?P (sectionApp (openWorld ?u meta ?dir) OpenStorageFailed) (\<lambda>_. ?R) ?E"
  proof (rule works_section)
    fix l :: "'n supervisor" and h w ts r w'
    assume h: "?P l h" "knowsApp ?M h (w, ts)" "openWorld ?u meta ?dir w = (r, w')"
    show "\<exists>h'. knowsApp ?M h' (w', ts) \<and> (case r of Inl e \<Rightarrow> ?E (OpenStorageFailed e) l h' | Inr x \<Rightarrow> ?R l h')"
    proof (cases r)
      case (Inl e)
      then show ?thesis using h by (intro exI [of _ "Alone (\<lambda>_. True) []"]) simp
    next
      case (Inr x)
      then show ?thesis using h openWorld_opens [OF wf, of ?dir w w']
        by (intro exI [of _ "Alone (openedWorld meta ?dir) []"]) simp
    qed
  qed
  show "worksA ?M ?R (deferClose (runDownload rt cfg meta peerID es)) ?Q ?E"
    by (rule worksP_conseq [OF works_deferClose [OF works_runDownload [OF wf refl M]]]) (use meta in \<open>auto simp: runPost_def\<close>)
qed

lemma works_run:
  fixes rt :: "'n runtime"
  shows "worksA (MaxWorkers cfg) (\<lambda>l h. l = newSupervisor n \<and> h = Alone (\<lambda>_. True) []) (run rt file random cfg es)
     (runPost (MaxWorkers cfg) (unicodeTables rt) file (OutputDirectory cfg)) (\<lambda>e l h. \<exists>peers. h = Alone (\<lambda>_. True) peers)"
proof -
  let ?M = "MaxWorkers cfg" and ?dir = "OutputDirectory cfg" and ?u = "unicodeTables rt"
  let ?P = "\<lambda>(l :: 'n supervisor) h. l = newSupervisor n \<and> h = Alone (\<lambda>_. True) []"
  let ?Q = "runPost ?M ?u file ?dir" and ?E = "\<lambda>e (l :: 'n supervisor) h. \<exists>peers. h = Alone (\<lambda>_. True) peers"
  have fail: "worksA ?M ?P (failW e) ?Q ?E" for e by (rule worksP_fail) auto
  have go: "worksA ?M ?P (bindW (checkW id (loadMeta ?u file)) (\<lambda>meta. bindW (checkW (\<lambda>_. PeerIDFailed) (GeneratePeerID random)) (\<lambda>peerID.
          seqW (sectionApp (openWorld ?u meta ?dir) OpenStorageFailed) (deferClose (runDownload rt cfg meta peerID es))))) ?Q ?E"
    if "0 < ?M"
  proof (rule worksP_bind [OF worksP_check [where Q = "\<lambda>meta l h. loadMeta ?u file = Inr meta \<and> ?P l h"]])
    show "worksA ?M (\<lambda>l h. loadMeta ?u file = Inr meta \<and> ?P l h) (bindW (checkW (\<lambda>_. PeerIDFailed) (GeneratePeerID random)) (\<lambda>peerID.
          seqW (sectionApp (openWorld ?u meta ?dir) OpenStorageFailed) (deferClose (runDownload rt cfg meta peerID es)))) ?Q ?E" for meta
    proof (cases "loadMeta ?u file = Inr meta")
      case True
      show ?thesis by (rule worksP_bind [OF worksP_check, where R = "\<lambda>_. ?P"]) (use True works_opened [OF _ that] in auto)
    qed (simp add: worksP_def)
  qed auto
  show ?thesis
  proof (cases "OutputDirectory cfg = [] \<or> ?M \<le> 0 \<or> NoProgressLimit cfg \<le> 0")
    case True
    then have eq: "run rt file random cfg es = failW (if OutputDirectory cfg = [] then OutputDirectoryEmpty
        else if ?M \<le> 0 then WorkerCountNotPositive else IdleNotPositive)" by (auto simp: run_def)
    show ?thesis unfolding eq by (rule fail)
  next
    case False
    then have eq: "run rt file random cfg es = bindW (checkW id (loadMeta ?u file)) (\<lambda>meta.
        bindW (checkW (\<lambda>_. PeerIDFailed) (GeneratePeerID random)) (\<lambda>peerID.
          seqW (sectionApp (openWorld ?u meta ?dir) OpenStorageFailed) (deferClose (runDownload rt cfg meta peerID es))))"
      unfolding run_def by simp
    show ?thesis unfolding eq by (rule go) (use False in simp)
  qed
qed

section \<open>Every execution\<close>

lemma run_reaches:
  fixes rt :: "'n runtime"
  assumes "systemRuns ((w, []), run rt file random cfg events (newSupervisor n)) (c, p)"
  shows "\<exists>h. knowsApp (MaxWorkers cfg) h c \<and> safeP (\<lambda>_. True) (knowsApp (MaxWorkers cfg)) (\<lambda>_ _ _ _. True)
    (postW (runPost (MaxWorkers cfg) (unicodeTables rt) file (OutputDirectory cfg)) (\<lambda>e l h. \<exists>peers. h = Alone (\<lambda>_. True) peers)) p h"
proof -
  have "knowsApp (MaxWorkers cfg) (Alone (\<lambda>_. True) []) (w, [])" by (simp add: crewFacts_def)
  with app.beside_runs [OF assms, of "MaxWorkers cfg" "Alone (\<lambda>_. True) []"] works_run [of cfg n rt "file" random events]
  show ?thesis by (simp add: worksP_def)
qed

text \<open>The same of \<open>main\<close>, whose exit status is 0 only when \<open>run\<close> has returned without an error.\<close>

lemma safe_main:
  fixes rt :: "'n runtime"
  shows "safeP (\<lambda>_. True) (knowsApp (workersFlag flags)) (\<lambda>_ _ _ _. True)
    (\<lambda>h (status, l). status = Some 0 \<longrightarrow> length (flagArgs flags) = 1 \<and>
       runPost (workersFlag flags) (unicodeTables rt) (readFile (flagArgs flags ! 0)) (outputFlag flags) Returned l h)
    (mainProgram rt readFile random flags events (newSupervisor n)) (Alone (\<lambda>_. True) [])"
proof (cases "length (flagArgs flags) \<noteq> 1 \<or> portFlag flags = 0 \<or> portFlag flags > 65535")
  case False
  let ?cfg = "defaultAppConfig\<lparr>OutputDirectory := outputFlag flags, MaxWorkers := workersFlag flags,
    NoProgressLimit := idleFlag flags, ConfigPort := ucast (portFlag flags)\<rparr>"
  let ?final = "\<lambda>(r, l' :: 'n supervisor). case r of Inl (e :: appError) \<Rightarrow> Done (Some 1, l') | Inr Returned \<Rightarrow> Done (Some 0, l')
    | Inr Waiting \<Rightarrow> Done (None, l')"
  have main: "mainProgram rt readFile random flags events (newSupervisor n) =
      bindP (run rt (readFile (flagArgs flags ! 0)) random ?cfg events (newSupervisor n)) ?final"
    using False by (simp add: mainProgram_def)
  have cfg: "MaxWorkers ?cfg = workersFlag flags" "OutputDirectory ?cfg = outputFlag flags" by simp_all
  show ?thesis unfolding main
  proof (rule safeP_bind, rule safeP_mono)
    show "safeP (\<lambda>_. True) (knowsApp (workersFlag flags)) (\<lambda>_ _ _ _. True)
      (postW (runPost (workersFlag flags) (unicodeTables rt) (readFile (flagArgs flags ! 0)) (outputFlag flags))
        (\<lambda>e l h. \<exists>peers. h = Alone (\<lambda>_. True) peers))
      (run rt (readFile (flagArgs flags ! 0)) random ?cfg events (newSupervisor n)) (Alone (\<lambda>_. True) [])"
      using works_run [of ?cfg n rt "readFile (flagArgs flags ! 0)" random events] unfolding cfg by (simp add: worksP_def)
  qed (use False in \<open>auto split: prod.splits sum.splits outcome.splits elim: postW.elims\<close>)
qed (auto simp: mainProgram_def)

lemma main_reaches:
  fixes rt :: "'n runtime"
  assumes "systemRuns ((w, []), mainProgram rt readFile random flags events (newSupervisor n)) (c, Done (Some 0, l))"
  shows "\<exists>h. knowsApp (workersFlag flags) h c \<and> length (flagArgs flags) = 1 \<and>
    runPost (workersFlag flags) (unicodeTables rt) (readFile (flagArgs flags ! 0)) (outputFlag flags) Returned l h"
proof -
  have "knowsApp (workersFlag flags) (Alone (\<lambda>_. True) []) (w, [])" by (simp add: crewFacts_def)
  with app.beside_runs [OF assms, unfolded fst_conv snd_conv, OF _ safe_main] show ?thesis by auto
qed

lemma knows_crewFacts: "knowsApp M h (w, ts) \<Longrightarrow> \<exists>peers gone. crewFacts M peers gone ts"
  by (cases h) auto

lemma run_waiting:
  assumes post: "postW (runPost M u file dir) E h (Inr Waiting, l)" and knows: "knowsApp M h (w, ts)"
  shows "crewFacts M (started l) (taken l) ts \<and> {..<length ts} - taken l \<noteq> {} \<and>
    (pending l = [] \<or> int (card ({..<length ts} - taken l)) = M \<or> workersCancelled l)"
proof -
  obtain L c where c: "inCharge L c l h" "active l \<noteq> {}" "pending l = [] \<or> M \<le> int (card (active l)) \<or> workersCancelled l"
    using post by (auto simp: runPost_def finished_def downloaded_def)
  then have facts: "crewFacts M (started l) (taken l) ts" using knows by (simp add: inCharge_def)
  then have un: "untaken l = {..<length ts} - taken l" by (simp add: crewFacts_def untaken_def)
  have act: "active l = (\<lambda>j. addressString (started l ! j)) ` untaken l" using c(1) by (simp add: inCharge_def peersInv_def)
  then have "card (active l) = card (untaken l)" using facts by (simp add: crewFacts_def untaken_def card_image)
  moreover have "0 < card (untaken l)" using act c(2) by (auto simp: card_gt_0_iff untaken_def)
  ultimately show ?thesis using c(2,3) facts act unfolding un by (auto simp: crewFacts_def)
qed

lemma run_returned:
  assumes post: "postW (runPost M u file dir) (\<lambda>e l h. \<exists>peers. h = Alone (\<lambda>_. True) peers) h (r, l)"
    and knows: "knowsApp M h (w, ts)" and r: "r \<noteq> Inr Waiting"
  shows "\<exists>peers. crewFacts M peers {..<length ts} ts"
proof -
  have "\<exists>P peers. h = Alone P peers"
  proof (cases r)
    case (Inl e)
    then show ?thesis using post by auto
  next
    case (Inr out)
    then have "out = Returned" using r by (cases out) auto
    then show ?thesis using post Inr by (auto simp: runPost_def finished_def)
  qed
  then obtain P peers where "h = Alone P peers" by blast
  then have "crewFacts M peers {..<length peers} ts" using knows by simp
  moreover from this have "length ts = length peers" by (simp add: crewFacts_def)
  ultimately show ?thesis by auto
qed

text \<open>Some view of the goroutines fits the state, whatever the supervisor is about to do.\<close>

lemma run_view:
  fixes rt :: "'n runtime"
  assumes "systemRuns ((w, []), run rt file random cfg events (newSupervisor n)) ((w', ts), p)"
  shows "\<exists>peers gone. crewFacts (MaxWorkers cfg) peers gone ts \<and>
    (\<forall>l. p = Done (Inr Waiting, l) \<longrightarrow> {..<length ts} - gone \<noteq> {} \<and>
       (pending l = [] \<or> int (card ({..<length ts} - gone)) = MaxWorkers cfg \<or> workersCancelled l)) \<and>
    (\<forall>r l. p = Done (r, l) \<and> r \<noteq> Inr Waiting \<longrightarrow> {..<length ts} \<subseteq> gone)"
proof -
  obtain h where k: "knowsApp (MaxWorkers cfg) h (w', ts)" and s: "safeP (\<lambda>_. True) (knowsApp (MaxWorkers cfg)) (\<lambda>_ _ _ _. True)
    (postW (runPost (MaxWorkers cfg) (unicodeTables rt) file (OutputDirectory cfg)) (\<lambda>e l h. \<exists>peers. h = Alone (\<lambda>_. True) peers)) p h"
    using run_reaches [OF assms] by blast
  show ?thesis
  proof (cases p)
    case (Done x)
    obtain r l where x: "x = (r, l)" by fastforce
    note post = s [unfolded Done safeP.simps x]
    show ?thesis
    proof (cases "r = Inr Waiting")
      case True
      then show ?thesis using run_waiting [OF _ k] post x Done by (intro exI [of _ "started l"] exI [of _ "taken l"]) auto
    next
      case False
      obtain peers where "crewFacts (MaxWorkers cfg) peers {..<length ts} ts" using run_returned [OF post k False] by blast
      then show ?thesis using Done x False by (intro exI [of _ peers] exI [of _ "{..<length ts}"]) auto
    qed
  next
    case (Step f q)
    then show ?thesis using knows_crewFacts [OF k] by auto
  qed
qed

text \<open>An execution that exits with status 0.\<close>

lemma main_exit:
  fixes rt :: "'n runtime"
  assumes "systemRuns ((w, []), mainProgram rt readFile random flags events (newSupervisor n)) ((w', ts), Done (Some 0, l))"
  shows "\<exists>path meta. flagArgs flags = [path] \<and> loadMeta (unicodeTables rt) (readFile path) = Inr meta \<and>
    delivered meta (outputFlag flags) (disk w') \<and> list_all ended ts"
proof -
  obtain h where h: "knowsApp (workersFlag flags) h (w', ts)" and path: "length (flagArgs flags) = 1"
    and post: "runPost (workersFlag flags) (unicodeTables rt) (readFile (flagArgs flags ! 0)) (outputFlag flags) Returned l h"
    using main_reaches [OF assms] by auto
  obtain meta peers where "loadMeta (unicodeTables rt) (readFile (flagArgs flags ! 0)) = Inr meta"
    "h = Alone (\<lambda>w. delivered meta (outputFlag flags) (disk w)) peers" using post by (auto simp: runPost_def finished_def)
  moreover from path have "flagArgs flags = [flagArgs flags ! 0]" by (cases "flagArgs flags") auto
  ultimately show ?thesis using h by (auto simp: crewFacts_def list_all_length)
qed

section \<open>Properties\<close>

text \<open>
  C3. At every moment of every execution of \<open>run\<close> the supervisor has its goroutines under control: besides
  those whose result it has received, which have ended, there are at most \<open>MaxWorkers\<close>, each for a different
  address; no address is tried more than twice. While the supervisor waits there is a goroutine whose result
  it has yet to receive, and unless it is finishing, no known peer waits or all \<open>MaxWorkers\<close> are at work.
  When \<open>run\<close> has returned, whether with success or with an error, every goroutine has ended.
\<close>

theorem supervisor_invariant:
  fixes rt :: "'n runtime"
  assumes "systemRuns ((w, []), run rt file random cfg events (newSupervisor n)) ((w', ts), p)"
  shows "\<exists>peers gone. length ts = length peers \<and> list_all2 resultFor peers ts \<and>
    (\<forall>j\<in>gone. j < length ts \<and> ended (ts ! j)) \<and>
    inj_on (\<lambda>j. addressString (peers ! j)) ({..<length ts} - gone) \<and>
    int (card ({..<length ts} - gone)) \<le> max 0 (MaxWorkers cfg) \<and>
    (\<forall>k. count_list (map addressString peers) k \<le> 2) \<and>
    (\<forall>l. p = Done (Inr Waiting, l) \<longrightarrow> {..<length ts} - gone \<noteq> {} \<and>
       (pending l = [] \<or> int (card ({..<length ts} - gone)) = MaxWorkers cfg \<or> workersCancelled l)) \<and>
    (\<forall>r l. p = Done (r, l) \<and> r \<noteq> Inr Waiting \<longrightarrow> {..<length ts} \<subseteq> gone)"
proof -
  obtain peers gone where "crewFacts (MaxWorkers cfg) peers gone ts" and waiting: "\<forall>l. p = Done (Inr Waiting, l) \<longrightarrow>
      {..<length ts} - gone \<noteq> {} \<and> (pending l = [] \<or> int (card ({..<length ts} - gone)) = MaxWorkers cfg \<or> workersCancelled l)"
    and returned: "\<forall>r l. p = Done (r, l) \<and> r \<noteq> Inr Waiting \<longrightarrow> {..<length ts} \<subseteq> gone"
    using run_view [OF assms] by blast
  then have "length ts = length peers" "list_all2 resultFor peers ts" "\<forall>j\<in>gone. j < length ts \<and> ended (ts ! j)"
    "inj_on (\<lambda>j. addressString (peers ! j)) ({..<length ts} - gone)" "int (card ({..<length ts} - gone)) \<le> max 0 (MaxWorkers cfg)"
    "\<forall>k. count_list (map addressString peers) k \<le> 2"
    by (auto simp: crewFacts_def list_all2_conv_all_nth)
  then show ?thesis using waiting returned by blast
qed

text \<open>
  C1. The program delivers. In every execution in which \<open>main\<close> exits with status 0, whatever peers, trackers,
  timers and the disk have done and however the goroutines were interleaved, there was one argument, the name
  of a valid metainfo file, every goroutine has ended, and the files of the torrent stand below the completed
  path: in their order they are as long as the torrent, and every piece of them has the hash that the metainfo
  file gives it.
\<close>

theorem main_delivers:
  fixes rt :: "'n runtime"
  assumes "systemRuns ((w, []), mainProgram rt readFile random flags events (newSupervisor n)) ((w', ts), Done (Some 0, l))"
  shows "\<exists>path meta. flagArgs flags = [path] \<and> loadMeta (unicodeTables rt) (readFile path) = Inr meta \<and>
    delivered meta (outputFlag flags) (disk w') \<and> list_all ended ts"
  using assms by (rule main_exit)

end
