(* ===== verification/AppProgress.thy ===== *)
theory AppProgress
  imports AppSpec DownloadSpec
begin

text \<open>
  The supervisor can make progress: with a tracker that names peers that fail and one that has everything, it starts
  their goroutines, as many at a time as it may, receives their results and returns with the torrent complete.
  The supervisor and the goroutines take turns: one of them runs alone until the other has something to receive.
\<close>

section \<open>Running alone\<close>

definition contW :: "(('e + 'a) \<times> 'l) \<times> 's \<Rightarrow> ('a \<Rightarrow> ('s, 'l, 'e, 'b) localAct) \<Rightarrow> (('e + 'b) \<times> 'l) \<times> 's" where
  "contW r f = (case r of ((Inl e, l), t) \<Rightarrow> ((Inl e, l), t) | ((Inr x, l), t) \<Rightarrow> runP (f x l) t)"

lemma contW_cong: "r = r' \<Longrightarrow> contW r f = contW r' f"
  by simp

lemma alone_eval:
  "runP (bindW m f l) s = contW (runP (m l) s) f" "runP (seqW m q l) s = contW (runP (m l) s) (\<lambda>_. q)"
  "contW ((Inr x, l), s) f = runP (f x l) s" "contW ((Inl e, l), s) f = ((Inl e, l), s)"
  "runP (retW y l) s = ((Inr y, l), s)" "runP (failW e l) s = ((Inl e, l), s)" "runP (setW g l) s = ((Inr (), g l), s)"
  "runP (getW h l) s = runP (h l l) s" "runP (checkW wrap r l) s = ((wrapErr wrap r, l), s)"
  "runP (locked a l) s = (case a s of (z, t) \<Rightarrow> ((Inr z, l), t))"
  "runP (readManager k l) c = ((Inr (k (mgr (fst c))), l), c)"
  "runP (sectionApp b wrap' l) (w, ts) = (case b w of (q', w') \<Rightarrow> ((wrapErr wrap' q', l), (w', ts)))"
  by (simp_all add: contW_def bindW_def seqW_def retW_def failW_def setW_def getW_def checkW_def locked_def readManager_def
      sectionApp_def split: prod.splits sum.splits)

lemma alone_defer:
  "runP (m l) s = ((r, l'), (w, ts)) \<Longrightarrow> r \<noteq> Inr Waiting \<Longrightarrow> runP (deferClose m l) s = ((r, l'), (closeWorld w, ts))"
  "runP (m l) s = ((Inr Waiting, l'), t) \<Longrightarrow> runP (deferClose m l) s = ((Inr Waiting, l'), t)"
  by (simp_all add: deferClose_def)

lemma alone_announce:
  "runP (announceApp rt meta peerID opts l) s =
    (case AnnounceFirst (unicodeTables rt) (networkOf rt) NewTrackerClient (Some meta) peerID opts (trackers l) of
       (r, n) \<Rightarrow> ((Inr r, l\<lparr>trackers := n\<rparr>), s))"
  by (simp add: announceApp_def split: prod.splits)

section \<open>Running beside the rest\<close>

lemma besideRuns_bind: "besideRuns rest c d \<Longrightarrow> besideRuns rest (fst c, bindP (snd c) k) (fst d, bindP (snd d) k)"
proof (induction rule: rtranclp_induct)
  case (step d e)
  obtain s p t q where de: "d = (s, p)" "e = (t, q)" by fastforce
  from step.hyps(2) have "besideStep rest (s, bindP p k) (t, bindP q k)"
    unfolding de by cases (auto intro: own_step rest_step)
  with step.IH show ?case by (simp add: de)
qed simp

lemma besideRuns_rest: "rest\<^sup>*\<^sup>* s t \<Longrightarrow> besideRuns rest (s, p) (t, p)"
  by (induction rule: rtranclp_induct) (auto intro: rest_step rtranclp.rtrancl_into_rtrancl)

text \<open>An action that runs alone, then what follows it.\<close>

lemma runs_bind:
  assumes "runP (m l) s = ((Inr x, l'), t)" "besideRuns rest (t, f x l') d"
  shows "besideRuns rest (s, bindW m f l) d"
proof -
  let ?k = "\<lambda>(r, l'). case r of Inl e \<Rightarrow> Done (Inl e, l') | Inr x \<Rightarrow> f x l'"
  have "besideRuns rest (s, bindW m f l) (t, f x l')"
    using besideRuns_bind [OF besideRuns_alone [OF assms(1)], of rest ?k] unfolding fst_conv snd_conv bindW_def by simp
  with assms(2) show ?thesis by (rule rtranclp_trans [rotated])
qed

lemma runs_seq: "runP (m l) s = ((Inr x, l'), t) \<Longrightarrow> besideRuns rest (t, n l') d \<Longrightarrow> besideRuns rest (s, seqW m n l) d"
  unfolding seqW_def by (rule runs_bind)

section \<open>Peers that do not answer\<close>

text \<open>
  The tracker has named \<open>as\<close>; \<open>m\<close> goroutines have been started and the results of the first \<open>j\<close> received.
\<close>

definition trying :: "PeerAddress list \<Rightarrow> nat \<Rightarrow> nat \<Rightarrow> 'n supervisor \<Rightarrow> bool" where
  "trying as j m l \<longleftrightarrow> j \<le> m \<and> m \<le> length as \<and> length (started l) = m \<and> pending l = drop m as \<and> taken l = {..<j} \<and>
     active l = addressString ` set (drop j (take m as))"

lemma trying_timers [simp]:
  "trying as j m (l\<lparr>watchedUpdates := u\<rparr>) = trying as j m l"
  "trying as j m (l\<lparr>reannounceTimer := t1, idleTimer := t2, lastCompleted := c\<rparr>) = trying as j m l"
  by (simp_all add: trying_def)

lemma trying_card:
  assumes "trying as j m l" "distinct (map addressString as)"
  shows "card (active l) = m - j"
proof -
  have "distinct (map addressString (drop j (take m as)))"
    using assms(2) by (simp add: drop_map [symmetric] take_map [symmetric])
  note c = distinct_card [OF this]
  have "active l = set (map addressString (drop j (take m as)))" using assms(1) by (simp add: trying_def)
  then show ?thesis using assms(1) c by (simp add: trying_def)
qed

lemma addPeers_fresh:
  assumes "distinct (map addressString as)" "[] \<notin> addressString ` set as"
    "active l = {}" "attempts l = (\<lambda>_. 0)" "queued l \<inter> addressString ` set as = {}"
  shows "addPeers as l = l\<lparr>queued := queued l \<union> addressString ` set as, pending := pending l @ as\<rparr>"
  using assms
proof (induction "as" arbitrary: l)
  case (Cons a as)
  let ?l = "l\<lparr>queued := insert (addressString a) (queued l), pending := pending l @ [a]\<rparr>"
  have "addPeer l a = ?l" using Cons.prems by (auto simp: addPeer_def Let_def)
  moreover have "addPeers as ?l = ?l\<lparr>queued := queued ?l \<union> addressString ` set as, pending := pending ?l @ as\<rparr>"
    using Cons.prems by (intro Cons.IH) auto
  ultimately show ?case by (simp add: addPeers_def)
qed (simp add: addPeers_def)

lemma addPeers_trying:
  assumes "distinct (map addressString as)" "[] \<notin> addressString ` set as"
  shows "trying as 0 0 (addPeers as (newSupervisor n))"
  using assms by (simp add: addPeers_fresh newSupervisor_def trying_def)

text \<open>\<open>launchWorkers\<close> fills the free places.\<close>

lemma launch_next:
  fixes rt :: "'n runtime"
  assumes "trying as j m l" "m < length as"
  shows "\<exists>l'. runP (launchWorker rt cfg meta peerID l) (w, ts) = ((Inr (), l'), (w, ts @ [goroutineOf rt cfg meta peerID (as ! m) m])) \<and>
    trying as j (Suc m) l'"
proof -
  have hd: "hd (pending l) = as ! m" "tl (pending l) = drop (Suc m) as" "length (started l) = m"
    using assms by (simp_all add: trying_def hd_drop_conv_nth drop_Suc tl_drop)
  have "drop j (take (Suc m) as) = drop j (take m as) @ [as ! m]"
    using assms by (simp add: trying_def take_Suc_conv_app_nth)
  then show ?thesis
    using assms hd by (simp add: launchWorker_def takePending_def alone_eval Let_def trying_def cong: contW_cong)
qed

lemma launch_trying:
  fixes rt :: "'n runtime"
  assumes keys: "distinct (map addressString as)" and todo: "\<not> IsComplete (mgr w)"
    and l: "trying as j m l" "m \<le> j + M" "int M = MaxWorkers cfg"
  defines "full \<equiv> min (j + M) (length as)"
  shows "\<exists>l'. runP (launchWorkers rt cfg meta peerID l) (w, ts) =
      ((Inr (), l'), (w, ts @ map (\<lambda>k. goroutineOf rt cfg meta peerID (as ! k) k) [m..<full])) \<and> trying as j full l'"
proof -
  have "\<exists>l'. runP (launchLoop rt cfg meta peerID (length as - m) l) (w, ts) =
      ((Inr (), l'), (w, ts @ map (\<lambda>k. goroutineOf rt cfg meta peerID (as ! k) k) [m..<full])) \<and> trying as j full l'"
    using l(1,2)
  proof (induction "length as - m" arbitrary: m l ts)
    case 0
    then show ?case by (simp add: alone_eval full_def trying_def)
  next
    case (Suc x)
    then have m: "length as - m = Suc x" "x = length as - Suc m" "m < length as" "pending l \<noteq> []" "j \<le> m"
      by (auto simp: trying_def)
    have card: "card (active l) = m - j" by (rule trying_card [OF Suc.prems(1) keys])
    show ?case
    proof (cases "m < j + M")
      case True
      then have free: "int (card (active l)) < MaxWorkers cfg" using card m(5) l(3) by simp
      obtain l1 where l1: "runP (launchWorker rt cfg meta peerID l) (w, ts) =
          ((Inr (), l1), (w, ts @ [goroutineOf rt cfg meta peerID (as ! m) m]))" "trying as j (Suc m) l1"
        using launch_next [OF Suc.prems(1) m(3)] by blast
      have "m < full" using True m(3) by (simp add: full_def)
      moreover from True have "Suc m \<le> j + M" by simp
      from Suc.hyps(1) [OF m(2) l1(2) this, of "ts @ [goroutineOf rt cfg meta peerID (as ! m) m]"]
      obtain l2 where "runP (launchLoop rt cfg meta peerID (length as - Suc m) l1) (w, ts @ [goroutineOf rt cfg meta peerID (as ! m) m]) =
          ((Inr (), l2), (w, (ts @ [goroutineOf rt cfg meta peerID (as ! m) m]) @
            map (\<lambda>k. goroutineOf rt cfg meta peerID (as ! k) k) [Suc m..<full]))" "trying as j full l2" by blast
      ultimately show ?thesis unfolding m(1)
        by (simp add: alone_eval free m(4) todo l1(1) m(2) upt_conv_Cons cong: contW_cong)
    next
      case False
      then have "m = full" "\<not> int (card (active l)) < MaxWorkers cfg" using Suc.prems(2) card m(3) l(3) by (simp_all add: full_def)
      then show ?thesis using Suc.prems(1) unfolding m(1) by (simp add: alone_eval)
    qed
  qed
  moreover have "length (pending l) = length as - m" using l(1) by (simp add: trying_def)
  ultimately show ?thesis by (simp add: launchWorkers_def alone_eval)
qed

text \<open>The goroutines after the first \<open>j\<close> have failed.\<close>

definition crewAt :: "'n runtime \<Rightarrow> appConfig \<Rightarrow> TorrentMeta \<Rightarrow> bytes \<Rightarrow> PeerAddress list \<Rightarrow> (nat \<Rightarrow> workerError) \<Rightarrow> nat \<Rightarrow> nat \<Rightarrow>
    goroutine list" where
  "crewAt rt cfg meta peerID as err j m =
     map (\<lambda>k. if k < j then Done (as ! k, Inl (err k)) else goroutineOf rt cfg meta peerID (as ! k) k) [0..<m]"

lemma crewAt_simps:
  "length (crewAt rt cfg meta peerID as err j m) = m"
  "k < m \<Longrightarrow> j \<le> k \<Longrightarrow> crewAt rt cfg meta peerID as err j m ! k = goroutineOf rt cfg meta peerID (as ! k) k"
  "k < m \<Longrightarrow> k < j \<Longrightarrow> crewAt rt cfg meta peerID as err j m ! k = Done (as ! k, Inl (err k))"
  by (simp_all add: crewAt_def)

lemma crewAt_failed:
  "j < m \<Longrightarrow> (crewAt rt cfg meta peerID as err j m)[j := Done (as ! j, Inl (err j))] = crewAt rt cfg meta peerID as err (Suc j) m"
  by (rule nth_equalityI) (auto simp: crewAt_def nth_list_update less_Suc_eq)

lemma crewAt_more:
  "j \<le> m \<Longrightarrow> m \<le> m' \<Longrightarrow>
   crewAt rt cfg meta peerID as err j m @ map (\<lambda>k. goroutineOf rt cfg meta peerID (as ! k) k) [m..<m'] =
   crewAt rt cfg meta peerID as err j m'"
  by (rule nth_equalityI) (auto simp: crewAt_def nth_append)

text \<open>Receiving the result of goroutine \<open>j\<close>.\<close>

lemma receive_trying:
  assumes "trying as j m l" "j < m" "distinct (map addressString as)"
    "length ts = m" "ts ! j = Done (as ! j, r)" "r \<noteq> Inr Waiting"
  shows "\<exists>l'. runP (receiveResult j l) (w, ts) = ((Inr (Some (as ! j, r)), l'), (w, ts)) \<and> trying as (Suc j) m l'"
proof -
  let ?ks = "map addressString as"
  have le: "m \<le> length as" and act: "active l = addressString ` set (drop j (take m as))"
    using assms(1) by (simp_all add: trying_def)
  have "drop j (take m as) = as ! j # drop (Suc j) (take m as)"
    using Cons_nth_drop_Suc [of j "take m as"] assms(2) le by simp
  moreover from this have "distinct (addressString (as ! j) # map addressString (drop (Suc j) (take m as)))"
    using distinct_drop [OF distinct_take [OF assms(3)], of j m] by (simp add: take_map drop_map)
  ultimately have rest: "active l - {addressString (as ! j)} = addressString ` set (drop (Suc j) (take m as))"
    unfolding act by auto
  have "arrived (taken l) j ts = Some (as ! j, r)" using assms by (simp add: arrived_def trying_def)
  then show ?thesis using assms(1,2) rest
    by (auto simp: receiveResult_def alone_eval trying_def lessThan_Suc cong: contW_cong)
qed

text \<open>The head of the loop before anything is complete.\<close>

lemma head_waits:
  assumes "\<not> IsComplete (mgr w)" "active l \<noteq> {}" "besideRuns rest ((w, ts), select (l\<lparr>watchedUpdates := Updates (mgr w)\<rparr>)) d"
  shows "besideRuns rest ((w, ts), appHead meta es select l) d"
  unfolding appHead_def
  by (rule runs_bind [where x = False], use assms(1) in \<open>simp add: alone_eval\<close>)
    (use assms(2,3) in \<open>simp add: getW_def, intro runs_bind [where m = "readManager Updates"] runs_seq, auto simp: alone_eval\<close>)

text \<open>One round: the oldest goroutine fails, its result is received and the next peer is tried.\<close>

lemma failing_round:
  fixes rt :: "'n runtime"
  assumes keys: "distinct (map addressString as)" and todo: "\<not> IsComplete (mgr w)" and M: "int M = MaxWorkers cfg" "0 < M"
    and l: "trying as j (min (j + M) (length as)) l" and j: "Suc j < length as"
    and dead: "ConnectContext (dialOf rt j) (as ! j) (InfoHash meta) peerID (PeerConfig cfg) = Inl e" "err j = ConnectFailed e"
  shows "\<exists>l'. trying as (Suc j) (min (Suc j + M) (length as)) l' \<and> (\<forall>d.
    systemRuns ((w, crewAt rt cfg meta peerID as err (Suc j) (min (Suc j + M) (length as))), downloadLoop rt cfg meta peerID es l') d \<longrightarrow>
    systemRuns ((w, crewAt rt cfg meta peerID as err j (min (j + M) (length as))), downloadLoop rt cfg meta peerID (ResultArrives j # es) l) d)"
proof -
  let ?m = "min (j + M) (length as)" and ?m' = "min (Suc j + M) (length as)"
  let ?crew = "crewAt rt cfg meta peerID as err"
  have jm: "j < ?m" "Suc j \<le> ?m" "?m \<le> ?m'" using M(2) j by auto
  have "runP (?crew j ?m ! j) w = ((as ! j, Inl (err j)), w)"
    using jm(1) by (simp add: crewAt_simps goroutineOf_def StartWorker_def workerOptions_def dead)
  from swarmRuns_alone [of j "?crew j ?m", OF _ _ this] jm(1)
  have failed: "swarmRuns (w, ?crew j ?m) (w, ?crew (Suc j) ?m)" by (simp add: crewAt_simps crewAt_failed del: min_less_iff_conj)
  have "?crew (Suc j) ?m ! j = Done (as ! j, Inl (err j))" using jm(1) by (intro crewAt_simps(3)) auto
  from receive_trying [OF l jm(1) keys crewAt_simps(1) this, of w] obtain l1 where
    l1: "runP (receiveResult j l) (w, ?crew (Suc j) ?m) = ((Inr (Some (as ! j, Inl (err j))), l1), (w, ?crew (Suc j) ?m))"
      "trying as (Suc j) ?m l1" by auto
  have "?m \<le> Suc j + M" by simp
  from launch_trying [OF keys todo l1(2) this M(1), of rt meta peerID "?crew (Suc j) ?m"] obtain l2 where
    l2: "runP (launchWorkers rt cfg meta peerID l1) (w, ?crew (Suc j) ?m) = ((Inr (), l2), (w, ?crew (Suc j) ?m'))"
      "trying as (Suc j) ?m' l2"
    unfolding crewAt_more [OF jm(2,3)] by blast
  have received: "runP (resultCase rt cfg meta peerID j l) (w, ?crew (Suc j) ?m) = ((Inr True, l2), (w, ?crew (Suc j) ?m'))"
    by (simp add: resultCase_def alone_eval l1(1) l2(1))
  have "card (active l2) = ?m' - Suc j" by (rule trying_card [OF l2(2) keys])
  also have "\<dots> > 0" using M(2) j by auto
  finally have waits: "active l2 \<noteq> {}" by auto
  let ?l = "l2\<lparr>watchedUpdates := Updates (mgr w)\<rparr>" and ?select = "downloadLoop rt cfg meta peerID es"
  have "systemRuns ((w, ?crew j ?m), downloadLoop rt cfg meta peerID (ResultArrives j # es) l) d"
    if d: "systemRuns ((w, ?crew (Suc j) ?m'), ?select ?l) d" for d
  proof -
    have "systemRuns ((w, ?crew (Suc j) ?m'), appHead meta es ?select l2) d"
      by (rule head_waits [where select = ?select, OF todo waits d])
    then have "systemRuns ((w, ?crew (Suc j) ?m), bindW (resultCase rt cfg meta peerID j)
        (\<lambda>ready. if ready then appHead meta es ?select else ?select) l) d"
      by (intro runs_bind [where m = "resultCase rt cfg meta peerID j", OF received]) simp
    then have "systemRuns ((w, ?crew (Suc j) ?m), downloadLoop rt cfg meta peerID (ResultArrives j # es) l) d"
      by (simp add: Let_def)
    with besideRuns_rest [OF failed] show ?thesis by (rule rtranclp_trans)
  qed
  then show ?thesis using l2(2) by (intro exI [of _ ?l]) simp
qed

section \<open>A peer that has everything\<close>

text \<open>All goroutines, in the order of their peers, after the last one has brought the rest of the torrent.\<close>

definition triedAll :: "PeerAddress list \<Rightarrow> (nat \<Rightarrow> clientError) \<Rightarrow> goroutine list" where
  "triedAll as why = map (\<lambda>k. Done (as ! k, if Suc k < length as then Inl (ConnectFailed (why k)) else Inr Returned)) [0..<length as]"

lemma crewAt_last:
  "Suc j = length as \<Longrightarrow> (crewAt rt cfg meta peerID as (\<lambda>k. ConnectFailed (why k)) j (length as))[j := Done (as ! j, Inr Returned)] =
   triedAll as why"
  by (rule nth_equalityI) (auto simp: crewAt_def triedAll_def nth_list_update)

text \<open>The last goroutine completes the torrent, its result is received and the supervisor returns.\<close>

lemma last_round:
  fixes rt :: "'n runtime"
  assumes keys: "distinct (map addressString as)" and l: "trying as j (length as) l" and j: "Suc j = length as"
    and peer: "runP (goroutineOf rt cfg meta peerID (as ! j) j) w = ((as ! j, Inr Returned), w')" and complete: "IsComplete (mgr w')"
  shows "\<exists>l'. systemRuns ((w, crewAt rt cfg meta peerID as (\<lambda>k. ConnectFailed (why k)) j (length as)),
      downloadLoop rt cfg meta peerID [ResultArrives j] l) ((w', triedAll as why), Done (Inr Returned, l'))"
proof -
  let ?crew = "crewAt rt cfg meta peerID as (\<lambda>k. ConnectFailed (why k)) j (length as)" and ?select = "downloadLoop rt cfg meta peerID []"
  let ?ts = "?crew[j := Done (as ! j, Inr Returned)]"
  have "runP (?crew ! j) w = ((as ! j, Inr Returned), w')" using j peer by (simp add: crewAt_simps)
  from swarmRuns_alone [of j ?crew, OF _ _ this] j have ran: "swarmRuns (w, ?crew) (w', ?ts)" by (simp add: crewAt_simps)
  have "length ?ts = length as" "?ts ! j = Done (as ! j, Inr Returned)" "j < length as" using j by (simp_all add: crewAt_simps)
  from receive_trying [OF l this(3) keys this(1,2), of w'] obtain l1 where
    l1: "runP (receiveResult j l) (w', ?ts) = ((Inr (Some (as ! j, Inr Returned)), l1), (w', ?ts))"
      "trying as (Suc j) (length as) l1" by auto
  have none: "pending l1 = []" "active l1 = {}" using l1(2) j by (simp_all add: trying_def)
  have "\<exists>l'. runP (downloadLoop rt cfg meta peerID [ResultArrives j] l) (w', ?ts) = ((Inr Returned, l'), (w', ?ts))"
    using none complete by (simp add: resultCase_def alone_eval l1(1) launchWorkers_def appHead_def finishWorkers_def Let_def
        cong: contW_cong)
  then obtain l' where "runP (downloadLoop rt cfg meta peerID [ResultArrives j] l) (w', ?ts) = ((Inr Returned, l'), (w', ?ts))" ..
  from rtranclp_trans [OF besideRuns_rest [OF ran] besideRuns_alone [OF this]] show ?thesis unfolding crewAt_last [OF j] by blast
qed

text \<open>The surroundings of a download: peers that cannot be connected to, and then one that can.\<close>

definition onePeer :: "'n runtime \<Rightarrow> appConfig \<Rightarrow> TorrentMeta \<Rightarrow> bytes \<Rightarrow> PeerAddress list \<Rightarrow> bool" where
  "onePeer rt cfg meta peerID as \<longleftrightarrow> as \<noteq> [] \<and> distinct (map addressString as) \<and> [] \<notin> addressString ` set as \<and>
     (\<forall>k. Suc k < length as \<longrightarrow> (\<exists>e. ConnectContext (dialOf rt k) (as ! k) (InfoHash meta) peerID (PeerConfig cfg) = Inl e))"

lemma rounds_run:
  fixes rt :: "'n runtime"
  assumes peers: "onePeer rt cfg meta peerID as" and err: "\<And>k. Suc k < length as \<Longrightarrow>
      ConnectContext (dialOf rt k) (as ! k) (InfoHash meta) peerID (PeerConfig cfg) = Inl (why k)"
    and todo: "\<not> IsComplete (mgr w)" and M: "int M = MaxWorkers cfg" "0 < M"
    and peer: "runP (goroutineOf rt cfg meta peerID (last as) (length as - 1)) w = ((last as, Inr Returned), w')"
    and complete: "IsComplete (mgr w')"
    and l: "trying as j (min (j + M) (length as)) l" "j < length as"
  shows "\<exists>l'. systemRuns ((w, crewAt rt cfg meta peerID as (\<lambda>k. ConnectFailed (why k)) j (min (j + M) (length as))),
      downloadLoop rt cfg meta peerID (map ResultArrives [j..<length as]) l) ((w', triedAll as why), Done (Inr Returned, l'))"
  using l
proof (induction "length as - Suc j" arbitrary: j l)
  case 0
  then have j: "Suc j = length as" by simp
  have "last as = as ! j" using j by (cases "as" rule: rev_cases) auto
  moreover have "length as - 1 = j" using j by simp
  ultimately have peer': "runP (goroutineOf rt cfg meta peerID (as ! j) j) w = ((as ! j, Inr Returned), w')" using peer by simp
  have "min (j + M) (length as) = length as" using j M(2) by simp
  moreover have "map ResultArrives [j..<length as] = [ResultArrives j]" using j by (simp flip: j)
  ultimately show ?case
    using last_round [OF _ _ j peer' complete] 0(2) peers by (simp add: onePeer_def)
next
  case (Suc x)
  then have j: "Suc j < length as" "x = length as - Suc (Suc j)" by auto
  have keys: "distinct (map addressString as)" using peers by (simp add: onePeer_def)
  have es: "map ResultArrives [j..<length as] = ResultArrives j # map ResultArrives [Suc j..<length as]"
    using j(1) by (simp add: upt_conv_Cons)
  obtain l1 where l1: "trying as (Suc j) (min (Suc j + M) (length as)) l1" and
    go: "\<And>d. systemRuns ((w, crewAt rt cfg meta peerID as (\<lambda>k. ConnectFailed (why k)) (Suc j) (min (Suc j + M) (length as))),
        downloadLoop rt cfg meta peerID (map ResultArrives [Suc j..<length as]) l1) d \<Longrightarrow>
      systemRuns ((w, crewAt rt cfg meta peerID as (\<lambda>k. ConnectFailed (why k)) j (min (j + M) (length as))),
        downloadLoop rt cfg meta peerID (map ResultArrives [j..<length as]) l) d"
    using failing_round [OF keys todo M Suc.prems(1) j(1), of rt meta peerID "why j" "\<lambda>k. ConnectFailed (why k)" "map ResultArrives [Suc j..<length as]"]
      err [OF j(1)] unfolding es by blast
  from Suc.hyps(1) [OF j(2) l1 j(1)] go show ?case by blast
qed

lemma download_runs:
  fixes rt :: "'n runtime"
  assumes todo: "\<not> IsComplete (mgr w)" and workers: "0 < MaxWorkers cfg"
    and tracker: "AnnounceFirst (unicodeTables rt) (networkOf rt) NewTrackerClient (Some meta) peerID
      (announceOptions cfg meta (str ''started'') (CompletedBytes (mgr w))) n = (Inr response, n')"
    and peers: "onePeer rt cfg meta peerID (Peers response)"
    and peer: "runP (goroutineOf rt cfg meta peerID (last (Peers response)) (length (Peers response) - 1)) w =
      ((last (Peers response), Inr Returned), w')"
    and complete: "IsComplete (mgr w')"
  shows "\<exists>l why. systemRuns ((w, []), downloadTorrent rt cfg meta peerID (map ResultArrives [0..<length (Peers response)]) (newSupervisor n))
      ((w', triedAll (Peers response) why), Done (Inr Returned, l)) \<and>
    (\<forall>k. Suc k < length (Peers response) \<longrightarrow>
       ConnectContext (dialOf rt k) (Peers response ! k) (InfoHash meta) peerID (PeerConfig cfg) = Inl (why k))"
proof -
  let ?as = "Peers response" and ?es = "map ResultArrives [0..<length (Peers response)]"
  let ?select = "downloadLoop rt cfg meta peerID ?es"
  have "\<forall>k. \<exists>e. Suc k < length ?as \<longrightarrow> ConnectContext (dialOf rt k) (?as ! k) (InfoHash meta) peerID (PeerConfig cfg) = Inl e"
    using peers unfolding onePeer_def by blast
  then obtain why where why: "\<And>k. Suc k < length ?as \<Longrightarrow>
      ConnectContext (dialOf rt k) (?as ! k) (InfoHash meta) peerID (PeerConfig cfg) = Inl (why k)" by metis
  let ?err = "\<lambda>k. ConnectFailed (why k)"
  obtain M where M: "int M = MaxWorkers cfg" "0 < M" using workers by (metis zero_less_imp_eq_int)
  have keys: "distinct (map addressString ?as)" "[] \<notin> addressString ` set ?as" "?as \<noteq> []" using peers by (simp_all add: onePeer_def)
  let ?m = "min (0 + M) (length ?as)"
  from launch_trying [OF keys(1) todo addPeers_trying [OF keys(1,2), of n'] _ M(1), of rt meta peerID "[]"] obtain l1 where
    l1: "runP (launchWorkers rt cfg meta peerID (addPeers ?as (newSupervisor n'))) (w, []) =
        ((Inr (), l1), (w, crewAt rt cfg meta peerID ?as ?err 0 ?m))" "trying ?as 0 ?m l1"
    by (auto simp: crewAt_def)
  let ?l = "l1\<lparr>reannounceTimer := NewTimer (i64 (Interval response * second)), idleTimer := NewTimer (NoProgressLimit cfg),
    lastCompleted := fst (Progress (mgr w))\<rparr>"
  have t: "trying ?as 0 ?m (?l\<lparr>watchedUpdates := Updates (mgr w)\<rparr>)" using l1(2) by simp
  have "0 < length ?as" using keys(3) by simp
  from rounds_run [OF peers why todo M peer complete t this]
  obtain l where select: "systemRuns ((w, crewAt rt cfg meta peerID ?as ?err 0 ?m), ?select (?l\<lparr>watchedUpdates := Updates (mgr w)\<rparr>))
      ((w', triedAll ?as why), Done (Inr Returned, l))" by blast
  have "card (active ?l) = ?m - 0" using t by (intro trying_card [OF _ keys(1)]) simp
  moreover have "0 < ?m" using M(2) keys(3) by simp
  ultimately have "active ?l \<noteq> {}" by (metis card.empty diff_zero less_irrefl)
  from head_waits [where select = ?select, OF todo this select]
  have head: "systemRuns ((w, crewAt rt cfg meta peerID ?as ?err 0 ?m), appHead meta ?es ?select ?l) ((w', triedAll ?as why), Done (Inr Returned, l))" .
  have new: "(newSupervisor n)\<lparr>trackers := n'\<rparr> = newSupervisor n'" by (simp add: newSupervisor_def)
  have announce: "runP (announceApp rt meta peerID (announceOptions cfg meta (str ''started'') (CompletedBytes (mgr w))) (newSupervisor n))
      (w, []) = ((Inr (Inr response), newSupervisor n'), (w, []))"
    using tracker by (simp add: alone_announce new) (simp add: newSupervisor_def)
  have go: "systemRuns ((w, []), seqW (setW (addPeers ?as)) (seqW (launchWorkers rt cfg meta peerID)
      (seqW (setW (\<lambda>l. l\<lparr>reannounceTimer := NewTimer (i64 (Interval response * second)), idleTimer := NewTimer (NoProgressLimit cfg),
        lastCompleted := fst (Progress (mgr w))\<rparr>)) (appHead meta ?es ?select))) (newSupervisor n'))
      ((w', triedAll ?as why), Done (Inr Returned, l))"
    by (rule runs_seq, rule alone_eval(7), rule runs_seq, rule l1(1), rule runs_seq, rule alone_eval(7), rule head)
  have "systemRuns ((w, []), downloadTorrent rt cfg meta peerID ?es (newSupervisor n)) ((w', triedAll ?as why), Done (Inr Returned, l))"
    unfolding downloadTorrent_def
    by (rule runs_bind, rule alone_eval(11), rule runs_bind, rule alone_eval(11), unfold fst_conv,
        rule runs_bind, rule announce) (use go keys(3) in simp)
  then show ?thesis using why by blast
qed

text \<open>The download of whatever is missing, and what becomes of the world.\<close>

lemma download_seeded:
  fixes rt :: "'n runtime"
  assumes "managerInv w" "busy w = {}" "faults (disk w) = []" "\<not> closed (storage (mgr w))"
    "numPieces (mgr w) \<le> 2 ^ 32" "length (Pieces meta) = numPieces (mgr w)" "\<not> IsComplete (mgr w)"
    and good: "goodData w D"
    and tracker: "AnnounceFirst (unicodeTables rt) (networkOf rt) NewTrackerClient (Some meta) peerID
      (announceOptions cfg meta (str ''started'') (CompletedBytes (mgr w))) n = (Inr response, n')"
    "onePeer rt cfg meta peerID (Peers response)" and workers: "0 < MaxWorkers cfg"
    and dialled: "ConnectContext (dialOf rt (length (Peers response) - 1)) (last (Peers response)) (InfoHash meta) peerID (PeerConfig cfg) = Inr cl"
    and cl: "\<not> connClosed (Conn cl)" "writes (Conn cl) = []"
    and events: "eventsOf rt (length (Peers response) - 1) = seederEvents (mgr w) D @ es"
  shows "\<exists>w' l why. systemRuns ((w, []), downloadTorrent rt cfg meta peerID (map ResultArrives [0..<length (Peers response)]) (newSupervisor n))
      ((w', triedAll (Peers response) why), Done (Inr Returned, l)) \<and>
    (\<forall>k. Suc k < length (Peers response) \<longrightarrow>
       ConnectContext (dialOf rt k) (Peers response ! k) (InfoHash meta) peerID (PeerConfig cfg) = Inl (why k)) \<and>
    IsComplete (mgr w') \<and> managerInv w' \<and> layout (mgr w') = layout (mgr w) \<and> undisturbed w w' \<and>
    fetched (missing (mgr w)) D w w'"
proof -
  let ?k = "length (Peers response) - 1"
  obtain wl w' where w': "runP (RunClient (Some cl) (Some meta) (workerOptions cfg) (eventsOf rt ?k)) w = ((Inr Returned, Some wl), w')"
    "IsComplete (mgr w')" "managerInv w'" "layout (mgr w') = layout (mgr w)" "undisturbed w w'" "fetched (missing (mgr w)) D w w'"
    using RunClient_seeder [OF assms(1-6) good assms(7) cl, of "workerOptions cfg" es] unfolding events by blast
  have "runP (goroutineOf rt cfg meta peerID (last (Peers response)) ?k) w = ((last (Peers response), Inr Returned), w')"
    using dialled w'(1) by (simp add: goroutineOf_def StartWorker_def workerOptions_def)
  from download_runs [OF assms(7) workers tracker this w'(2)] w'(2-6) show ?thesis by blast
qed

section \<open>Progress\<close>

text \<open>
  C7. The download can be driven to its end. Let the tracker name peers of which all but the last refuse the connection
  or fail the handshake, however many they are and however few workers are allowed, as long as it is one; let the
  last peer answer the handshake, have everything and react to what the worker sends it, an unchoke after
  \<open>interested\<close> and the requested bytes after a request (whatever it does when the worker needs no more); let the
  disk be without faults and the storage open. Then from any state of the pieces in which some are missing there
  is an execution of \<open>downloadTorrent\<close> that returns without an error when it has received the results of all peers
  in turn: the torrent is complete, the missing pieces hold the peer's bytes and the others what they held,
  and every goroutine has ended, each of the first with the error of its connection and the last one without any.
\<close>

theorem download_completes:
  fixes rt :: "'n runtime"
  assumes "managerInv w" "busy w = {}" "faults (disk w) = []" "\<not> closed (storage (mgr w))"
    "numPieces (mgr w) \<le> 2 ^ 32" "length (Pieces meta) = numPieces (mgr w)" "\<not> IsComplete (mgr w)"
    "\<forall>i<numPieces (mgr w). int (length (D i)) = pieceLen (pieces (mgr w) ! i) \<and> sha1 (D i) = Hash (pieces (mgr w) ! i)"
    and "AnnounceFirst (unicodeTables rt) (networkOf rt) NewTrackerClient (Some meta) peerID
      (announceOptions cfg meta (str ''started'') (CompletedBytes (mgr w))) n = (Inr response, n')"
    "onePeer rt cfg meta peerID (Peers response)" "0 < MaxWorkers cfg"
    and "ConnectContext (dialOf rt (length (Peers response) - 1)) (last (Peers response)) (InfoHash meta) peerID (PeerConfig cfg) = Inr cl"
    "\<not> connClosed (Conn cl)" "writes (Conn cl) = []"
    "eventsOf rt (length (Peers response) - 1) = conversation cl meta (workerOptions cfg) D w fuel [] @ es"
    "messagesNeeded (mgr w) \<le> fuel"
  shows "\<exists>w' l why. systemRuns ((w, []), downloadTorrent rt cfg meta peerID (map ResultArrives [0..<length (Peers response)]) (newSupervisor n))
      ((w', map (\<lambda>k. Done (Peers response ! k, if Suc k < length (Peers response) then Inl (ConnectFailed (why k)) else Inr Returned))
         [0..<length (Peers response)]), Done (Inr Returned, l)) \<and>
    (\<forall>k. Suc k < length (Peers response) \<longrightarrow>
       ConnectContext (dialOf rt k) (Peers response ! k) (InfoHash meta) peerID (PeerConfig cfg) = Inl (why k)) \<and>
    IsComplete (mgr w') \<and> managerInv w' \<and> layout (mgr w') = layout (mgr w) \<and>
    (\<forall>i<numPieces (mgr w). pieceData w' i = (if stateAt (mgr w) i = PieceMissing then D i else pieceData w i))"
proof -
  have D: "goodData w D" using assms(8) by (simp add: goodData_def)
  have "conversation cl meta (workerOptions cfg) D w fuel [] = seederEvents (mgr w) D"
    by (rule conversation_eq [OF assms(1-6) D assms(7,13,14)]) (use assms(16) seederEvents_length [OF D] in simp)
  with assms(15) have "eventsOf rt (length (Peers response) - 1) = seederEvents (mgr w) D @ es" by simp
  from download_seeded [OF assms(1-7) D assms(9-14) this] obtain w' l why where r:
    "systemRuns ((w, []), downloadTorrent rt cfg meta peerID (map ResultArrives [0..<length (Peers response)]) (newSupervisor n))
      ((w', triedAll (Peers response) why), Done (Inr Returned, l))"
    "\<forall>k. Suc k < length (Peers response) \<longrightarrow>
       ConnectContext (dialOf rt k) (Peers response ! k) (InfoHash meta) peerID (PeerConfig cfg) = Inl (why k)"
    "IsComplete (mgr w')" "managerInv w'" "layout (mgr w') = layout (mgr w)" "fetched (missing (mgr w)) D w w'" by blast
  have "\<forall>i<numPieces (mgr w). pieceData w' i = (if stateAt (mgr w) i = PieceMissing then D i else pieceData w i)"
    using r(6) by (simp add: fetched_def missing_def)
  with r(1-5) show ?thesis unfolding triedAll_def by blast
qed

end
