(* ===== verification/StorageProgress.thy ===== *)
theory StorageProgress
  imports FileStoreOpen
begin

text \<open>
  When the storage can be opened and finished. On a disk whose calls work, with room for the torrent (no
  file stands where a directory is needed, no directory or symlink where a file is), every step of
  \<open>NewStorageAt\<close> and \<open>Complete\<close> succeeds.
\<close>

section \<open>Directories\<close>

text \<open>What stands at a path: nothing or a directory, the latter possibly through a symlink; nothing or a file.\<close>

definition dirFree :: "path \<Rightarrow> os \<Rightarrow> bool" where
  "dirFree q s \<longleftrightarrow> getNode q s = None \<or> isDirAt q s"

definition plainDirFree :: "path \<Rightarrow> os \<Rightarrow> bool" where
  "plainDirFree q s \<longleftrightarrow> getNode q s = None \<or> getNode q s = Some DirN"

definition fileFree :: "path \<Rightarrow> os \<Rightarrow> bool" where
  "fileFree q s \<longleftrightarrow> getNode q s = None \<or> (\<exists>d. getNode q s = Some (FileN d))"

lemma dirFree_plain: "plainDirFree q s \<Longrightarrow> dirFree q s"
  by (auto simp: dirFree_def plainDirFree_def isDirAt_def)

text \<open>A path and the directories it stands in, and the disk with every missing one of some paths made a directory.\<close>

definition ancestors :: "path \<Rightarrow> path set" where
  "ancestors p = {Path (rooted p) ds | ds. ds \<noteq> [] \<and> prefix ds (parts p)}"

definition makeDirs :: "path set \<Rightarrow> os \<Rightarrow> os" where
  "makeDirs A s = s\<lparr>nodes := \<lambda>q. if q \<in> A \<and> nodes s q = None then Some DirN else nodes s q\<rparr>"

lemma makeDirs_simps [simp]:
  "faults (makeDirs A s) = faults s" "makeDirs {} s = s" "fileData (makeDirs A s) q = fileData s q"
  "makeDirs A (makeDirs B s) = makeDirs (B \<union> A) s"
  by (auto simp: makeDirs_def fileData_def fun_eq_iff)

lemma makeDirs_node:
  "getNode q (makeDirs A s) = (if q \<in> A \<and> getNode q s = None then Some DirN else getNode q s)"
  by (simp add: makeDirs_def getNode_def)

lemma makeDirs_keeps:
  "isDirAt q s \<Longrightarrow> isDirAt q (makeDirs A s)" "dirFree q s \<Longrightarrow> dirFree q (makeDirs A s)"
  "plainDirFree q s \<Longrightarrow> plainDirFree q (makeDirs A s)"
  "fileFree q s \<Longrightarrow> q \<notin> A \<Longrightarrow> fileFree q (makeDirs A s)"
  by (auto simp: isDirAt_def dirFree_def plainDirFree_def fileFree_def makeDirs_node)

lemma makeDirs_made: "dirFree q s \<Longrightarrow> q \<in> A \<Longrightarrow> isDirAt q (makeDirs A s)"
  by (auto simp: isDirAt_def dirFree_def makeDirs_node)

lemma makeDirs_plain: "plainDirFree q s \<Longrightarrow> q \<in> A \<Longrightarrow> getNode q (makeDirs A s) = Some DirN"
  by (auto simp: plainDirFree_def makeDirs_node)

lemma mkdirParts_ok:
  assumes "\<And>ds. ds \<noteq> [] \<Longrightarrow> prefix ds cs \<Longrightarrow> dirFree (Path r (dn @ ds)) s"
  shows "mkdirParts r dn cs s = (Inr (), makeDirs {Path r (dn @ ds) | ds. ds \<noteq> [] \<and> prefix ds cs} s)"
  using assms
proof (induction cs arbitrary: dn s)
  case (Cons c cs)
  let ?p = "Path r (dn @ [c])" and ?A = "{Path r ((dn @ [c]) @ ds) | ds. ds \<noteq> [] \<and> prefix ds cs}"
  have p: "dirFree ?p s" using Cons.prems [of "[c]"] by simp
  have step: "mkdirParts r dn (c # cs) s = mkdirParts r (dn @ [c]) cs (makeDirs {?p} s)"
  proof (cases "getNode ?p s")
    case None
    then have "(nodes s)(?p := Some DirN) = (\<lambda>q. if q \<in> {?p} \<and> nodes s q = None then Some DirN else nodes s q)"
      by (auto simp: getNode_def)
    then have "setNode ?p DirN s = makeDirs {?p} s" by (simp add: setNode_def makeDirs_def)
    with None show ?thesis by (simp add: Let_def)
  next
    case (Some m)
    then have "nodes s ?p = Some m" by (simp add: getNode_def)
    then have "makeDirs {?p} s = s" by (simp add: makeDirs_def fun_eq_iff)
    with Some p show ?thesis by (simp add: Let_def dirFree_def)
  qed
  have rest: "mkdirParts r (dn @ [c]) cs (makeDirs {?p} s) = (Inr (), makeDirs ?A (makeDirs {?p} s))"
  proof (rule Cons.IH)
    fix ds :: "bytes list"
    assume "ds \<noteq> []" "prefix ds cs"
    then show "dirFree (Path r ((dn @ [c]) @ ds)) (makeDirs {?p} s)"
      using Cons.prems [of "c # ds"] by (simp add: makeDirs_keeps)
  qed
  have "{?p} \<union> ?A = {Path r (dn @ ds) | ds. ds \<noteq> [] \<and> prefix ds (c # cs)}"
    by (auto simp: prefix_Cons)
  with step rest show ?case by simp
qed simp

lemma MkdirAll_ok:
  assumes "faults s = []" "\<And>q. q \<in> ancestors p \<Longrightarrow> dirFree q s"
  shows "MkdirAll p s = (Inr (), makeDirs (ancestors p) s)"
  using assms mkdirParts_ok [of "parts p" "rooted p" "[]" s]
  by (auto simp: MkdirAll_def sysCall_def ancestors_def)

lemma ancestors_below: "ancestors (below p cs) = ancestors p \<union> {below p ds | ds. ds \<noteq> [] \<and> prefix ds cs}"
  by (auto simp: ancestors_def below_def prefix_append)

section \<open>Symlink checks\<close>

lemma Lstat_ok: "faults s = [] \<Longrightarrow> Lstat p s = (case getNode p s of None \<Rightarrow> Inl ErrNotExist | Some n \<Rightarrow> Inr n, s)"
  by (simp add: Lstat_def sysCall_def)

lemma rejectSymlink_ok:
  "faults s = [] \<Longrightarrow> getNode p s = Some DirN \<Longrightarrow> rejectSymlink p s = (Inr (), s)"
  "faults s = [] \<Longrightarrow> getNode p s = None \<Longrightarrow> rejectSymlink p s = (Inl (StorageOS ErrNotExist), s)"
  by (simp_all add: rejectSymlink_def Lstat_ok act_eval)

lemma rejectSymlinksLoop_ok:
  assumes "faults s = []" "\<forall>c\<in>set cs. plain c" "\<And>ds. ds \<noteq> [] \<Longrightarrow> prefix ds cs \<Longrightarrow> plainDirFree (below p ds) s"
  shows "rejectSymlinksLoop p cs s = (Inr (), s)"
  using assms
proof (induction cs arbitrary: p)
  case (Cons c cs)
  have join: "joinPath p [c] = below p [c]" using Cons.prems(2) by (simp add: joinPath_plain)
  have p: "getNode (below p [c]) s = None \<or> getNode (below p [c]) s = Some DirN"
    using Cons.prems(3) [of "[c]"] by (simp add: plainDirFree_def)
  have "plainDirFree (below (below p [c]) ds) s" if "ds \<noteq> []" "prefix ds cs" for ds
    using Cons.prems(3) [of "c # ds"] that by (simp add: below_def)
  then have "rejectSymlinksLoop (below p [c]) cs s = (Inr (), s)" using Cons by simp
  then show ?case using p rejectSymlink_ok Cons.prems(1) by (auto simp: join act_eval Let_def)
qed (simp add: act_eval)

lemma relPath_below [simp]: "relPath p (below p cs) = Some cs"
proof -
  have "relParts ps (ps @ cs) = ([], cs)" for ps by (induction ps) auto
  then show ?thesis by (simp add: relPath_def below_def)
qed

lemma plain_inside: "\<forall>c\<in>set cs. plain c \<Longrightarrow> \<not> escapes cs"
  by (cases cs) (auto simp: escapes_def plain_def)

lemma rejectSymlinksBetween_ok:
  assumes "faults s = []" "\<forall>c\<in>set cs. plain c" "getNode p s = Some DirN"
    "\<And>ds. ds \<noteq> [] \<Longrightarrow> prefix ds cs \<Longrightarrow> plainDirFree (below p ds) s"
  shows "rejectSymlinksBetween p (below p cs) s = (Inr (), s)"
  using assms plain_inside rejectSymlink_ok rejectSymlinksLoop_ok
  by (simp add: rejectSymlinksBetween_def act_eval)

lemma joinInside_ok: "\<forall>c\<in>set cs. plain c \<Longrightarrow> joinInside p cs = Inr (below p cs)"
  by (simp add: joinInside_def joinPath_plain plain_inside)

section \<open>Opening a file\<close>

lemma openSizedFile_ok:
  assumes "faults s = []" "fileFree p s" "isDirAt (dirPath p) s" "0 \<le> n"
  shows "openSizedFile p n s = (Inr p, setNode p (FileN (resize (nat n) (fileData s p))) s)"
proof -
  have ne: "parts p \<noteq> []" using assms(2) by (auto simp: fileFree_def getNode_def)
  have "openAndSize p n s = (Inr p, setNode p (FileN (resize (nat n) (fileData s p))) s)"
    using assms ne
    by (auto simp: openAndSize_def OpenFile_def Truncate_def sysCall_def act_eval fileFree_def getNode_def setNode_def
        fileData_def)
  then show ?thesis using assms(1,2) by (auto simp: openSizedFile_def act_eval Lstat_ok fileFree_def)
qed

lemma validateComponents_ok:
  "\<forall>c\<in>set cs. ValidatePathComponent u c = Inr () \<Longrightarrow> validateComponents u i cs = Inr ()"
  by (induction cs) auto

text \<open>The directories and the file of one path below the root, on a disk that has room for them.\<close>

definition roomBelow :: "path \<Rightarrow> FileInfo \<Rightarrow> os \<Rightarrow> bool" where
  "roomBelow root f s \<longleftrightarrow> fileFree (below root (filePath f)) s \<and>
     (\<forall>ds. strict_prefix ds (filePath f) \<longrightarrow> plainDirFree (below root ds) s)"

lemma not_ancestor: "\<not> prefix cs ds \<Longrightarrow> below root cs \<notin> ancestors (below root ds)"
  by (auto simp: ancestors_def below_def)

lemma not_prefix_butlast: "\<not> prefix cs ds \<Longrightarrow> \<not> prefix cs (butlast ds)" "ds \<noteq> [] \<Longrightarrow> \<not> prefix ds (butlast ds)"
  by (blast intro: prefix_order.trans prefixeq_butlast) (cases ds rule: rev_cases, auto dest: prefix_length_le)

lemma fileFree_parent:
  "roomBelow root f s \<Longrightarrow> filePath f \<noteq> [] \<Longrightarrow>
   fileFree (below root (filePath f)) (makeDirs (ancestors (below root (butlast (filePath f)))) s)"
  by (simp add: roomBelow_def makeDirs_keeps not_ancestor not_prefix_butlast)

lemma openFileSpan_ok:
  assumes ok: "faults s = []" and f: "fileOk u f" and room: "roomBelow root f s" "getNode root s = Some DirN"
    "\<And>q. q \<in> ancestors root \<Longrightarrow> isDirAt q s" and bound: "0 \<le> offset" "offset + fileLength f \<le> MaxInt64"
  defines "p \<equiv> below root (filePath f)" and "t \<equiv> makeDirs (ancestors (below root (butlast (filePath f)))) s"
  shows "openFileSpan u root i offset f s =
    (Inr \<lparr>spanPath = p, spanStart = offset, spanEnd = offset + fileLength f\<rparr>,
     setNode p (FileN (resize (nat (fileLength f)) (fileData s p))) t)"
proof -
  let ?ds = "butlast (filePath f)"
  have len: "0 \<le> fileLength f" "filePath f \<noteq> []" and valid: "\<forall>c\<in>set (filePath f). ValidatePathComponent u c = Inr ()"
    using f by (simp_all add: fileOk_def)
  have pl: "\<forall>c\<in>set (filePath f). plain c" using valid ValidatePathComponent_safe safe_plain by blast
  then have pl': "\<forall>c\<in>set ?ds. plain c" by (auto dest: in_set_butlastD)
  have dir: "dirPath p = below root ?ds" using len(2) by (simp add: p_def dirPath_def below_def butlast_append)
  have strict: "strict_prefix ds (filePath f)" if "prefix ds ?ds" for ds
    using that len(2) by (metis append_butlast_last_id prefix_order.le_less_trans prefix_snocD prefix_order.less_le
        strict_prefixI' append.right_neutral)
  have free: "plainDirFree (below root ds) s" if "prefix ds ?ds" for ds
    using room(1) strict [OF that] by (simp add: roomBelow_def)
  have anc: "dirFree q s" if "q \<in> ancestors (below root ?ds)" for q
    using that free [THEN dirFree_plain] room(3) by (auto simp: ancestors_below dirFree_def)
  have t: "faults t = []" "getNode root t = Some DirN" "\<And>ds. prefix ds ?ds \<Longrightarrow> plainDirFree (below root ds) t"
    using ok room(2) free by (simp_all add: t_def makeDirs_node makeDirs_keeps)
  have "isDirAt (dirPath p) t"
  proof (cases "?ds = []")
    case True
    then show ?thesis using t(2) by (simp add: dir below_def isDirAt_def)
  next
    case False
    then show ?thesis using makeDirs_made [OF anc, of "below root ?ds"] by (simp add: dir t_def ancestors_below)
  qed
  moreover have "fileFree p t" unfolding p_def t_def by (rule fileFree_parent [OF room(1) len(2)])
  ultimately have opened: "openSizedFile p (fileLength f) t = (Inr p, setNode p (FileN (resize (nat (fileLength f)) (fileData s p))) t)"
    using openSizedFile_ok [OF t(1), of p "fileLength f"] len(1) by (simp add: t_def)
  have chk: "rejectSymlinksBetween root (below root ?ds) s = (Inr (), s)" "rejectSymlinksBetween root (below root ?ds) t = (Inr (), t)"
    using rejectSymlinksBetween_ok [OF _ pl'] ok room(2) free t by blast+
  have i64: "i64 (MaxInt64 - offset) = MaxInt64 - offset" "i64 (offset + fileLength f) = offset + fileLength f"
    using bound len by (simp_all add: i64_nonneg_id)
  have mk: "MkdirAll (below root ?ds) s = (Inr (), t)" unfolding t_def by (rule MkdirAll_ok [OF ok anc])
  have cl: "faults x = [] \<Longrightarrow> CloseFile q x = (Inr (), x)" for q x by (simp add: CloseFile_def sysCall_def act_eval)
  show ?thesis
    using len bound t(1) validateComponents_ok [OF valid] joinInside_ok [OF pl]
    by (simp add: openFileSpan_def act_eval Let_def p_def [symmetric] dir chk mk opened i64 cl setNode_def
        cong: act_cong)
qed

text \<open>
  Opening adds directories and files below the root and takes no directory away.
\<close>

definition growsBelow :: "path \<Rightarrow> os \<Rightarrow> os \<Rightarrow> bool" where
  "growsBelow root s t \<longleftrightarrow> faults t = [] \<and> (\<forall>q. isDirAt q s \<longrightarrow> isDirAt q t) \<and>
     (\<forall>q. stripPrefix root q = None \<longrightarrow> nodes t q = nodes s q)"

lemma growsBelow_trans: "growsBelow root s t \<Longrightarrow> growsBelow root t u \<Longrightarrow> growsBelow root s u"
  by (simp add: growsBelow_def)

lemma growsBelow_makeDirs:
  assumes "faults s = []" "\<And>q. q \<in> ancestors root \<Longrightarrow> isDirAt q s"
  shows "growsBelow root s (makeDirs (ancestors (below root ds)) s)"
proof -
  have "nodes (makeDirs (ancestors (below root ds)) s) q = nodes s q" if "stripPrefix root q = None" for q
  proof (cases "q \<in> ancestors root")
    case True
    then have "nodes s q \<noteq> None" using assms(2) [OF True] by (auto simp: ancestors_def isDirAt_def getNode_def)
    then show ?thesis by (simp add: makeDirs_def)
  next
    case False
    then show ?thesis using that by (auto simp: makeDirs_def ancestors_below)
  qed
  then show ?thesis using assms(1) by (simp add: growsBelow_def makeDirs_keeps)
qed

lemma growsBelow_file:
  assumes "faults s = []" "fileFree (below root cs) s"
  shows "growsBelow root s (setNode (below root cs) (FileN d) s)"
  using assms by (auto simp: growsBelow_def setNode_def isDirAt_def getNode_def fileFree_def)

text \<open>Opening one file leaves room for another.\<close>

lemma roomBelow_file:
  assumes "roomBelow root g s" "\<not> prefix (filePath f) (filePath g)" "\<not> prefix (filePath g) (filePath f)"
  shows "roomBelow root g (setNode (below root (filePath f)) (FileN d) (makeDirs (ancestors (below root (butlast (filePath f)))) s))"
    (is "roomBelow root g (setNode ?p _ ?t)")
proof -
  have new: "below root (filePath g) \<notin> ancestors (below root (butlast (filePath f)))"
    by (intro not_ancestor not_prefix_butlast assms)
  have other: "getNode q (setNode ?p (FileN d) ?t) = getNode q ?t" if "q \<noteq> ?p" for q
    using that by (simp add: getNode_def setNode_def)
  have "below root (filePath g) \<noteq> ?p" using assms(2) by auto
  moreover have "below root ds \<noteq> ?p" if "strict_prefix ds (filePath g)" for ds
    using that assms(2) by (auto simp: strict_prefix_def)
  moreover have "fileFree (below root (filePath g)) ?t" "\<And>ds. strict_prefix ds (filePath g) \<Longrightarrow> plainDirFree (below root ds) ?t"
    using assms(1) new by (simp_all add: roomBelow_def makeDirs_keeps)
  ultimately show ?thesis using other by (simp add: roomBelow_def fileFree_def plainDirFree_def)
qed

definition filesApart :: "FileInfo list \<Rightarrow> bool" where
  "filesApart = sorted_wrt (\<lambda>f g. \<not> prefix (filePath f) (filePath g) \<and> \<not> prefix (filePath g) (filePath f))"

lemma pathsApart_files: "pathsApart u fs \<Longrightarrow> filesApart fs"
  unfolding filesApart_def pathsApart_def sorted_wrt_iff_nth_less
proof (intro allI impI conjI notI)
  fix i j
  assume h: "\<forall>i<length fs. \<forall>j<length fs. i \<noteq> j \<longrightarrow>
      \<not> prefix (map (ToLower u) (filePath (fs ! i))) (map (ToLower u) (filePath (fs ! j)))" "i < j" "j < length fs"
  then have d: "i < length fs" "i \<noteq> j" by auto
  show "prefix (filePath (fs ! i)) (filePath (fs ! j)) \<Longrightarrow> False" using h d by (blast dest: map_mono_prefix)
  show "prefix (filePath (fs ! j)) (filePath (fs ! i)) \<Longrightarrow> False" using h d by (blast dest: map_mono_prefix)
qed

lemma openFilesLoop_ok:
  assumes "faults s = []" "\<forall>f\<in>set infos. fileOk u f \<and> roomBelow root f s" "filesApart infos" "getNode root s = Some DirN"
    "\<And>q. q \<in> ancestors root \<Longrightarrow> isDirAt q s" "0 \<le> offset" "offset + totalLength infos \<le> MaxInt64"
  shows "\<exists>ss t. openFilesLoop u root i offset infos s = (Inr (ss, offset + totalLength infos), t) \<and> growsBelow root s t"
  using assms
proof (induction infos arbitrary: i offset s)
  case Nil
  then show ?case by (simp add: growsBelow_def)
next
  case (Cons f fs)
  let ?p = "below root (filePath f)" and ?t = "makeDirs (ancestors (below root (butlast (filePath f)))) s"
  let ?u = "setNode ?p (FileN (resize (nat (fileLength f)) (fileData s ?p))) ?t"
  have f: "fileOk u f" "roomBelow root f s" "filePath f \<noteq> []" "0 \<le> fileLength f"
    using Cons.prems(2) by (auto simp: fileOk_def)
  have "0 \<le> totalLength fs" using Cons.prems(2) by (auto simp: totalLength_def fileOk_def intro!: sum_list_nonneg)
  then have bound: "offset + fileLength f \<le> MaxInt64" using Cons.prems(7) by simp
  note span = openFileSpan_ok [OF Cons.prems(1) f(1,2) Cons.prems(4,5,6) bound, of i]
  have "fileFree ?p ?t"
    by (rule fileFree_parent [OF f(2,3)])
  then have grow: "growsBelow root s ?u"
    using growsBelow_makeDirs [OF Cons.prems(1,5)] growsBelow_file [of ?t root "filePath f"] Cons.prems(1)
    by (auto intro: growsBelow_trans)
  have "roomBelow root g ?u" if "g \<in> set fs" for g
    using roomBelow_file [of root g s f] that Cons.prems(2,3) by (auto simp: filesApart_def)
  moreover have "getNode root ?u = Some DirN"
  proof -
    have "root \<noteq> ?p" using f(3) by (cases root) (simp add: below_def)
    then have "getNode root ?u = getNode root ?t" by (simp add: setNode_def getNode_def)
    then show ?thesis using Cons.prems(4) by (simp add: makeDirs_node)
  qed
  moreover have "\<And>q. q \<in> ancestors root \<Longrightarrow> isDirAt q ?u" using grow Cons.prems(5) by (simp add: growsBelow_def)
  moreover have "faults ?u = []" "filesApart fs" using Cons.prems(1,3) by (simp_all add: setNode_def filesApart_def)
  moreover have "offset + fileLength f + totalLength fs \<le> MaxInt64" using Cons.prems(7) by simp
  ultimately obtain ss t where rest: "openFilesLoop u root (Suc i) (offset + fileLength f) fs ?u =
      (Inr (ss, offset + fileLength f + totalLength fs), t)" "growsBelow root ?u t"
    using Cons.IH [of ?u "offset + fileLength f" "Suc i"] Cons.prems(2,6) f(4) by auto
  have "i64 (offset + fileLength f) = offset + fileLength f" using bound Cons.prems(6) f(4) by (simp add: i64_nonneg_id)
  then show ?case using span rest growsBelow_trans [OF grow] by (simp add: act_eval add.assoc)
qed

section \<open>Opening the storage\<close>

text \<open>
  There is room for the torrent: the directories can be made, none of the storage's own is a symlink, and
  every file of the torrent is missing or a file.
\<close>

definition roomFor :: "bytes \<Rightarrow> TorrentMeta \<Rightarrow> os \<Rightarrow> bool" where
  "roomFor dir meta s \<longleftrightarrow> (\<forall>q\<in>ancestors (parsePath dir). dirFree q s) \<and>
     plainDirFree (inProgressDir dir) s \<and> plainDirFree (completedDir dir) s \<and>
     (\<forall>f\<in>set (torrentFiles meta). roomBelow (below (inProgressDir dir) [Name meta @ str ''.part'']) f s) \<and>
     getNode (below (completedDir dir) [Name meta]) s = None"

text \<open>What \<open>Complete\<close> needs: the partial download is there, and its destination is free and below a directory.\<close>

definition finishable :: "Storage \<Rightarrow> os \<Rightarrow> bool" where
  "finishable st s \<longleftrightarrow> faults s = [] \<and> getNode (InProgressPath st) s \<noteq> None \<and> getNode (CompletedPath st) s = None \<and>
     isDirAt (dirPath (CompletedPath st)) s \<and> stripPrefix (InProgressPath st) (CompletedPath st) = None \<and>
     (\<forall>sp\<in>set (spans st). \<exists>cs. spanPath sp = below (InProgressPath st) cs)"

lemma storage_dirs:
  "inProgressDir dir = below (parsePath dir) [str ''in-progress'']"
  "completedDir dir = below (parsePath dir) [str ''completed'']"
  by (simp_all add: inProgressDir_def completedDir_def joinPath_plain plain_def sep_def)

lemma CloseFile_ok: "faults s = [] \<Longrightarrow> CloseFile q s = (Inr (), s)"
  by (simp add: CloseFile_def sysCall_def act_eval)

lemma storage_made:
  assumes ok: "faults s = []" and room: "roomFor dir meta s"
  obtains t where "t = makeDirs (ancestors (inProgressDir dir) \<union> ancestors (completedDir dir)) s" "faults t = []"
    "MkdirAll (inProgressDir dir) s = (Inr (), makeDirs (ancestors (inProgressDir dir)) s)"
    "MkdirAll (completedDir dir) (makeDirs (ancestors (inProgressDir dir)) s) = (Inr (), t)"
    "getNode (inProgressDir dir) t = Some DirN" "getNode (completedDir dir) t = Some DirN"
    "\<And>q. q \<in> ancestors (inProgressDir dir) \<Longrightarrow> isDirAt q t"
proof -
  let ?A = "ancestors (inProgressDir dir)" and ?B = "ancestors (completedDir dir)"
  let ?t = "makeDirs (?A \<union> ?B) s"
  have one: "{below p ds | ds. ds \<noteq> [] \<and> prefix ds [c]} = {below p [c]}" for p c by (auto simp: prefix_Cons)
  have anc: "?A = insert (inProgressDir dir) (ancestors (parsePath dir))" "?B = insert (completedDir dir) (ancestors (parsePath dir))"
    unfolding storage_dirs ancestors_below one by auto
  have free: "dirFree q s" if "q \<in> ?A \<union> ?B" for q
    using that room dirFree_plain unfolding anc roomFor_def by blast
  show ?thesis
  proof (rule that)
    show "MkdirAll (inProgressDir dir) s = (Inr (), makeDirs ?A s)" using ok free by (intro MkdirAll_ok) auto
    show "MkdirAll (completedDir dir) (makeDirs ?A s) = (Inr (), ?t)"
      using MkdirAll_ok [of "makeDirs ?A s" "completedDir dir"] ok free by (simp add: makeDirs_keeps)
    show "getNode (inProgressDir dir) ?t = Some DirN" "getNode (completedDir dir) ?t = Some DirN"
      using room by (auto simp: roomFor_def anc intro: makeDirs_plain)
    show "isDirAt q ?t" if "q \<in> ?A" for q using free that by (intro makeDirs_made) auto
  qed (use ok in simp_all)
qed

lemma ancestors_length: "q \<in> ancestors p \<Longrightarrow> length (parts q) \<le> length (parts p)"
  by (auto simp: ancestors_def dest: prefix_length_le)

lemma makeDirs_other: "q \<notin> A \<Longrightarrow> getNode q (makeDirs A s) = getNode q s"
  by (simp add: makeDirs_node)

lemma roomBelow_makeDirs:
  "roomBelow root f s \<Longrightarrow> below root (filePath f) \<notin> A \<Longrightarrow> roomBelow root f (makeDirs A s)"
  by (simp add: roomBelow_def makeDirs_keeps)

text \<open>The tree of the download and its destination are apart.\<close>

lemma trees_apart:
  "stripPrefix (below (inProgressDir dir) (c # cs)) (below (completedDir dir) ds) = None"
proof -
  have "below (completedDir dir) ds \<noteq> below (below (inProgressDir dir) (c # cs)) es" for es
    by (simp add: storage_dirs below_def)
  then show ?thesis by (metis stripPrefix_Some not_None_eq)
qed

text \<open>The files, in either form of the torrent, below the directories that have been made.\<close>

definition layoutFiles :: "unicode \<Rightarrow> TorrentMeta \<Rightarrow> path \<Rightarrow> fileSpan list storageAct" where
  "layoutFiles u meta root =
     (if MultiFile meta then seqA (errA CreatePartialDirectory (MkdirAll root))
         (seqA (rejectSymlink root) (openMultiFile u root meta))
      else bindA (openSizedFile root (Length meta)) (\<lambda>file. seqA (errA StorageOS (CloseFile file))
         (retA [\<lparr>spanPath = root, spanStart = 0, spanEnd = Length meta\<rparr>])))"

lemma layoutFiles_ok:
  assumes wf: "metaWf u meta" and t: "faults t = []" "\<And>q. q \<in> ancestors d \<Longrightarrow> isDirAt q t" "getNode d t = Some DirN"
    and room: "\<And>f. f \<in> set (torrentFiles meta) \<Longrightarrow> roomBelow (below d [c]) f t"
  shows "\<exists>ss v. layoutFiles u meta (below d [c]) t = (Inr ss, v) \<and> growsBelow (below d [c]) t v \<and>
    getNode (below d [c]) v \<noteq> None"
proof (cases "MultiFile meta")
  case True
  let ?root = "below d [c]"
  let ?v = "makeDirs (ancestors ?root) t"
  have files: "torrentFiles meta = Files meta" "Files meta \<noteq> []" "\<forall>f\<in>set (Files meta). fileOk u f"
    "filesApart (Files meta)" "totalLength (Files meta) = Length meta" "Length meta \<le> MaxInt64"
    using wf True pathsApart_files by (auto simp: metaWf_def layoutOk_def torrentFiles_def)
  then have "filePath (hd (Files meta)) \<noteq> []" by (simp add: fileOk_def)
  then have "strict_prefix [] (filePath (hd (Files meta)))" by (intro strict_prefixI) auto
  then have root: "plainDirFree ?root t"
    using room [of "hd (Files meta)"] files(1,2) by (fastforce simp: roomBelow_def below_def)
  have anc: "ancestors ?root = insert ?root (ancestors d)" by (auto simp: ancestors_below prefix_Cons)
  have mk: "MkdirAll ?root t = (Inr (), ?v)"
    using t(1) by (rule MkdirAll_ok) (use dirFree_plain [OF root] t(2) in \<open>auto simp: anc dirFree_def\<close>)
  have dir: "getNode ?root ?v = Some DirN" by (rule makeDirs_plain [OF root]) (simp add: anc)
  have above: "isDirAt q ?v" if "q \<in> ancestors ?root" for q
    using that dir t(2) by (auto simp: anc isDirAt_def makeDirs_node)
  have roomv: "\<forall>f\<in>set (Files meta). fileOk u f \<and> roomBelow ?root f ?v"
  proof
    fix f assume f: "f \<in> set (Files meta)"
    then have "filePath f \<noteq> []" using files(3) by (simp add: fileOk_def)
    then have "below ?root (filePath f) \<notin> ancestors ?root" by (auto dest: ancestors_length)
    then show "fileOk u f \<and> roomBelow ?root f ?v" using f files(1,3) room by (simp add: roomBelow_makeDirs)
  qed
  have fv: "faults ?v = []" using t(1) by simp
  from openFilesLoop_ok [OF fv roomv files(4) dir above, of 0 0] files(5,6) obtain ss x where
    loop: "openFilesLoop u ?root 0 0 (Files meta) ?v = (Inr (ss, Length meta), x)" "growsBelow ?root ?v x" by auto
  have "growsBelow ?root t ?v"
  proof -
    have "nodes ?v q = nodes t q" if "stripPrefix ?root q = None" for q
    proof (cases "q \<in> ancestors d")
      case True
      then have "nodes t q \<noteq> None" using t(2) [OF True] by (auto simp: ancestors_def isDirAt_def getNode_def)
      then show ?thesis by (simp add: makeDirs_def)
    next
      case False
      have "q \<noteq> ?root" using that by (metis append_Nil2 below_def option.distinct(1) path.collapse stripPrefix_below)
      then show ?thesis using False by (simp add: makeDirs_def anc)
    qed
    then show ?thesis using t(1) by (simp add: growsBelow_def makeDirs_keeps)
  qed
  with loop(2) have grow: "growsBelow ?root t x" using growsBelow_trans by blast
  have "isDirAt ?root ?v" using dir by (simp add: isDirAt_def)
  then have "isDirAt ?root x" using loop(2) by (simp add: growsBelow_def)
  then have "getNode ?root x \<noteq> None" by (auto simp: isDirAt_def)
  moreover have "layoutFiles u meta ?root t = (Inr ss, x)"
    using files(2) True by (simp add: layoutFiles_def openMultiFile_def act_eval mk loop(1) rejectSymlink_ok(1) [OF fv dir]
        cong: act_cong)
  ultimately show ?thesis using grow by blast
next
  case False
  let ?root = "below d [c]"
  have room': "fileFree ?root t" using room False by (simp add: torrentFiles_def roomBelow_def below_def)
  have dir: "dirPath ?root = d" by (cases d) (simp add: dirPath_def below_def)
  have len: "0 \<le> Length meta" using wf by (simp add: metaWf_def layoutOk_def)
  have "isDirAt (dirPath ?root) t" using t(3) by (simp add: dir isDirAt_def)
  note op = openSizedFile_ok [OF t(1) room' this len]
  have "growsBelow ?root t (setNode ?root (FileN data) t)" for data
    using growsBelow_file [OF t(1), of ?root "[]" data] room' by (simp add: below_def)
  moreover have "faults (setNode ?root (FileN data) t) = []" "getNode ?root (setNode ?root (FileN data) t) \<noteq> None" for data
    using t(1) by (simp_all add: setNode_def getNode_def)
  ultimately show ?thesis using False by (simp add: layoutFiles_def act_eval op CloseFile_ok cong: act_cong)
qed

lemma NewStorageAt_ok:
  assumes wf: "metaWf u meta" and ok: "faults s = []" and room: "roomFor dir meta s"
  shows "\<exists>st t. NewStorageAt u (Some meta) dir s = (Inr st, t) \<and> finishable st t"
proof -
  let ?d = "inProgressDir dir" and ?c = "Name meta @ str ''.part''"
  let ?root = "below ?d [?c]"
  have safe: "ValidatePathComponent u (Name meta) = Inr ()" "safeComponent (Name meta)"
    using wf by (auto simp: metaWf_def dest: ValidatePathComponent_safe)
  have join: "joinPath ?d [?c] = ?root" "joinPath (completedDir dir) [Name meta] = below (completedDir dir) [Name meta]"
    using plain_part [OF safe(2)] safe_plain [OF safe(2)] by (simp_all add: joinPath_plain)
  obtain t where t: "t = makeDirs (ancestors ?d \<union> ancestors (completedDir dir)) s" "faults t = []"
    "MkdirAll ?d s = (Inr (), makeDirs (ancestors ?d) s)"
    "MkdirAll (completedDir dir) (makeDirs (ancestors ?d) s) = (Inr (), t)"
    "getNode ?d t = Some DirN" "getNode (completedDir dir) t = Some DirN" "\<And>q. q \<in> ancestors ?d \<Longrightarrow> isDirAt q t"
    using storage_made [OF ok room] by blast
  have new: "q \<notin> ancestors ?d \<union> ancestors (completedDir dir)" if "length (parts (parsePath dir)) + 1 < length (parts q)" for q
    using that by (auto simp: storage_dirs dest!: ancestors_length)
  have "roomBelow ?root f t" if "f \<in> set (torrentFiles meta)" for f
    unfolding t(1) by (rule roomBelow_makeDirs) (use room that new in \<open>auto simp: roomFor_def storage_dirs\<close>)
  from layoutFiles_ok [OF wf t(2,7,5) this] obtain ss v where
    v: "layoutFiles u meta ?root t = (Inr ss, v)" "growsBelow ?root t v" "getNode ?root v \<noteq> None" by blast
  let ?st = "\<lparr>spans = ss, storageTotal = Length meta, closed = False, InProgressPath = ?root,
    CompletedPath = below (completedDir dir) [Name meta]\<rparr>"
  have run: "NewStorageAt u (Some meta) dir s = (Inr ?st, v)"
    using wf t(2-6) safe(1) v(1)
    unfolding NewStorageAt_def Let_def option.case
    unfolding inProgressDir_def [symmetric] completedDir_def [symmetric]
    unfolding join layoutFiles_def [symmetric]
    by (simp add: act_eval rejectSymlink_ok metaWf_def layoutOk_def del: str_Cons cong: act_cong)
  have keep: "nodes v (below (completedDir dir) ds) = nodes t (below (completedDir dir) ds)" for ds
    using v(2) trees_apart by (simp add: growsBelow_def)
  have "getNode (below (completedDir dir) [Name meta]) v = None"
  proof -
    have "getNode (below (completedDir dir) [Name meta]) t = None"
      using room new [of "below (completedDir dir) [Name meta]"]
      by (simp add: t(1) makeDirs_other roomFor_def storage_dirs)
    then show ?thesis using keep by (simp add: getNode_def)
  qed
  moreover have "isDirAt (dirPath (below (completedDir dir) [Name meta])) v"
  proof -
    have "dirPath (below (completedDir dir) [Name meta]) = completedDir dir"
      by (cases "completedDir dir") (simp add: dirPath_def below_def)
    then show ?thesis using v(2) t(6) by (simp add: growsBelow_def isDirAt_def)
  qed
  moreover have "\<exists>cs. spanPath sp = below ?root cs" if "sp \<in> set ss" for sp
  proof -
    have "spanPath sp \<in> set (map spanPath ss)" using that by simp
    also have "map spanPath ss = map (\<lambda>f. below ?root (filePath f)) (torrentFiles meta)"
      using NewStorageAt_effect [OF wf run] by (simp add: laidOut_def)
    finally show ?thesis by auto
  qed
  moreover have "faults v = []" using v(2) by (simp add: growsBelow_def)
  ultimately have "finishable ?st v" using v(3) trees_apart [of dir ?c "[]"] by (simp add: finishable_def)
  with run show ?thesis by blast
qed

section \<open>Finishing\<close>

lemma finishable_inPlace:
  assumes "finishable st s" "faults t = []" "wfStorage t st"
    "\<And>q. q \<notin> spanPath ` set (spans st) \<Longrightarrow> nodes t q = nodes s q"
  shows "finishable st t"
proof -
  have out: "getNode q t = getNode q s" if "stripPrefix (InProgressPath st) q = None" for q
  proof -
    have "q \<notin> spanPath ` set (spans st)" using that assms(1) by (auto simp: finishable_def)
    then show ?thesis using assms(4) by (simp add: getNode_def)
  qed
  have "stripPrefix (InProgressPath st) (dirPath (CompletedPath st)) = None"
  proof -
    have "rooted (dirPath p) = rooted p" "\<exists>cs. parts p = parts (dirPath p) @ cs" for p
      by (simp_all add: dirPath_def) (metis append_butlast_last_id append_Nil2 butlast.simps(1))
    then show ?thesis using assms(1) unfolding finishable_def stripPrefix_def
      by (metis (no_types, lifting) append_assoc append_take_drop_id option.distinct(1) append_eq_conv_conj)
  qed
  note dir = out [OF this]
  have "getNode (InProgressPath st) t \<noteq> None"
  proof (cases "InProgressPath st \<in> spanPath ` set (spans st)")
    case True
    then obtain sp where "sp \<in> set (spans st)" "spanPath sp = InProgressPath st" by auto
    then show ?thesis using assms(3) by (auto simp: wfStorage_def backed_def getNode_def)
  next
    case False
    then have "getNode (InProgressPath st) t = getNode (InProgressPath st) s" using assms(4) by (simp add: getNode_def)
    then show ?thesis using assms(1) by (simp add: finishable_def)
  qed
  then show ?thesis using assms(1,2) out dir by (simp add: finishable_def isDirAt_def)
qed

lemma syncLoop_ok: "faults s = [] \<Longrightarrow> \<forall>sp\<in>set ss. backed s sp \<Longrightarrow> syncLoop ss s = (Inr (), s)"
  by (induction ss) (auto simp: act_eval syncSpan_def OpenFile_def Sync_def CloseFile_def sysCall_def backed_def getNode_def)

lemma Complete_ok:
  assumes "finishable st s" "wfStorage s st" "\<not> closed st"
  shows "\<exists>t. Complete st s = (Inr (st\<lparr>closed := True\<rparr>), t)"
proof -
  have "syncLoop (spans st) s = (Inr (), s)" using assms by (intro syncLoop_ok) (auto simp: finishable_def wfStorage_def)
  moreover have "\<exists>t. Rename (InProgressPath st) (CompletedPath st) s = (Inr (), t)"
    using assms(1) by (simp add: finishable_def Rename_def sysCall_def)
  ultimately show ?thesis using assms by (auto simp: Complete_def finishable_def act_eval Lstat_ok)
qed

section \<open>Properties\<close>

text \<open>
  C15. On a disk whose calls work and that has room for it, the storage of well-formed metadata can be opened,
  and completed as it is: \<open>NewStorageAt\<close> passes every check of names, lengths, symlinks and escaping paths,
  makes the directories and sizes the files, and the destination of \<open>Complete\<close> is free and reachable.
\<close>

theorem NewStorageAt_succeeds:
  assumes "metaWf u meta" "faults s = []" "roomFor dir meta s"
  shows "\<exists>st t t'. NewStorageAt u (Some meta) dir s = (Inr st, t) \<and> faults t = [] \<and>
    Complete st t = (Inr (st\<lparr>closed := True\<rparr>), t')"
proof -
  obtain st t where st: "NewStorageAt u (Some meta) dir s = (Inr st, t)" "finishable st t"
    using NewStorageAt_ok [OF assms] by blast
  moreover from NewStorageAt_effect [OF assms(1) st(1)] have "wfStorage t st" "\<not> closed st" by blast+
  moreover have "faults t = []" using st(2) by (simp add: finishable_def)
  ultimately show ?thesis using Complete_ok by blast
qed

lemma room_empty: "roomFor dir meta emptyDisk"
  by (auto simp: roomFor_def storage_dirs roomBelow_def fileFree_def plainDirFree_def dirFree_def getNode_def isDirAt_def
      emptyDisk_def ancestors_def)

theorem NewStorageAt_succeeds_witness:
  "\<exists>st t t'. NewStorageAt plainUnicode (Some sampleMeta) (str ''/d'') emptyDisk = (Inr st, t) \<and> faults t = [] \<and>
     Complete st t = (Inr (st\<lparr>closed := True\<rparr>), t')"
proof -
  have "faults emptyDisk = []" by (simp add: emptyDisk_def)
  from NewStorageAt_succeeds [OF sampleMeta_wf this room_empty] show ?thesis .
qed

end
