(* ===== verification/MainProgress.thy ===== *)
theory MainProgress
  imports AppProgress StorageProgress PeerStream
begin

text \<open>
  The whole program can succeed: on a disk that works and has room, with a tracker that names a peer and a
  peer that has everything, there is an execution of \<open>main\<close> that exits with status 0, from whatever an earlier
  run has left of the download.
\<close>

section \<open>Opening and restoring\<close>

text \<open>The world after \<open>NewStorageAt\<close>, \<open>NewPieceManager\<close> and \<open>RestoreExisting\<close>.\<close>

definition restoredWorld :: "unicode \<Rightarrow> TorrentMeta \<Rightarrow> bytes \<Rightarrow> world \<Rightarrow> world" where
  "restoredWorld u meta dir w = snd (RestoreExisting (snd (openWorld u meta dir w)))"

text \<open>What the download needs of it, and keeps.\<close>

definition downloadable :: "TorrentMeta \<Rightarrow> bytes \<Rightarrow> world \<Rightarrow> bool" where
  "downloadable meta dir w \<longleftrightarrow> pieceInv (layout (mgr w)) w \<and> openedLayout meta dir (layout (mgr w)) \<and>
     \<not> closed (storage (mgr w)) \<and> finishable (storage (mgr w)) (disk w)"

lemma downloadable_inv: "downloadable meta dir w \<Longrightarrow> managerInv w"
  by (simp add: downloadable_def pieceInv_def)

lemma openWorld_ok:
  assumes wf: "metaWf u meta" and disk: "faults (disk w) = []" "roomFor dir meta (disk w)"
  shows "\<exists>w1. openWorld u meta dir w = (Inr (), w1) \<and> downloadable meta dir w1"
proof -
  obtain st d where st: "NewStorageAt u (Some meta) dir (disk w) = (Inr st, d)" "finishable st d"
    using NewStorageAt_ok [OF assms] by blast
  let ?w1 = "w\<lparr>disk := d, mgr := NewPieceManager meta st\<rparr>"
  have run: "openWorld u meta dir w = (Inr (), ?w1)" by (simp add: openWorld_def st(1))
  have "managerInv ?w1" "openedLayout meta dir (layout (mgr ?w1))"
    using openedWorld_inv [OF wf openWorld_opens [OF wf run]] by simp_all
  moreover have "\<not> closed st" using NewStorageAt_effect [OF wf st(1)] by blast
  moreover have "storage (NewPieceManager meta st) = st" by (simp add: NewPieceManager_def)
  ultimately have "downloadable meta dir ?w1" using st(2) by (simp add: downloadable_def pieceInv_def)
  with run show ?thesis by blast
qed

lemma finishable_onlyFaults: "finishable st s \<Longrightarrow> onlyFaults s t \<Longrightarrow> finishable st t"
proof -
  assume h: "finishable st s" "onlyFaults s t"
  then have "getNode q t = getNode q s" for q by (simp add: onlyFaults_def getNode_def)
  then show ?thesis using h by (simp add: finishable_def onlyFaults_def isDirAt_def)
qed

lemma restore_ok:
  assumes w: "downloadable meta dir w"
  shows "\<exists>w'. RestoreExisting w = (Inr (), w') \<and> downloadable meta dir w'"
proof -
  obtain r w' where run: "RestoreExisting w = (r, w')" by fastforce
  have inv: "managerInv w" "\<not> closed (storage (mgr w))" "faults (disk w) = []"
    using w by (simp_all add: downloadable_def finishable_def pieceInv_def)
  have "restoreLoop [0..<numPieces (mgr w)] w = (r, w')" using run by (simp add: RestoreExisting_def numPieces_def)
  from restoreLoop_effect [OF inv(1) _ this] inv obtain D where "restored D w w'" "r = Inr ()" by auto
  then have res: "managerInv w'" "layout (mgr w') = layout (mgr w)" "onlyFaults (disk w) (disk w')" "r = Inr ()"
    by (simp_all add: restored_def)
  then have "downloadable meta dir w'"
    using w layout_eq(1) [OF res(2)] finishable_onlyFaults [OF _ res(3)] by (simp add: downloadable_def pieceInv_def)
  with run res(4) show ?thesis by blast
qed

lemma finalize_ok:
  assumes "downloadable meta dir w" "IsComplete (mgr w)"
  shows "\<exists>w'. Finalize w = (Inr (), w')"
proof -
  obtain t where "Complete (storage (mgr w)) (disk w) = (Inr ((storage (mgr w))\<lparr>closed := True\<rparr>), t)"
    using Complete_ok [of "storage (mgr w)" "disk w"] assms(1) by (auto simp: downloadable_def pieceInv_def managerInv_def)
  then show ?thesis using assms(2) by (simp add: Finalize_def act_eval onDisk_def onMgr_def cong: act_cong)
qed

lemma downloadable_undisturbed:
  assumes "downloadable meta dir w" "undisturbed w w'" "managerInv w'" "layout (mgr w') = layout (mgr w)"
  shows "downloadable meta dir w'"
  using assms layout_eq(1) [OF assms(4)] finishable_inPlace [of "storage (mgr w)" "disk w" "disk w'"]
  by (simp add: downloadable_def undisturbed_def pieceInv_def managerInv_def)

section \<open>A torrent's content\<close>

lemma downloadable_content:
  assumes w: "downloadable meta dir w" and content: "contentOf meta content"
  shows "goodData w (pieceOf meta content) \<and> length (Pieces meta) = numPieces (mgr w)"
proof -
  obtain st where st: "storageTotal st = Length meta" "layout (mgr w) = layout (NewPieceManager meta st)"
    and inv: "managerInv w" using w by (auto simp: downloadable_def pieceInv_def openedLayout_def openedStore_def)
  have s: "storage (mgr w) = st" "numPieces (mgr w) = length (Pieces meta)" "standardPieceLength (mgr w) = PieceLength meta"
    using layout_eq(1,2,3) [OF st(2)] by (simp_all add: NewPieceManager_def numPieces_def)
  have g: "geometry (mgr w)" using inv by (simp add: managerInv_def)
  have "int (length (pieceOf meta content i)) = pieceLen (pieces (mgr w) ! i) \<and>
      sha1 (pieceOf meta content i) = Hash (pieces (mgr w) ! i)" if i: "i < numPieces (mgr w)" for i
  proof -
    have pl: "pieceLen (pieces (mgr w) ! i) = min (PieceLength meta) (Length meta - int i * PieceLength meta)"
      "0 < pieceLen (pieces (mgr w) ! i)" "0 < PieceLength meta"
      using g i st(1) piece_range(2) [OF g i] by (simp_all add: geometry_def s)
    have "Hash (pieces (mgr w) ! i) = Pieces meta ! i"
      using layout_eq(7) [OF st(2), of i] i s(2) by (simp add: NewPieceManager_def newPiece_def)
    moreover have "int (length (pieceOf meta content i)) = pieceLen (pieces (mgr w) ! i)"
    proof -
      let ?k = "i * nat (PieceLength meta)"
      have k: "int ?k = int i * PieceLength meta" using pl(3) by simp
      have len: "int (length content) = Length meta" using content by (simp add: contentOf_def)
      have "int i * PieceLength meta < Length meta" using pl by linarith
      then have "?k < length content" unfolding k [symmetric] len [symmetric] by (simp del: of_nat_mult)
      then have "int (length content - ?k) = Length meta - int i * PieceLength meta" using k len by (simp add: of_nat_diff)
      then show ?thesis using pl(1,3) by (simp add: pieceOf_def min_def nat_le_iff) linarith
    qed
    ultimately show ?thesis using content i s(2) by (simp add: contentOf_def)
  qed
  then show ?thesis by (simp add: goodData_def s(2))
qed

section \<open>The execution\<close>

lemma runs_bind_runs:
  assumes "besideRuns rest (s, m l) (t, Done (Inr x, l'))" "besideRuns rest (t, f x l') d"
  shows "besideRuns rest (s, bindW m f l) d"
proof -
  let ?k = "\<lambda>(r, l'). case r of Inl e \<Rightarrow> Done (Inl e, l') | Inr x \<Rightarrow> f x l'"
  have "besideRuns rest (s, bindW m f l) (t, f x l')"
    using besideRuns_bind [OF assms(1), of ?k] unfolding fst_conv snd_conv bindW_def by simp
  with assms(2) show ?thesis by (rule rtranclp_trans [rotated])
qed

text \<open>
  What serves a download that starts with these pieces: a tracker, peers that cannot be connected to, and a
  last one that has the content. The supervisor will find the results of as many goroutines as there are peers.
\<close>

definition servedBy :: "'n runtime \<Rightarrow> appConfig \<Rightarrow> TorrentMeta \<Rightarrow> bytes \<Rightarrow> bytes \<Rightarrow> 'n \<Rightarrow> PieceManager \<Rightarrow> nat \<Rightarrow> bool" where
  "servedBy rt cfg meta peerID content n pm k \<longleftrightarrow> (\<exists>response n' c es.
     AnnounceFirst (unicodeTables rt) (networkOf rt) NewTrackerClient (Some meta) peerID
       (announceOptions cfg meta (str ''started'') (CompletedBytes pm)) n = (Inr response, n') \<and>
     onePeer rt cfg meta peerID (Peers response) \<and> length (Peers response) = Suc k \<and>
     dialOf rt k (addressString (last (Peers response))) (DialTimeout (withClientDefaults (PeerConfig cfg))) = Inr c \<and>
     seederConn (InfoHash meta) (seederMessages pm (pieceOf meta content)) c \<and>
     eventsOf rt k = streamEvents DefaultMaxMessageSize
       (concat (map messageFrame (seederMessages pm (pieceOf meta content)))) @ es)"

lemma download_served:
  fixes rt :: "'n runtime"
  assumes w: "downloadable meta dir w" "busy w = {}" "\<not> IsComplete (mgr w)" and few: "length (Pieces meta) \<le> maxPieces"
    and content: "contentOf meta content" and workers: "0 < MaxWorkers cfg"
    and served: "servedBy rt cfg meta peerID content n (mgr w) k"
  shows "\<exists>w' l ts. systemRuns ((w, []), downloadTorrent rt cfg meta peerID (map ResultArrives [0..<Suc k]) (newSupervisor n))
      ((w', ts), Done (Inr Returned, l)) \<and> IsComplete (mgr w') \<and> downloadable meta dir w' \<and>
    fetched (missing (mgr w)) (pieceOf meta content) w w'"
proof -
  obtain response n' c es where t: "AnnounceFirst (unicodeTables rt) (networkOf rt) NewTrackerClient (Some meta) peerID
       (announceOptions cfg meta (str ''started'') (CompletedBytes (mgr w))) n = (Inr response, n')"
    "onePeer rt cfg meta peerID (Peers response)" "length (Peers response) = Suc k"
    and c: "dialOf rt k (addressString (last (Peers response))) (DialTimeout (withClientDefaults (PeerConfig cfg))) = Inr c"
      "seederConn (InfoHash meta) (seederMessages (mgr w) (pieceOf meta content)) c"
    and ev: "eventsOf rt k = streamEvents DefaultMaxMessageSize
       (concat (map messageFrame (seederMessages (mgr w) (pieceOf meta content)))) @ es"
    using served unfolding servedBy_def by blast
  have good: "goodData w (pieceOf meta content)" "length (Pieces meta) = numPieces (mgr w)"
    using downloadable_content [OF w(1) content] by simp_all
  obtain cl where cl: "ConnectContext (dialOf rt k) (last (Peers response)) (InfoHash meta) peerID (PeerConfig cfg) = Inr cl"
    "\<not> connClosed (Conn cl)" "writes (Conn cl) = []"
    using seederConn_connects [where dial = "dialOf rt k" and a = "last (Peers response)" and cfg = "PeerConfig cfg", OF c] by blast
  have "\<forall>m\<in>set (seederMessages (mgr w) (pieceOf meta content)). wfMessage DefaultMaxMessageSize m"
    using seederMessages_wf few good(2) by simp
  from streamEvents_frames [OF this, of "[]"] obtain es' where
    ev': "eventsOf rt k = seederEvents (mgr w) (pieceOf meta content) @ es'" by (auto simp: ev seederMessages_events)
  have inv: "managerInv w" "faults (disk w) = []" "\<not> closed (storage (mgr w))" "numPieces (mgr w) \<le> 2 ^ 32"
    using w(1) few good(2) by (simp_all add: downloadable_def pieceInv_def finishable_def maxPieces_def)
  from download_seeded [OF inv(1) w(2) inv(2,3,4) good(2) w(3) good(1) t(1,2) workers,
      unfolded t(3) diff_Suc_1, OF cl ev'] show ?thesis
    using downloadable_undisturbed [OF w(1)] by blast
qed

lemma finish_runs:
  fixes rt :: "'n runtime"
  assumes "downloadable meta dir w" "IsComplete (mgr w)"
  shows "\<exists>w' l'. Finalize w = (Inr (), w') \<and> runP (seqW (sectionApp Finalize FinalizeFailed) (seqW (announceApp rt meta peerID opts) (retW Returned)) l) (w, ts) =
    ((Inr Returned, l'), (w', ts))"
proof -
  obtain w' where w': "Finalize w = (Inr (), w')" using finalize_ok [OF assms] by blast
  show ?thesis
    by (cases "AnnounceFirst (unicodeTables rt) (networkOf rt) NewTrackerClient (Some meta) peerID opts (trackers l)")
      (simp add: alone_eval alone_announce w')
qed

text \<open>
  The delivered bytes: the missing pieces are those of the content, the others what an earlier run has left.
\<close>

definition holds :: "TorrentMeta \<Rightarrow> bytes \<Rightarrow> world \<Rightarrow> bytes \<Rightarrow> bool" where
  "holds meta content w out \<longleftrightarrow> (\<forall>i<length (Pieces meta). pieceOf meta out i =
     (if i \<in> set (missing (mgr w)) then pieceOf meta content i else pieceData w i))"

lemma runDownload_runs:
  fixes rt :: "'n runtime"
  assumes wf: "metaWf u meta" and restored: "RestoreExisting w = (Inr (), w2)" "downloadable meta dir w2" "busy w2 = {}"
    and few: "length (Pieces meta) \<le> maxPieces" and content: "contentOf meta content" and workers: "0 < MaxWorkers cfg"
    and served: "IsComplete (mgr w2) \<or> servedBy rt cfg meta peerID content n (mgr w2) k"
  shows "\<exists>w' l ts. systemRuns ((w, []), runDownload rt cfg meta peerID (map ResultArrives [0..<Suc k]) (newSupervisor n))
      ((w', ts), Done (Inr Returned, l)) \<and> holds meta content w2 (deliveredBytes meta dir (disk w'))"
proof -
  let ?down = "if IsComplete (mgr w2) then retW Returned else downloadTorrent rt cfg meta peerID (map ResultArrives [0..<Suc k])"
  have "\<exists>w3 l ts. systemRuns ((w2, []), ?down (newSupervisor n)) ((w3, ts), Done (Inr Returned, l)) \<and>
      IsComplete (mgr w3) \<and> downloadable meta dir w3 \<and> fetched (missing (mgr w2)) (pieceOf meta content) w2 w3"
  proof (cases "IsComplete (mgr w2)")
    case True
    have "systemRuns ((w2, []), retW Returned (newSupervisor n)) ((w2, []), Done (Inr Returned, newSupervisor n))"
      by (rule besideRuns_alone) (simp add: alone_eval)
    moreover have "missing (mgr w2) = []" using True by (auto simp: IsComplete_iff missing_def filter_empty_conv)
    then have "fetched (missing (mgr w2)) (pieceOf meta content) w2 w2" by (simp add: fetched_def)
    ultimately show ?thesis using True restored(2) by fastforce
  next
    case False
    with served download_served [OF restored(2,3) False few content workers] show ?thesis by simp
  qed
  then obtain w3 l3 ts where down: "systemRuns ((w2, []), ?down (newSupervisor n)) ((w3, ts), Done (Inr Returned, l3))"
    and w3: "IsComplete (mgr w3)" "downloadable meta dir w3" "fetched (missing (mgr w2)) (pieceOf meta content) w2 w3" by blast
  obtain w4 l4 where fin: "Finalize w3 = (Inr (), w4)" and "runP (seqW (sectionApp Finalize FinalizeFailed) (seqW (announceApp rt meta peerID
      \<lparr>AnnouncePort = ConfigPort cfg, Uploaded = 0, Downloaded = Length meta, Left = 0, AnnounceEvent = str ''completed'', NumWant = - 1\<rparr>)
      (retW Returned)) l3) (w3, ts) = ((Inr Returned, l4), (w4, ts))" using finish_runs [OF w3(2,1)] by blast
  note tail = besideRuns_alone [OF this(2)]
  have res: "runP (sectionApp RestoreExisting RestoreFailed (newSupervisor n)) (w, []) = ((Inr (), newSupervisor n), (w2, []))"
    by (simp add: alone_eval restored(1))
  have "systemRuns ((w, []), runDownload rt cfg meta peerID (map ResultArrives [0..<Suc k]) (newSupervisor n)) ((w4, ts), Done (Inr Returned, l4))"
    unfolding runDownload_def
    by (rule runs_seq, rule res, rule runs_bind, rule alone_eval(11), unfold fst_conv, rule runs_bind_runs, rule down)
      (use tail in simp)
  moreover have "holds meta content w2 (deliveredBytes meta dir (disk w4))"
  proof -
    have "openedLayout meta dir (layout (mgr w3))" "pieceInv (layout (mgr w3)) w3" using w3(2) by (simp_all add: downloadable_def)
    note f = finalized_pieces [OF wf this fin]
    have "numPieces (mgr w2) = length (Pieces meta)" using downloadable_content [OF restored(2) content] by simp
    then show ?thesis using f w3(3) by (simp add: holds_def fetched_def)
  qed
  ultimately show ?thesis by blast
qed

lemma defer_runs:
  assumes "systemRuns (c, m l) ((w, ts), Done (Inr Returned, l'))"
  shows "systemRuns (c, deferClose m l) ((closeWorld w, ts), Done (Inr Returned, l'))"
proof -
  let ?k = "\<lambda>(r, l'). if r = Inr Waiting then Done (r, l')
     else bindP (atomic (\<lambda>(w, ts). ((), closeWorld w, ts))) (\<lambda>_. Done (r, l'))"
  have "systemRuns (c, deferClose m l) ((w, ts), ?k (Inr Returned, l'))"
    using besideRuns_bind [OF assms, of ?k] unfolding fst_conv snd_conv deferClose_def by simp
  moreover have "systemRuns ((w, ts), ?k (Inr Returned, l')) ((closeWorld w, ts), Done (Inr Returned, l'))"
    by (rule besideRuns_alone) simp
  ultimately show ?thesis by (rule rtranclp_trans)
qed

text \<open>The configuration that \<open>main\<close> makes of its flags.\<close>

definition flagConfig :: "commandLine \<Rightarrow> appConfig" where
  "flagConfig flags = defaultAppConfig\<lparr>OutputDirectory := outputFlag flags, MaxWorkers := workersFlag flags,
     NoProgressLimit := idleFlag flags, ConfigPort := ucast (portFlag flags)\<rparr>"

lemma main_runs:
  fixes rt :: "'n runtime"
  assumes flags: "flagArgs flags = [path]" "portFlag flags \<noteq> 0" "portFlag flags \<le> 65535" "outputFlag flags \<noteq> []"
      "0 < workersFlag flags" "0 < idleFlag flags"
    and meta: "loadMeta (unicodeTables rt) (readFile path) = Inr meta" and id: "GeneratePeerID random = Inr peerID"
    and disk: "faults (disk w) = []" "roomFor (outputFlag flags) meta (disk w)"
    and few: "length (Pieces meta) \<le> maxPieces" and content: "contentOf meta content"
    and served: "IsComplete (mgr (restoredWorld (unicodeTables rt) meta (outputFlag flags) w)) \<or>
      servedBy rt (flagConfig flags) meta peerID content n (mgr (restoredWorld (unicodeTables rt) meta (outputFlag flags) w)) k"
  shows "\<exists>w' l ts. systemRuns ((w, []), mainProgram rt readFile random flags (map ResultArrives [0..<Suc k]) (newSupervisor n))
      ((w', ts), Done (Some 0, l)) \<and>
    holds meta content (restoredWorld (unicodeTables rt) meta (outputFlag flags) w) (deliveredBytes meta (outputFlag flags) (disk w'))"
proof -
  let ?u = "unicodeTables rt" and ?cfg = "flagConfig flags" and ?l = "newSupervisor n"
  note wf = loadMeta_wf [OF meta]
  obtain w1 where w1: "openWorld ?u meta (outputFlag flags) w = (Inr (), w1)" "downloadable meta (outputFlag flags) w1"
    using openWorld_ok [OF wf disk] by blast
  obtain w2 where w2: "RestoreExisting w1 = (Inr (), w2)" "downloadable meta (outputFlag flags) w2" using restore_ok [OF w1(2)] by blast
  have idle: "busy w2 = {}" using restored_idle [OF wf openWorld_opens [OF wf w1(1)] w2(1)] by simp
  have rw: "restoredWorld ?u meta (outputFlag flags) w = w2" by (simp add: restoredWorld_def w1(1) w2(1))
  have cfg: "OutputDirectory ?cfg = outputFlag flags" "MaxWorkers ?cfg = workersFlag flags" "NoProgressLimit ?cfg = idleFlag flags"
    by (simp_all add: flagConfig_def)
  have workers: "0 < MaxWorkers ?cfg" using flags(5) by (simp add: cfg)
  obtain w3 l ts where down: "systemRuns ((w1, []), runDownload rt ?cfg meta peerID (map ResultArrives [0..<Suc k]) ?l) ((w3, ts), Done (Inr Returned, l))"
    and "holds meta content w2 (deliveredBytes meta (outputFlag flags) (disk w3))"
    using runDownload_runs [OF wf w2 idle few content workers served [unfolded rw]] by blast
  then have out: "holds meta content w2 (deliveredBytes meta (outputFlag flags) (disk (closeWorld w3)))" by (simp add: closeWorld_def)
  note body = defer_runs [where m = "runDownload rt ?cfg meta peerID (map ResultArrives [0..<Suc k])", OF down]
  have opened: "runP (sectionApp (openWorld ?u meta (outputFlag flags)) OpenStorageFailed ?l) (w, []) = ((Inr (), ?l), (w1, []))"
    by (simp add: alone_eval w1(1))
  have rest: "systemRuns ((w, []), seqW (sectionApp (openWorld ?u meta (outputFlag flags)) OpenStorageFailed)
      (deferClose (runDownload rt ?cfg meta peerID (map ResultArrives [0..<Suc k]))) ?l) ((closeWorld w3, ts), Done (Inr Returned, l))"
    by (rule runs_seq, rule opened, rule body)
  have named: "systemRuns ((w, []), bindW (checkW (\<lambda>_. PeerIDFailed) (GeneratePeerID random)) (\<lambda>peerID.
      seqW (sectionApp (openWorld ?u meta (outputFlag flags)) OpenStorageFailed)
        (deferClose (runDownload rt ?cfg meta peerID (map ResultArrives [0..<Suc k])))) ?l) ((closeWorld w3, ts), Done (Inr Returned, l))"
    by (rule runs_bind [where x = peerID and l' = ?l and t = "(w, [])"], simp add: alone_eval id, rule rest)
  have run: "run rt (readFile path) random ?cfg (map ResultArrives [0..<Suc k]) = bindW (checkW id (loadMeta ?u (readFile path))) (\<lambda>meta.
      bindW (checkW (\<lambda>_. PeerIDFailed) (GeneratePeerID random)) (\<lambda>peerID.
      seqW (sectionApp (openWorld ?u meta (outputFlag flags)) OpenStorageFailed)
        (deferClose (runDownload rt ?cfg meta peerID (map ResultArrives [0..<Suc k])))))"
    using flags(4-6) by (simp add: run_def cfg)
  have "systemRuns ((w, []), run rt (readFile path) random ?cfg (map ResultArrives [0..<Suc k]) ?l) ((closeWorld w3, ts), Done (Inr Returned, l))"
    unfolding run by (rule runs_bind [where x = meta and l' = ?l and t = "(w, [])"], simp add: alone_eval meta, rule named)
  from besideRuns_bind [OF this, of "\<lambda>(r, l'). case r of Inl e \<Rightarrow> Done (Some 1, l') | Inr Returned \<Rightarrow> Done (Some 0, l')
      | Inr Waiting \<Rightarrow> Done (None, l')"]
  have "systemRuns ((w, []), mainProgram rt readFile random flags (map ResultArrives [0..<Suc k]) ?l) ((closeWorld w3, ts), Done (Some 0, l))"
    using flags(1-3) by (simp add: mainProgram_def flagConfig_def not_less [symmetric])
  then show ?thesis using out unfolding rw by blast
qed

section \<open>Property\<close>

text \<open>
  C2. The program works when its surroundings do. Let the flags be in range, the named file be a valid
  metainfo file of a torrent whose bitfield fits a message, the disk be without faults and have room for the
  torrent, and some content have the torrent's length and hashes. Let whatever an earlier run has left on the
  disk be complete, or the tracker name \<open>k\<close> peers that cannot be connected to and one that accepts a connection
  and sends a handshake for the torrent, then a full bitfield, an unchoke and the missing pieces of the content,
  block by block. Then \<open>main\<close> has an
  execution that opens the storage, restores, downloads and verifies what is missing, finalizes and exits with
  status 0, and the torrent has been delivered: its bytes are, piece by piece, those of the content where a piece
  was missing, and those that were on the disk where it was not.
\<close>

theorem main_succeeds:
  fixes rt :: "'n runtime"
  assumes "flagArgs flags = [path]" "portFlag flags \<noteq> 0" "portFlag flags \<le> 65535" "outputFlag flags \<noteq> []"
      "0 < workersFlag flags" "0 < idleFlag flags"
    and "loadMeta (unicodeTables rt) (readFile path) = Inr meta" "GeneratePeerID random = Inr peerID"
    and "faults (disk w) = []" "roomFor (outputFlag flags) meta (disk w)"
    and "length (Pieces meta) \<le> maxPieces" "contentOf meta content"
    and "IsComplete (mgr (restoredWorld (unicodeTables rt) meta (outputFlag flags) w)) \<or>
      servedBy rt (flagConfig flags) meta peerID content n (mgr (restoredWorld (unicodeTables rt) meta (outputFlag flags) w)) k"
  shows "\<exists>w' ts l. systemRuns ((w, []), mainProgram rt readFile random flags (map ResultArrives [0..<Suc k]) (newSupervisor n))
      ((w', ts), Done (Some 0, l)) \<and> delivered meta (outputFlag flags) (disk w') \<and>
    holds meta content (restoredWorld (unicodeTables rt) meta (outputFlag flags) w) (deliveredBytes meta (outputFlag flags) (disk w'))"
proof -
  obtain w' ts l where run: "systemRuns ((w, []), mainProgram rt readFile random flags (map ResultArrives [0..<Suc k]) (newSupervisor n))
      ((w', ts), Done (Some 0, l))"
    "holds meta content (restoredWorld (unicodeTables rt) meta (outputFlag flags) w) (deliveredBytes meta (outputFlag flags) (disk w'))"
    using main_runs [where rt = rt and readFile = readFile, OF assms] by blast
  with main_exit [OF run(1)] assms(1,7) show ?thesis by auto
qed

end
