(* ===== verification/AppSample.thy ===== *)
theory AppSample
  imports MainProgress TrackerSpec
begin

text \<open>
  Two executions of the whole program on a small torrent of two zero bytes: one that finds the data on the
  disk and delivers it, and one that starts a goroutine for the tracker's only peer and waits; a completion
  that the supervisor does not notice; a download of the sample torrent of \<open>DownloadSpec\<close> from its seeder; and the
  whole program downloading the two bytes from the stream of a peer.
\<close>

definition zeroTorrent :: "bytes \<Rightarrow> bytes" where
  "zeroTorrent h = str ''d8:announce1:u4:infod6:lengthi2e4:name1:n12:piece lengthi2e6:pieces20:'' @ h @ str ''ee''"

lemma zeroTorrent_meta:
  assumes "length h = 20"
  shows "\<exists>meta. loadMeta plainUnicode (Inr (zeroTorrent h)) = Inr meta \<and> TrackerURLs meta = [str ''u''] \<and>
    Name meta = str ''n'' \<and> Length meta = 2 \<and> PieceLength meta = 2 \<and> Pieces meta = [h] \<and> \<not> MultiFile meta"
proof -
  obtain b0 b1 b2 b3 b4 b5 b6 b7 b8 b9 c0 c1 c2 c3 c4 c5 c6 c7 c8 c9 where
    h: "h = [b0, b1, b2, b3, b4, b5, b6, b7, b8, b9, c0, c1, c2, c3, c4, c5, c6, c7, c8, c9]"
    using assms by (auto simp: numeral_eq_Suc length_Suc_conv)
  show ?thesis unfolding h
    by (simp add: loadMeta_def zeroTorrent_def parse_eval cong: andThen_weak_cong)
      (simp add: meta_eval plainUnicode_def TrackerURLs_def addURL_def decodeAll.simps splitPieces_def upt_rec sliceOf_def cong: andThen_weak_cong)
qed

definition zeroStorage :: Storage where
  "zeroStorage = \<lparr>spans = [\<lparr>spanPath = Path True [str ''d'', str ''in-progress'', str ''n.part''], spanStart = 0, spanEnd = 2\<rparr>],
     storageTotal = 2, closed = False, InProgressPath = Path True [str ''d'', str ''in-progress'', str ''n.part''],
     CompletedPath = Path True [str ''d'', str ''completed'', str ''n'']\<rparr>"

lemma zeroStorage_opened:
  assumes "Name meta = str ''n''" "Length meta = 2" "\<not> MultiFile meta"
  shows "\<exists>t. NewStorageAt plainUnicode (Some meta) (str ''/d'') emptyDisk = (Inr zeroStorage, t) \<and> faults t = [] \<and>
    nodes t (Path True [str ''d'', str ''in-progress'', str ''n.part'']) = Some (FileN [0, 0]) \<and>
    nodes t (Path True [str ''d'', str ''in-progress'']) = Some DirN \<and>
    nodes t (Path True [str ''d'', str ''completed'']) = Some DirN \<and>
    nodes t (Path True [str ''d'', str ''completed'', str ''n'']) = None"
  by (simp add: zeroStorage_def assms NewStorageAt_def rejectSymlink_def
        openSizedFile_def openAndSize_def Lstat_def MkdirAll_def OpenFile_def Truncate_def
        CloseFile_def sysCall_def getNode_def setNode_def isDirAt_def dirPath_def joinPath_def parsePath_def
        sep_def fileData_def resize_def emptyDisk_def
        plainUnicode_def meta_eval decodeAll.simps act_eval
        cong: act_cong)
    (simp add: numeral_2_eq_2)

text \<open>The world after the storage was opened.\<close>

definition zeroDisk :: "os \<Rightarrow> bool" where
  "zeroDisk d \<longleftrightarrow> faults d = [] \<and>
    nodes d (Path True [str ''d'', str ''in-progress'', str ''n.part'']) = Some (FileN [0, 0]) \<and>
    nodes d (Path True [str ''d'', str ''completed'']) = Some DirN \<and>
    nodes d (Path True [str ''d'', str ''completed'', str ''n'']) = None"

definition zeroManager :: "bytes \<Rightarrow> PieceState \<Rightarrow> nat \<Rightarrow> PieceManager" where
  "zeroManager h st n = \<lparr>pieces = [\<lparr>Index = 0, Hash = h, pieceLen = 2, pstate = st\<rparr>], storage = zeroStorage,
     standardPieceLength = 2, updates = n\<rparr>"

lemma zero_opened:
  assumes "Name meta = str ''n''" "Length meta = 2" "\<not> MultiFile meta" "Pieces meta = [h]" "PieceLength meta = 2"
  shows "\<exists>d. openWorld plainUnicode meta (str ''/d'') \<lparr>disk = emptyDisk, mgr = pm\<rparr> =
    (Inr (), \<lparr>disk = d, mgr = zeroManager h PieceMissing 0\<rparr>) \<and> zeroDisk d"
proof -
  obtain d where d: "NewStorageAt plainUnicode (Some meta) (str ''/d'') emptyDisk = (Inr zeroStorage, d)" "zeroDisk d"
    using zeroStorage_opened [OF assms(1-3)] unfolding zeroDisk_def by blast
  have "NewPieceManager meta zeroStorage = zeroManager h PieceMissing 0"
    using assms by (simp add: NewPieceManager_def zeroManager_def newPiece_def i64_def upt_rec)
  then show ?thesis using d by (simp add: openWorld_def)
qed

lemma zero_restored:
  assumes "zeroDisk d"
  shows "RestoreExisting \<lparr>disk = d, mgr = zeroManager h PieceMissing 0\<rparr> =
    (Inr (), \<lparr>disk = d, mgr = if sha1 [0, 0] = h then zeroManager h PieceComplete 1 else zeroManager h PieceMissing 0\<rparr>)"
  using assms
  by (simp add: RestoreExisting_def zeroManager_def restorePiece_def upt_rec ReadAt_def zeroStorage_def readChunk_def
      i64_def minInt64_def OpenFile_def CloseFile_def ReadFileAt_def sysCall_def zeroDisk_def getNode_def fileData_def
      onDisk_def onMgr_def notifyLocked_def setPieceState_def numeral_2_eq_2 act_eval cong: act_cong)

lemma zero_finalized:
  assumes "zeroDisk d"
  shows "\<exists>w. Finalize \<lparr>disk = d, mgr = zeroManager h PieceComplete n\<rparr> = (Inr (), w)"
  using assms
  by (simp add: Finalize_def IsComplete_def zeroManager_def zeroStorage_def onDisk_def onMgr_def Complete_def Lstat_def
      sysCall_def getNode_def syncSpan_def OpenFile_def Sync_def CloseFile_def Rename_def isDirAt_def
      dirPath_def stripPrefix_def zeroDisk_def act_eval cong: act_cong)

section \<open>Its surroundings\<close>

definition zeroConfig :: appConfig where
  "zeroConfig = defaultAppConfig\<lparr>OutputDirectory := str ''/d'', MaxWorkers := 1\<rparr>"

definition zeroRuntime :: "unit runtime" where
  "zeroRuntime = \<lparr>unicodeTables = plainUnicode, networkOf = quietNetwork, dialOf = (\<lambda>k address timeout. Inl ErrClosed),
     eventsOf = (\<lambda>k. [])\<rparr>"

lemma some_peerID: "\<exists>peerID. GeneratePeerID (\<lambda>_. Inr 0 :: unit + nat) = Inr peerID"
proof -
  obtain cs :: bytes where cs: "randomChars (\<lambda>_. Inr 0 :: unit + nat) 0 12 = Inr cs"
    using randomChars_error [of "\<lambda>_. Inr 0 :: unit + nat" 0 12] by (cases "randomChars (\<lambda>_. Inr 0 :: unit + nat) 0 12") auto
  then have "length cs = 12" by (rule randomChars_length)
  then show ?thesis
    by (simp add: GeneratePeerID_def generateRandomString_def randomLength_def totalPeerIDLength_def clientPrefix_def cs)
qed

lemma zero_run:
  assumes "length h = 20"
  shows "\<exists>meta peerID d. loadMeta plainUnicode (Inr (zeroTorrent h)) = Inr meta \<and> TrackerURLs meta = [str ''u''] \<and> Length meta = 2 \<and> zeroDisk d \<and>
    runP (run zeroRuntime (Inr (zeroTorrent h)) (\<lambda>_. Inr 0 :: unit + nat) zeroConfig es (newSupervisor ())) (\<lparr>disk = emptyDisk, mgr = pm\<rparr>, []) =
      runP (deferClose (runDownload zeroRuntime zeroConfig meta peerID es) (newSupervisor ()))
        (\<lparr>disk = d, mgr = zeroManager h PieceMissing 0\<rparr>, [])"
proof -
  obtain meta where m: "loadMeta plainUnicode (Inr (zeroTorrent h)) = Inr meta" "TrackerURLs meta = [str ''u'']"
    "Name meta = str ''n''" "Length meta = 2" "PieceLength meta = 2" "Pieces meta = [h]" "\<not> MultiFile meta"
    using zeroTorrent_meta [OF assms] by blast
  obtain peerID :: bytes where id: "GeneratePeerID (\<lambda>_. Inr 0 :: unit + nat) = Inr peerID" using some_peerID by blast
  obtain d where d: "openWorld plainUnicode meta (str ''/d'') \<lparr>disk = emptyDisk, mgr = pm\<rparr> =
    (Inr (), \<lparr>disk = d, mgr = zeroManager h PieceMissing 0\<rparr>)" "zeroDisk d" using zero_opened [OF m(3,4,7,6,5)] by blast
  have cfg: "OutputDirectory zeroConfig = str ''/d''" "MaxWorkers zeroConfig = 1" "0 < NoProgressLimit zeroConfig"
    "unicodeTables zeroRuntime = plainUnicode" "str ''/d'' \<noteq> []"
    by (simp_all add: zeroConfig_def defaultAppConfig_def zeroRuntime_def second_def)
  show ?thesis
    by (intro exI [of _ meta] exI [of _ peerID] exI [of _ d] conjI m(1,2,4) d(2))
      (use cfg in \<open>simp add: run_def alone_eval m(1) id d(1) del: str_Nil str_Cons cong: contW_cong\<close>)
qed

section \<open>The executions\<close>

abbreviation zeroRun :: "bytes \<Rightarrow> (unit, outcome) appAct" where
  "zeroRun h \<equiv> run zeroRuntime (Inr (zeroTorrent h)) (\<lambda>_. Inr 0 :: unit + nat) zeroConfig []"

definition zeroFlags :: commandLine where
  "zeroFlags = (defaultCommandLine [str ''z''])\<lparr>outputFlag := str ''/d'', workersFlag := 1\<rparr>"

abbreviation zeroMain :: "unit supervisor \<Rightarrow> (system, int option \<times> unit supervisor) prog" where
  "zeroMain \<equiv> mainProgram zeroRuntime (\<lambda>path. Inr (zeroTorrent (sha1 [0, 0]))) (\<lambda>_. Inr 0 :: unit + nat) zeroFlags []"

abbreviation zeroWorld :: world where
  "zeroWorld \<equiv> \<lparr>disk = emptyDisk, mgr = zeroManager [] PieceMissing 0\<rparr>"

lemma zero_complete: "IsComplete (zeroManager h st n) \<longleftrightarrow> st = PieceComplete"
  by (simp add: IsComplete_def zeroManager_def)

text \<open>The data is on the disk: the program finalizes.\<close>

lemma zero_delivers:
  "\<exists>l c. runP (zeroRun (sha1 [0, 0]) (newSupervisor ())) (zeroWorld, []) = ((Inr Returned, l), c)"
proof -
  obtain meta peerID d where r: "zeroDisk d" "runP (zeroRun (sha1 [0, 0]) (newSupervisor ())) (zeroWorld, []) =
      runP (deferClose (runDownload zeroRuntime zeroConfig meta peerID []) (newSupervisor ()))
        (\<lparr>disk = d, mgr = zeroManager (sha1 [0, 0]) PieceMissing 0\<rparr>, [])"
    using zero_run [OF length_sha1] by blast
  obtain w where w: "Finalize \<lparr>disk = d, mgr = zeroManager (sha1 [0, 0]) PieceComplete 1\<rparr> = (Inr (), w)"
    using zero_finalized [OF r(1)] by blast
  have "\<exists>l. runP (runDownload zeroRuntime zeroConfig meta peerID [] (newSupervisor ()))
      (\<lparr>disk = d, mgr = zeroManager (sha1 [0, 0]) PieceMissing 0\<rparr>, []) = ((Inr Returned, l), (w, []))"
    by (simp add: runDownload_def alone_eval zero_restored [OF r(1)] zero_complete w [simplified] alone_announce
        cong: contW_cong split: prod.split)
  then obtain l where "runP (runDownload zeroRuntime zeroConfig meta peerID [] (newSupervisor ()))
      (\<lparr>disk = d, mgr = zeroManager (sha1 [0, 0]) PieceMissing 0\<rparr>, []) = ((Inr Returned, l), (w, []))" by blast
  from alone_defer(1) [where m = "runDownload zeroRuntime zeroConfig meta peerID []", OF this] r(2) show ?thesis by auto
qed

text \<open>It is not: the program starts a goroutine for the only peer of the tracker and waits.\<close>

lemma quiet_announce:
  assumes "TrackerURLs meta = [str ''u'']" "\<not> Downloaded opts < 0" "\<not> Left opts < 0" "Uploaded opts = 0" "AnnounceEvent opts = str ''started''"
  shows "AnnounceFirst plainUnicode quietNetwork NewTrackerClient (Some meta) peerID opts () =
    (Inr \<lparr>Interval = 60, Peers = [\<lparr>IP = [10, 0, 0, 1], Port = 99\<rparr>], Seeders = 2, Leechers = 3\<rparr>, ())"
  by (simp add: assms AnnounceFirst_def AnnounceURL_def plainUnicode_def ToLower_def lowerRune_def runes_def decodeAll.simps encodeRune_def announceUDP_def udpExchange_def
      quietNetwork_def randomUint32_def onNet_def onConn_def writeDatagram_def readUDPResponse_def validateUDPResponse_def
      connectReply_def announceReply_def wireEntry_def udpResult_def parseCompactPeers_def compactLoop.simps To4_def
      PutUint16_def PutUint32_def PutUint64_def Uint16_def Uint32_def Uint64_def sliceOf_def maxIntervalSeconds_def
      act_eval Let_def cong: act_cong)

lemma zero_waits:
  assumes "length h = 20" "sha1 [0, 0] \<noteq> h"
  shows "\<exists>l c. runP (zeroRun h (newSupervisor ())) (zeroWorld, []) = ((Inr Waiting, l), c)"
proof -
  obtain meta peerID d where r: "TrackerURLs meta = [str ''u'']" "Length meta = 2" "zeroDisk d"
    "runP (zeroRun h (newSupervisor ())) (zeroWorld, []) =
      runP (deferClose (runDownload zeroRuntime zeroConfig meta peerID []) (newSupervisor ()))
        (\<lparr>disk = d, mgr = zeroManager h PieceMissing 0\<rparr>, [])"
    using zero_run [OF assms(1)] by blast
  let ?opts = "announceOptions zeroConfig meta (str ''started'') 0"
  have manager: "fst (Progress (zeroManager h PieceMissing 0)) = 0" "CompletedBytes (zeroManager h PieceMissing 0) = 0"
    by (simp_all add: Progress_def CompletedBytes_def zeroManager_def)
  have announce: "AnnounceFirst (unicodeTables zeroRuntime) (networkOf zeroRuntime) NewTrackerClient (Some meta) peerID ?opts () =
    (Inr \<lparr>Interval = 60, Peers = [\<lparr>IP = [10, 0, 0, 1], Port = 99\<rparr>], Seeders = 2, Leechers = 3\<rparr>, ())"
    using quiet_announce [OF r(1), of ?opts peerID] r(2) by (simp add: announceOptions_def zeroRuntime_def i64_def)
  have workers: "MaxWorkers zeroConfig = 1" by (simp add: zeroConfig_def)
  have key: "addressString \<lparr>IP = [10, 0, 0, 1], Port = 99\<rparr> \<noteq> []"
    by (simp add: addressString_ipv4)
  have "\<exists>l c. runP (runDownload zeroRuntime zeroConfig meta peerID [] (newSupervisor ()))
      (\<lparr>disk = d, mgr = zeroManager h PieceMissing 0\<rparr>, []) = ((Inr Waiting, l), c)"
    using assms(2) by (simp add: runDownload_def alone_eval zero_restored [OF r(3)] zero_complete downloadTorrent_def
        alone_announce manager announce newSupervisor_def addPeers_def addPeer_def key launchWorkers_def launchWorker_def takePending_def
        workers appHead_def Let_def
        del: str_Nil str_Cons cong: contW_cong)
  then obtain l c where "runP (runDownload zeroRuntime zeroConfig meta peerID [] (newSupervisor ()))
      (\<lparr>disk = d, mgr = zeroManager h PieceMissing 0\<rparr>, []) = ((Inr Waiting, l), c)" by blast
  from alone_defer(2) [where m = "runDownload zeroRuntime zeroConfig meta peerID []", OF this] r(4) show ?thesis by auto
qed

section \<open>A completion that goes unnoticed\<close>

text \<open>
  A piece that is completed while another case of the \<open>select\<close> is handled: the head of the loop fetches a new
  channel, so \<open>lastCompleted\<close> and the idle timer do not see the completion.
\<close>

lemma completion_unnoticed:
  assumes "\<not> IsComplete (mgr w)" "active l \<noteq> {}" "lastCompleted l < fst (Progress (mgr w))"
  shows "\<exists>l'. runP (appHead meta es (retW Waiting) l) (w, ts) = ((Inr Waiting, l'), (w, ts)) \<and>
    runP (updatesCase rt cfg meta peerID l') (w, ts) = ((Inr False, l'), (w, ts)) \<and>
    lastCompleted l' < fst (Progress (mgr w)) \<and> idleTimer l' = idleTimer l"
  using assms by (simp add: appHead_def updatesCase_def alone_eval cong: contW_cong)

section \<open>Witnesses\<close>

theorem main_delivers_witness:
  "\<exists>meta w' ts l. systemRuns ((zeroWorld, []), zeroMain (newSupervisor ())) ((w', ts), Done (Some 0, l)) \<and>
    loadMeta plainUnicode (Inr (zeroTorrent (sha1 [0, 0]))) = Inr meta \<and> delivered meta (str ''/d'') (disk w')"
proof -
  obtain l w' ts where "runP (zeroRun (sha1 [0, 0]) (newSupervisor ())) (zeroWorld, []) = ((Inr Returned, l), (w', ts))"
    using zero_delivers by fastforce
  then have "runP (zeroMain (newSupervisor ())) (zeroWorld, []) = ((Some 0, l), (w', ts))"
    by (simp add: mainProgram_def zeroFlags_def zeroConfig_def defaultCommandLine_def defaultAppConfig_def)
  from besideRuns_alone [OF this]
  have run: "systemRuns ((zeroWorld, []), zeroMain (newSupervisor ())) ((w', ts), Done (Some 0, l))" .
  have "unicodeTables zeroRuntime = plainUnicode" "outputFlag zeroFlags = str ''/d''" "flagArgs zeroFlags = [str ''z'']"
    by (simp_all add: zeroRuntime_def zeroFlags_def defaultCommandLine_def)
  with run main_delivers [OF run] show ?thesis by auto
qed

theorem supervisor_invariant_witness:
  "\<exists>w' ts l peers gone. systemRuns ((zeroWorld, []), zeroRun (map (\<lambda>b. b + 1) (sha1 [0, 0])) (newSupervisor ()))
      ((w', ts), Done (Inr Waiting, l)) \<and> list_all2 resultFor peers ts \<and> ts \<noteq> [] \<and>
    card ({..<length ts} - gone) \<le> 1 \<and> {..<length ts} - gone \<noteq> {}"
proof -
  let ?h = "map (\<lambda>b. b + 1) (sha1 [0, 0])"
  have "sha1 [0, 0] \<noteq> ?h"
  proof
    assume eq: "sha1 [0, 0] = ?h"
    have "0 < length (sha1 [0, 0])" by simp
    with eq have "sha1 [0, 0] ! 0 = sha1 [0, 0] ! 0 + 1" by (metis nth_map)
    then show False by simp
  qed
  then obtain l w' ts where "runP (zeroRun ?h (newSupervisor ())) (zeroWorld, []) = ((Inr Waiting, l), (w', ts))"
    using zero_waits [of ?h] by fastforce
  from besideRuns_alone [OF this]
  have run: "systemRuns ((zeroWorld, []), zeroRun ?h (newSupervisor ())) ((w', ts), Done (Inr Waiting, l))" .
  have max: "MaxWorkers zeroConfig = 1" by (simp add: zeroConfig_def)
  from supervisor_invariant [OF run] show ?thesis
  proof (elim exE conjE)
    fix peers gone
    assume len: "list_all2 resultFor peers ts" and few: "int (card ({..<length ts} - gone)) \<le> max 0 (MaxWorkers zeroConfig)"
      and waits: "\<forall>l'. (Done (Inr Waiting, l) :: (system, (appError + outcome) \<times> unit supervisor) prog) = Done (Inr Waiting, l') \<longrightarrow>
        {..<length ts} - gone \<noteq> {} \<and> (pending l' = [] \<or> int (card ({..<length ts} - gone)) = MaxWorkers zeroConfig \<or> workersCancelled l')"
    have "card ({..<length ts} - gone) \<le> 1" using few max by simp
    moreover have left: "{..<length ts} - gone \<noteq> {}" using waits [THEN spec [of _ l]] by (rule impE) (rule refl, erule conjunct1)
    moreover from left have "ts \<noteq> []" by auto
    ultimately show ?thesis using run len by blast
  qed
qed

text \<open>The tracker of \<open>quietNetwork\<close> and a peer with both pieces of the sample torrent.\<close>

definition seederClient :: Client where
  "seederClient = NewClient ((wire [])\<lparr>sent := handshakeRequest (InfoHash sampleMeta) sampleID\<rparr>)
     \<lparr>IP = [10, 0, 0, 1], Port = 99\<rparr> DefaultClientConfig"

definition seederRuntime :: "unit runtime" where
  "seederRuntime = \<lparr>unicodeTables = plainUnicode, networkOf = quietNetwork,
     dialOf = (\<lambda>k address timeout. Inr (wire (SerializeHandshake sampleHandshake))),
     eventsOf = (\<lambda>k. conversation seederClient sampleMeta (workerOptions defaultAppConfig) sampleData
       (sampleWorld PieceMissing PieceMissing) 4 [])\<rparr>"

lemma sample_dialled:
  "ConnectContext (dialOf seederRuntime 0) \<lparr>IP = [10, 0, 0, 1], Port = 99\<rparr> (InfoHash sampleMeta) sampleID
     (PeerConfig defaultAppConfig) = Inr seederClient"
  "\<not> connClosed (Conn seederClient)" "writes (Conn seederClient) = []"
proof -
  let ?c = "wire (SerializeHandshake sampleHandshake)"
  let ?d = "?c\<lparr>sent := handshakeRequest (InfoHash sampleMeta) sampleID\<rparr>"
  have "performHandshake (InfoHash sampleMeta) sampleID ?c = (Inr (), ?d\<lparr>incoming := []\<rparr>)"
    unfolding performHandshake_iff
    by (intro exI [of _ sampleHandshake] exI [of _ "[]"] exI [of _ ?d])
      (simp add: wire_def sampleHandshake_def wfHandshake_def sampleMeta_def writeFull_ok)
  then show "ConnectContext (dialOf seederRuntime 0) \<lparr>IP = [10, 0, 0, 1], Port = 99\<rparr> (InfoHash sampleMeta) sampleID
     (PeerConfig defaultAppConfig) = Inr seederClient"
    by (simp add: ConnectContext_def Let_def NewClient_defaults NewClient_conn andThen_def seederRuntime_def wire_def seederClient_def
        defaultAppConfig_def)
  show "\<not> connClosed (Conn seederClient)" "writes (Conn seederClient) = []"
    by (simp_all add: seederClient_def NewClient_def wire_def)
qed

theorem download_completes_witness:
  "\<exists>w' l. systemRuns ((sampleWorld PieceMissing PieceMissing, []),
      downloadTorrent seederRuntime defaultAppConfig sampleMeta sampleID [ResultArrives 0] (newSupervisor ()))
      ((w', [Done (\<lparr>IP = [10, 0, 0, 1], Port = 99\<rparr>, Inr Returned)]), Done (Inr Returned, l)) \<and> IsComplete (mgr w') \<and>
    pieceData w' 0 = [1, 2, 3, 4] \<and> pieceData w' 1 = [7]"
proof -
  let ?w = "sampleWorld PieceMissing PieceMissing" and ?a = "\<lparr>IP = [10, 0, 0, 1], Port = 99\<rparr>"
  let ?opts = "announceOptions defaultAppConfig sampleMeta (str ''started'') (CompletedBytes (mgr ?w))"
  let ?response = "\<lparr>Interval = 60, Peers = [?a], Seeders = 2, Leechers = 3\<rparr>"
  have bytes: "CompletedBytes (mgr ?w) = 0" by (simp add: CompletedBytes_def sampleWorld_def sampleManager_def)
  have announce: "AnnounceFirst (unicodeTables seederRuntime) (networkOf seederRuntime) NewTrackerClient (Some sampleMeta) sampleID ?opts () =
      (Inr ?response, ())"
    using quiet_announce [of sampleMeta ?opts sampleID]
    by (simp add: bytes announceOptions_def seederRuntime_def sampleMeta_def TrackerURLs_def addURL_def i64_def)
  have world: "managerInv ?w" "busy ?w = {}" "faults (disk ?w) = []" "\<not> closed (storage (mgr ?w))" "numPieces (mgr ?w) \<le> 2 ^ 32"
    "length (Pieces sampleMeta) = numPieces (mgr ?w)" "\<not> IsComplete (mgr ?w)"
    "\<forall>i<numPieces (mgr ?w). int (length (sampleData i)) = pieceLen (pieces (mgr ?w) ! i) \<and> sha1 (sampleData i) = Hash (pieces (mgr ?w) ! i)"
    using sample_goodData [of PieceMissing PieceMissing] sample_incomplete
    by (simp_all add: sampleWorld_inv sampleWorld_busy sampleMeta_def goodData_def)
  have peers: "onePeer seederRuntime defaultAppConfig sampleMeta sampleID (Peers ?response)" "0 < MaxWorkers defaultAppConfig"
    by (simp_all add: onePeer_def addressString_ipv4 defaultAppConfig_def)
  have last: "length (Peers ?response) - 1 = 0" "last (Peers ?response) = ?a" "map ResultArrives [0..<length (Peers ?response)] = [ResultArrives 0]"
    by simp_all
  have events: "eventsOf seederRuntime 0 = conversation seederClient sampleMeta (workerOptions defaultAppConfig) sampleData ?w 4 [] @ []"
    by (simp add: seederRuntime_def)
  from download_completes [OF world announce peers, unfolded last, OF sample_dialled events sample_needed]
  show ?thesis by (auto simp: sampleData_def)
qed

text \<open>The same tracker, and a peer that sends the frames of these messages after its handshake.\<close>

definition frameRuntime :: "bytes \<Rightarrow> Message list \<Rightarrow> unit runtime" where
  "frameRuntime infoHash ms = \<lparr>unicodeTables = plainUnicode, networkOf = quietNetwork,
     dialOf = (\<lambda>k address timeout. Inr (wire (SerializeHandshake
       \<lparr>Reserved = replicate 8 0, HsInfoHash = infoHash, HsPeerID = replicate 20 0\<rparr> @ concat (map messageFrame ms)))),
     eventsOf = (\<lambda>k. streamEvents DefaultMaxMessageSize (concat (map messageFrame ms)))\<rparr>"

lemma zero_served:
  fixes h :: bytes
  assumes "TrackerURLs meta = [str ''u'']" "Length meta = 2" "length (InfoHash meta) = 20"
  defines "pm \<equiv> zeroManager h PieceMissing 0"
  shows "servedBy (frameRuntime (InfoHash meta) (seederMessages pm (pieceOf meta content))) cfg meta peerID content () pm 0"
proof -
  let ?ms = "seederMessages pm (pieceOf meta content)" and ?a = "\<lparr>IP = [10, 0, 0, 1], Port = 99\<rparr>"
  let ?rt = "frameRuntime (InfoHash meta) ?ms"
  let ?opts = "announceOptions cfg meta (str ''started'') (CompletedBytes pm)"
  let ?h = "\<lparr>Reserved = replicate 8 0, HsInfoHash = InfoHash meta, HsPeerID = replicate 20 0\<rparr>"
  have "CompletedBytes pm = 0" by (simp add: CompletedBytes_def pm_def zeroManager_def)
  then have "AnnounceFirst (unicodeTables ?rt) (networkOf ?rt) NewTrackerClient (Some meta) peerID ?opts () =
      (Inr \<lparr>Interval = 60, Peers = [?a], Seeders = 2, Leechers = 3\<rparr>, ())"
    using quiet_announce [OF assms(1), of ?opts peerID] by (simp add: announceOptions_def frameRuntime_def assms(2) i64_def)
  moreover have "onePeer ?rt cfg meta peerID [?a]" by (simp add: onePeer_def addressString_ipv4)
  moreover have "dialOf ?rt 0 (addressString ?a) t = Inr (wire (SerializeHandshake ?h @ concat (map messageFrame ?ms)))" for t
    by (simp add: frameRuntime_def)
  moreover have "seederConn (InfoHash meta) ?ms (wire (SerializeHandshake ?h @ concat (map messageFrame ?ms)))"
    by (auto simp: seederConn_def wire_def wfHandshake_def assms(3) intro!: exI [of _ ?h])
  moreover have "eventsOf ?rt 0 = streamEvents DefaultMaxMessageSize (concat (map messageFrame ?ms)) @ []"
    by (simp add: frameRuntime_def)
  ultimately show ?thesis unfolding servedBy_def
    by (intro exI [of _ "\<lparr>Interval = 60, Peers = [?a], Seeders = 2, Leechers = 3\<rparr>"]) auto
qed

theorem main_succeeds_witness:
  "\<exists>meta ms w' ts l. loadMeta plainUnicode (Inr (zeroTorrent (sha1 [1, 2]))) = Inr meta \<and>
    systemRuns ((zeroWorld, []), mainProgram (frameRuntime (InfoHash meta) ms) (\<lambda>path. Inr (zeroTorrent (sha1 [1, 2])))
      (\<lambda>_. Inr 0 :: unit + nat) zeroFlags [ResultArrives 0] (newSupervisor ())) ((w', ts), Done (Some 0, l)) \<and>
    delivered meta (str ''/d'') (disk w')"
proof -
  let ?h = "sha1 [1, 2]" and ?pm = "zeroManager (sha1 [1, 2]) PieceMissing 0"
  obtain meta where m: "loadMeta plainUnicode (Inr (zeroTorrent ?h)) = Inr meta" "TrackerURLs meta = [str ''u'']"
    "Name meta = str ''n''" "Length meta = 2" "PieceLength meta = 2" "Pieces meta = [?h]" "\<not> MultiFile meta"
    using zeroTorrent_meta [OF length_sha1] by blast
  obtain peerID :: bytes where id: "GeneratePeerID (\<lambda>_. Inr 0 :: unit + nat) = Inr peerID" using some_peerID by blast
  let ?rt = "frameRuntime (InfoHash meta) (seederMessages ?pm (pieceOf meta [1, 2]))"
  have rt: "unicodeTables ?rt = plainUnicode" by (simp add: frameRuntime_def)
  have load: "loadMeta (unicodeTables ?rt) ((\<lambda>path. Inr (zeroTorrent ?h)) (str ''z'')) = Inr meta" by (simp only: rt m(1))
  have flags: "flagArgs zeroFlags = [str ''z'']" "portFlag zeroFlags \<noteq> 0" "portFlag zeroFlags \<le> 65535"
    "outputFlag zeroFlags = str ''/d''" "0 < workersFlag zeroFlags" "0 < idleFlag zeroFlags"
    by (simp_all add: zeroFlags_def defaultCommandLine_def defaultAppConfig_def second_def)
  have out: "outputFlag zeroFlags \<noteq> []" by (simp add: flags(4))
  have disk: "faults (disk zeroWorld) = []" "roomFor (outputFlag zeroFlags) meta (disk zeroWorld)"
    by (simp add: emptyDisk_def) (simp add: room_empty)
  have content: "length (Pieces meta) \<le> maxPieces" "contentOf meta [1, 2]"
    by (simp_all add: m maxPieces_def contentOf_def pieceOf_def)
  obtain d where d: "openWorld plainUnicode meta (str ''/d'') zeroWorld = (Inr (), \<lparr>disk = d, mgr = ?pm\<rparr>)" "zeroDisk d"
    using zero_opened [OF m(3,4,7,6,5)] by blast
  have restored: "mgr (restoredWorld plainUnicode meta (str ''/d'') zeroWorld) =
      (if sha1 [0, 0] = ?h then zeroManager ?h PieceComplete 1 else ?pm)"
    by (simp only: restoredWorld_def d(1) snd_conv zero_restored [OF d(2)] world.simps)
  have "length (InfoHash meta) = 20" using loadMeta_wf [OF m(1)] by (simp add: metaWf_def sha1Size_def)
  note served = zero_served [OF m(2,4) this, of ?h "[1, 2]" "flagConfig zeroFlags" peerID]
  have "IsComplete (mgr (restoredWorld (unicodeTables ?rt) meta (outputFlag zeroFlags) zeroWorld)) \<or>
      servedBy ?rt (flagConfig zeroFlags) meta peerID [1, 2] () (mgr (restoredWorld (unicodeTables ?rt) meta (outputFlag zeroFlags) zeroWorld)) 0"
    unfolding rt flags(4) restored using served by (simp add: zero_complete)
  from main_succeeds [where rt = ?rt and readFile = "\<lambda>path. Inr (zeroTorrent ?h)", OF flags(1-3) out flags(5,6) load id disk content this]
  have "\<exists>w' ts l. systemRuns ((zeroWorld, []), mainProgram ?rt (\<lambda>path. Inr (zeroTorrent ?h)) (\<lambda>_. Inr 0 :: unit + nat) zeroFlags
      [ResultArrives 0] (newSupervisor ())) ((w', ts), Done (Some 0, l)) \<and> delivered meta (str ''/d'') (disk w')"
    unfolding flags(4) by simp blast
  with m(1) show ?thesis by blast
qed

end
