(* ===== verification/Spec2Isabelle.thy ===== *)
theory Spec2Isabelle
  imports BencodeSpec MetainfoSpec WireSpec PiecesSpec PeerClientSpec DownloadSpec TrackerSpec
    TrackerWatch AppSample
begin

text \<open>
  A verification library for a BitTorrent downloader written in Go. The program reads a metainfo file, asks
  trackers for peers, runs a bounded number of workers that fetch pieces from peers, checks every piece against
  its SHA-1 hash, writes it into files of an in-progress directory, and moves the finished files to a completed
  path. This library models all of it from the bytes of the metainfo file to the exit status of \<open>main\<close>, except
  for what is listed at the end. A theory \<open>X\<close> holds the model of a part and \<open>XSpec\<close> what is proved of it.

  \<^bold>\<open>The parts and their theories.\<close>
  \<^item> \<open>internal/bencode/parser.go\<close>: \<open>Bencode\<close>. The parser is a set of mutually recursive functions on a position
    in the input, as in the code, with its limits on depth and string length; termination is proved through the
    position. \<open>BencodeSpec\<close> relates it to trees without positions: the accepted inputs are the canonical
    encodings (C10), but for repeated empty keys (C40), positions delimit values (C25) and the info hash is the hash
    of the very bytes of the info value, its canonical encoding when it has no empty keys (C24).
  \<^item> \<open>internal/torrent/metadata.go\<close>: \<open>Metainfo\<close>; \<open>MetainfoSpec\<close> has \<open>metaWf\<close>, what the storage relies on (C11), and the
    parts that make paths safe and apart (C22, C23, C38), the trackers (\<open>TrackerURLs_spec\<close>) and the number of pieces (\<open>pieceCount_covers\<close>).
  \<^item> \<open>internal/peer\<close>: \<open>Wire\<close> (messages, handshake, bitfield, peer id) and \<open>PeerClient\<close> (connection, handshake,
    read loop). \<open>WireSpec\<close> (messages: C18, C26, C36; handshake and bitfield: C34, C35;
    peer id: \<open>GeneratePeerID_shape\<close>) and \<open>PeerClientSpec\<close> (C21, C31).
  \<^item> \<open>internal/storage/storage.go\<close>: \<open>FileSys\<close> (a Unix file system whose every call may fail), \<open>FileStore\<close>.
    \<open>FileStoreSpec\<close> shows that the files refine one byte array (C9, C27 to C29), \<open>FileStoreOpen\<close> the beginning and
    the end of a storage (C12, C14), and \<open>StorageProgress\<close> that on a disk without faults and with room for the torrent
    both succeed (C15).
  \<^item> \<open>internal/download/manager.go\<close> and \<open>piece.go\<close>: \<open>Pieces\<close>; \<open>PiecesSpec\<close> (C5, C8, C16, C17, C30, C37).
  \<^item> \<open>internal/download/worker.go\<close>: \<open>Worker\<close>. \<open>Claims\<close> says who holds which piece, \<open>WorkerSpec\<close> has the loop
    invariant (the claim behind \<open>currentPiece\<close>, the block it expects, and what it has sent, request by request),
    \<open>SwarmSpec\<close> the interleavings, \<open>Seeder\<close> progress with the messages of one good peer, \<open>PeerStream\<close> the
    bytes of such a peer, \<open>Conversation\<close> a peer that reacts: it decodes what the worker has sent and
    answers that, and \<open>DownloadSpec\<close> the properties (C4, C6, C13, C39).
  \<^item> \<open>internal/tracker/announce.go\<close>: \<open>Address\<close>, \<open>ParseIP\<close>, \<open>UrlQuery\<close> (the parts of \<open>net\<close> and \<open>net/url\<close> it uses) and
    \<open>Tracker\<close>; \<open>TrackerSpec\<close> (C19, C20, C32, C33). \<open>TrackerWatch\<close> is the goroutine that interrupts a UDP announce when its
    context is cancelled.
  \<^item> \<open>main.go\<close>: \<open>App\<close>. \<open>AppCrew\<close> is what the supervisor knows of its goroutines, \<open>AppTriples\<close> treats its code action
    by action, \<open>AppSpec\<close> has the safety properties (C1, C3), \<open>AppProgress\<close> has an execution in which a download gets done (C7),
    \<open>MainProgress\<close> that the program as a whole does, from the flags to the delivered files (C2), and \<open>AppSample\<close> has
    executions of the whole program.
  \<^item> Shared: \<open>Prelude\<close> (bytes, 64-bit arithmetic, results), \<open>GoStrings\<close>, \<open>Strconv\<close>, \<open>Binary\<close>, \<open>Sha1\<close> (the Go library),
    \<open>Actions\<close> (code that changes a state and may fail), \<open>Threads\<close>, \<open>Goroutine\<close>, \<open>Supervised\<close> (concurrency).

  \<^bold>\<open>How the code is represented.\<close> A struct is a record, an interface or a tagged union a datatype, and every error
  the code can return is a constructor of an error type, so that every early return is a branch of a sum. A Go
  \<open>int\<close> or \<open>int64\<close> is an \<open>int\<close> and every addition, subtraction or product that can leave the 64 bits is wrapped in
  \<open>i64\<close>; bytes, ports and the fields of UDP messages are words. A Go map is an association list where its order
  or its duplicates matter and a set or a function elsewhere. A loop is a recursive function; the properties
  hold for all inputs of these functions, which are total.

  \<^bold>\<open>Concurrency.\<close> The only lock that several goroutines take is the one of the piece manager. A goroutine is a
  program of critical sections (\<open>prog\<close>) on the world, which is the disk and the piece manager; what it does
  between two sections is local. \<open>swarmStep\<close> interleaves the sections of several goroutines in any order, and
  \<open>besideStep\<close> those of the supervisor with theirs. \<open>CompletePiece\<close> writes without the lock and is three
  sections. What a \<open>select\<close> will find (messages, deadlines, updates, results, timers) is a list of events, over
  which the properties quantify; an event that is not ready is skipped, and at the end of the list the code is
  still waiting. The version number of the updates channel is a counter, and to wait on a channel is to compare
  the counter with the one that was read.

  \<^bold>\<open>Interfaces.\<close> Each is a locale that is interpreted on the definitions of the model.
  \<^item> \<open>codec\<close>: the encoder and the reader of a frame are inverse, and what is accepted was encoded. Interpretations
    \<open>wire\<close> (messages), \<open>handshake\<close>, and \<open>compact\<close> (peers in a tracker's answer).
  \<^item> \<open>byte_store\<close>: the storage as one byte array. Interpretation \<open>store\<close>, on which the piece manager rests.
  \<^item> \<open>exclusive\<close>: goroutines that claim resources and give them back. Interpretation \<open>swarm\<close> for pieces.
  \<^item> \<open>supervised\<close>: a program whose knowledge is stable under the steps of the rest. Interpretation \<open>app\<close>.

  \<^bold>\<open>Safety and progress.\<close> C1 is about every execution: an exit with status 0 means that the torrent has been
  delivered. C4 and C13 are about every interleaving of workers with any events: who owns a piece that is being
  fetched, and what a worker asks for. C6 and C7 are progress: on a disk without faults, with an open storage and a
  peer that reacts, the missing pieces get fetched; C6 says what \<open>RunClient\<close> returns, alone and whatever is
  missing, C7 that \<open>downloadTorrent\<close> has an execution that returns. C2 is the counterpart of C1: when disk, tracker and one peer do their part, whatever number of
  other peers is dead, there is such an execution. Its hypotheses are about the surroundings only: \<open>roomFor\<close> (what stands on the disk), \<open>contentOf\<close> (data with the
  hashes of the torrent) and \<open>servedBy\<close> (the tracker's answer, the connection and its bytes). The only bound is
  \<open>maxPieces\<close>, 33 million: the bitfield of a larger torrent is longer than the client's limit for a message.

  \<^bold>\<open>Bounds.\<close> In the model of the code fuel appears once: the loop of \<open>launchWorkers\<close> gets the number of pending peers,
  and every iteration takes one away. \<open>conversation\<close> has the number of messages that the peer may send, and
  \<open>messagesNeeded\<close> (two and the blocks of the missing pieces) is enough. The number of \<open>ReadLoop\<close> is no fuel but the moment at which its context is cancelled; C31 shows
  that with more steps than messages it reaches the end. Integers are bounded by the checks of the code itself
  (\<open>metaWf\<close> has the total length below \<open>2^63\<close>). But for \<open>maxPieces\<close> in C2 (and \<open>2^32\<close> pieces, which the wire format
  can number, in C6 and C7) nothing is bounded in the number of peers, pieces or events.

  \<^bold>\<open>Parameters.\<close> What is not the program's is an argument: the case tables of Unicode above ASCII, the network of
  the tracker client (URL parsing, one HTTP request, dialling, random bytes), what a peer's connection delivers
  and how its writes fail, and the faults of the file system, a list of outcomes that calls consume.
  No theorem assumes anything about them beyond what its statement says.

  \<^bold>\<open>Not modelled.\<close> What is printed; the parsing of the command line by package \<open>flag\<close> (its result is an input of
  \<open>mainProgram\<close>); time, except that deadlines and timers pass as events (the limit that \<open>announceUDP\<close> sets is an outcome of its
  reads); symbolic links that appear while the program runs (opening one is an error); what a failed
  \<open>MkdirAll\<close> may leave behind (a failing call changes nothing); the choice of an HTTP client, which the network
  parameter stands for; the mutexes that only protect a flag of one object; memory exhaustion. TLS, DNS and HTTP
  below one request are behind the parameter of the network.

  \<^bold>\<open>What does not hold.\<close> A dictionary with repeated empty keys is accepted (C40). A worker can miss the release of a piece
  and wait although there is work (C39), and in the same way the supervisor can miss a completion, so that its
  idle timer is not reset (\<open>completion_unnoticed\<close>): both read the channel of \<open>Updates\<close> after the state it
  speaks about. A tracker that answers without peers does not end the search, against the comment above \<open>AnnounceFirst\<close> (C33). A cancellation just before
  \<open>announceUDP\<close> sets its deadline is overwritten by it (\<open>cancel_overwritten\<close>), a later one is not (\<open>cancel_in_time\<close>).
\<close>

end
